(* ===== verification/Prelude.thy ===== *)
theory Prelude
  imports Main "HOL-Library.Word" "HOL-Library.Monad_Syntax"
begin

unbundle bit_operations_syntax

text \<open>
  What the components share: bytes and byte strings, Rust's integer operations at their
  widths, checked indexing and slicing, and the little- and big-endian encodings of the
  standard library's \<open>to_le_bytes\<close>, \<open>to_be_bytes\<close> and their inverses.

  Conventions.  A \<open>u8\<close> is an \<open>8 word\<close>; a slice, a \<open>Vec<u8>\<close>, \<open>Bytes\<close> and \<open>BytesMut\<close> are
  lists of bytes (capacity is not observable and is dropped, so \<open>reserve\<close> is the
  identity).  \<open>usize\<close> is 64 bits wide and is read as a \<^typ>\<open>nat\<close>; positions in a slice stay
  below \<open>2 ^ 63 + 2 ^ 25\<close>, so plain additions on them do not overflow, and the operations
  whose overflow the code observes (\<open>checked_*\<close>, \<open>saturating_*\<close>, \<open>try_from\<close>, \<open>as\<close>) are
  written out below.  A panic is the value \<^term>\<open>None\<close> of the type \<open>'a rs\<close>; an \<open>Option\<close>
  returned by a function that may panic is therefore an \<open>'a option rs\<close>.
\<close>

section \<open>Types\<close>

type_synonym byte = "8 word"
type_synonym bytes = "8 word list"
type_synonym 'a rs = "'a option"

named_theorems rust_simps \<open>unfolding rules of the Rust operations\<close>
named_theorems codec_simps \<open>encodings and their inverses\<close>
named_theorems inv_intros \<open>preservation of the components' invariants\<close>

section \<open>Integer operations at their widths\<close>

abbreviation U16_MAX :: nat where "U16_MAX \<equiv> 65535"
abbreviation U32_MAX :: nat where "U32_MAX \<equiv> 4294967295"
abbreviation U64_MAX :: nat where "U64_MAX \<equiv> 18446744073709551615"
abbreviation I64_MAX :: int where "I64_MAX \<equiv> 9223372036854775807"
abbreviation I64_MIN :: int where "I64_MIN \<equiv> - 9223372036854775808"

definition sat_add :: "nat \<Rightarrow> nat \<Rightarrow> nat \<Rightarrow> nat" where
  "sat_add mx a b = min mx (a + b)"

definition sat_mul :: "nat \<Rightarrow> nat \<Rightarrow> nat \<Rightarrow> nat" where
  "sat_mul mx a b = min mx (a * b)"

definition checked_add :: "nat \<Rightarrow> nat \<Rightarrow> nat option" where
  "checked_add a b = (if a + b \<le> U64_MAX then Some (a + b) else None)"

definition checked_mul :: "nat \<Rightarrow> nat \<Rightarrow> nat option" where
  "checked_mul a b = (if a * b \<le> U64_MAX then Some (a * b) else None)"

definition try_from :: "nat \<Rightarrow> nat \<Rightarrow> nat option" where
  "try_from mx n = (if n \<le> mx then Some n else None)"

definition sat_i64 :: "int \<Rightarrow> int" where
  "sat_i64 x = max I64_MIN (min I64_MAX x)"

lemma sat_add_exact [simp]: "a + b \<le> mx \<Longrightarrow> sat_add mx a b = a + b"
  by (simp add: sat_add_def)

lemma sat_add_le_iff: "c < mx \<Longrightarrow> (c < sat_add mx a b) = (c < a + b)"
  by (auto simp: sat_add_def)

lemma sat_add_bound [simp]: "sat_add mx a b \<le> mx"
  by (simp add: sat_add_def)

lemma sat_add_le [simp]: "sat_add mx a b \<le> a + b"
  by (simp add: sat_add_def)

lemma sat_add_mono1: "a \<le> mx \<Longrightarrow> a \<le> sat_add mx a b"
  by (simp add: sat_add_def)

lemma try_from_Some [simp]: "(try_from mx n = Some m) = (m = n \<and> n \<le> mx)"
  by (auto simp: try_from_def)

lemma try_from_None [simp]: "(try_from mx n = None) = (mx < n)"
  by (auto simp: try_from_def)

lemma checked_add_Some [simp]: "(checked_add a b = Some c) = (c = a + b \<and> a + b \<le> U64_MAX)"
  by (auto simp: checked_add_def)

lemma sat_i64_id [simp]: "I64_MIN \<le> x \<Longrightarrow> x \<le> I64_MAX \<Longrightarrow> sat_i64 x = x"
  by (simp add: sat_i64_def)

section \<open>Indexing and slicing, with the panic out of range\<close>

definition idx :: "'a list \<Rightarrow> nat \<Rightarrow> 'a rs" where
  "idx xs i = (if i < length xs then Some (xs ! i) else None)"

definition slice :: "'a list \<Rightarrow> nat \<Rightarrow> nat \<Rightarrow> 'a list rs" where
  "slice xs a b = (if a \<le> b \<and> b \<le> length xs then Some (take (b - a) (drop a xs)) else None)"

text \<open>\<open>copy_from_slice\<close> into the range \<open>a..a + length ys\<close> of \<open>xs\<close>.\<close>

definition splice :: "'a list \<Rightarrow> nat \<Rightarrow> 'a list \<Rightarrow> 'a list rs" where
  "splice xs a ys = (if a + length ys \<le> length xs
     then Some (take a xs @ ys @ drop (a + length ys) xs) else None)"

lemma idx_in [simp]: "i < length xs \<Longrightarrow> idx xs i = Some (xs ! i)"
  by (simp add: idx_def)

lemma idx_Some: "(idx xs i = Some x) = (i < length xs \<and> x = xs ! i)"
  by (auto simp: idx_def)

lemma idx_map: "idx (map f xs) i = map_option f (idx xs i)"
  by (simp add: idx_def)

lemma slice_in [simp]: "a \<le> b \<Longrightarrow> b \<le> length xs \<Longrightarrow> slice xs a b = Some (take (b - a) (drop a xs))"
  by (simp add: slice_def)

lemma splice_in [simp]:
  "a + length ys \<le> length xs \<Longrightarrow> splice xs a ys = Some (take a xs @ ys @ drop (a + length ys) xs)"
  by (simp add: splice_def)

lemma splice_length: "splice xs a ys = Some zs \<Longrightarrow> length zs = length xs"
  by (auto simp: splice_def split: if_splits)

lemma splice_mid:
  "length p = a \<Longrightarrow> length e = length d \<Longrightarrow> splice (p @ e @ r) a d = Some (p @ d @ r)"
  by (auto simp: splice_def)

lemma take_drop_mid: "length p = a \<Longrightarrow> length d = n \<Longrightarrow> take n (drop a (p @ d @ r)) = d"
  by auto

section \<open>Byte orders\<close>

fun le_nat :: "bytes \<Rightarrow> nat" where
  "le_nat [] = 0"
| "le_nat (b # bs) = unat b + 256 * le_nat bs"

fun nat_le :: "nat \<Rightarrow> nat \<Rightarrow> bytes" where
  "nat_le 0 v = []"
| "nat_le (Suc n) v = of_nat v # nat_le n (v div 256)"

definition be_nat :: "bytes \<Rightarrow> nat" where
  "be_nat bs = le_nat (rev bs)"

definition nat_be :: "nat \<Rightarrow> nat \<Rightarrow> bytes" where
  "nat_be n v = rev (nat_le n v)"

text \<open>\<open>u16::from_be_bytes([a, b])\<close>, read as a number.\<close>

definition be16 :: "byte \<Rightarrow> byte \<Rightarrow> nat" where
  "be16 a b = 256 * unat a + unat b"

lemma unat_byte_of_nat [simp]: "unat (of_nat v :: byte) = v mod 256"
  by (simp add: unat_of_nat)

lemma unat_byte_less [simp]: "unat (b :: byte) < 256"
  by (rule order_less_le_trans [OF unsigned_less]) simp

lemma unat_byte_le [simp]: "unat (b :: byte) \<le> 255"
  using unat_byte_less [of b] by linarith

lemma nat_le_2: "nat_le 2 v = [of_nat v, of_nat (v div 256)]"
  by (simp only: numeral_2_eq_2 nat_le.simps)

lemma nat_le_4:
  "nat_le 4 v = [of_nat v, of_nat (v div 256), of_nat (v div 256 div 256),
    of_nat (v div 256 div 256 div 256)]"
proof -
  have "4 = Suc (Suc (Suc (Suc 0)))" by simp
  then show ?thesis by (simp only: nat_le.simps)
qed

lemma length_nat_le [simp]: "length (nat_le n v) = n"
  by (induction n arbitrary: v) auto

lemma length_nat_be [simp]: "length (nat_be n v) = n"
  by (simp add: nat_be_def)

lemma le_nat_bound: "le_nat bs < 256 ^ length bs"
proof (induction bs)
  case (Cons b bs)
  have "unat b < 256" by simp
  with Cons.IH have "unat b + 256 * le_nat bs < 256 * 256 ^ length bs" by linarith
  then show ?case by simp
qed simp

lemma le_nat_nat_le [codec_simps, simp]: "le_nat (nat_le n v) = v mod 256 ^ n"
proof (induction n arbitrary: v)
  case (Suc n)
  have "v mod 256 ^ Suc n = v mod 256 + 256 * (v div 256 mod 256 ^ n)"
    by (simp add: mod_mult2_eq)
  with Suc.IH show ?case by simp
qed simp

lemma nat_le_le_nat [codec_simps, simp]: "nat_le (length bs) (le_nat bs) = bs"
proof (induction bs)
  case (Cons b bs)
  have "unat (of_nat (unat b + 256 * le_nat bs) :: byte) = unat b"
    by (simp only: unat_byte_of_nat) simp
  then have "(of_nat (unat b + 256 * le_nat bs) :: byte) = b"
    by (rule word_unat_eq_iff [THEN iffD2])
  with Cons.IH show ?case by simp
qed simp

lemma nat_le_inj:
  "nat_le n v = nat_le n w \<Longrightarrow> v < 256 ^ n \<Longrightarrow> w < 256 ^ n \<Longrightarrow> v = w"
  by (metis le_nat_nat_le mod_less)

lemma be_nat_nat_be [codec_simps, simp]: "be_nat (nat_be n v) = v mod 256 ^ n"
  by (simp add: be_nat_def nat_be_def)

lemma be_nat_bound: "be_nat bs < 256 ^ length bs"
  using le_nat_bound [of "rev bs"] by (simp add: be_nat_def)

lemma nat_be_2: "nat_be 2 v = [of_nat (v div 256), of_nat v]"
  by (simp add: nat_be_def numeral_2_eq_2)

lemma be16_bound [simp]: "be16 a b < 65536"
proof -
  have "unat a \<le> 255" "unat b \<le> 255" by simp_all
  then show ?thesis unfolding be16_def by linarith
qed

lemma be16_of_nat [codec_simps, simp]:
  "v < 65536 \<Longrightarrow> be16 (of_nat (v div 256)) (of_nat v) = v"
  by (simp add: be16_def)

end
