(* ===== verification/Secure_Random.thy ===== *)
theory Secure_Random
  imports Prelude "HOL-Library.Multiset"
begin

text \<open>
  The random source of \<open>src/crypto/random.rs\<close>: a chunk buffer over a generator whose
  output is masked by an AES-CTR keystream.

  The generator (\<open>rand::StdRng\<close>) and the cipher (the \<open>ctr\<close> crate under \<open>AesCtr\<close>) are code
  outside this repository: they are the fields of the parameter \<^emph>\<open>ops\<close> of every definition.
  Both write into a slice handed to them, which fixes the length: what they write is a
  function from the index to the byte stored there.  The one fact the code relies on,
  that \<open>random_range(0..n)\<close> is below \<open>n\<close>, is the predicate \<open>range_ok\<close>.
\<close>

section \<open>State and operations\<close>

record ('s, 'c) rand_ops =
  fill_bytes :: "nat \<Rightarrow> 's \<Rightarrow> (nat \<Rightarrow> byte) \<times> 's"
  random_range :: "nat \<Rightarrow> 's \<Rightarrow> nat \<times> 's"
  cipher_apply :: "'c \<Rightarrow> bytes \<Rightarrow> (nat \<Rightarrow> byte) \<times> 'c"

record ('s, 'c) SecureRandomInner =
  sr_rng :: 's
  sr_cipher :: 'c
  sr_buffer :: bytes
  sr_start :: nat

definition range_ok :: "('s, 'c) rand_ops \<Rightarrow> bool" where
  "range_ok ops \<longleftrightarrow> (\<forall>n s. 0 < n \<longrightarrow> fst (random_range ops n s) < n)"

definition CHUNK_SIZE :: nat where
  "CHUNK_SIZE = 512"

definition drop_drained :: "('s, 'c) SecureRandomInner \<Rightarrow> ('s, 'c) SecureRandomInner" where
  "drop_drained st =
     (if length (sr_buffer st) \<le> sr_start st then st\<lparr>sr_buffer := [], sr_start := 0\<rparr> else st)"

definition refill_empty ::
  "('s, 'c) rand_ops \<Rightarrow> ('s, 'c) SecureRandomInner \<Rightarrow> ('s, 'c) SecureRandomInner" where
  "refill_empty ops st =
     (if sr_buffer st = []
      then let (f, s) = fill_bytes ops CHUNK_SIZE (sr_rng st);
               (g, c) = cipher_apply ops (sr_cipher st) (map f [0..<CHUNK_SIZE])
           in st\<lparr>sr_rng := s, sr_cipher := c, sr_buffer := map g [0..<CHUNK_SIZE], sr_start := 0\<rparr>
      else st)"

definition sr_available :: "('s, 'c) SecureRandomInner \<Rightarrow> nat" where
  "sr_available st = length (sr_buffer st) - sr_start st"

lemma sr_available_pos: "0 < sr_available (refill_empty ops (drop_drained st))"
  by (auto simp: sr_available_def refill_empty_def drop_drained_def CHUNK_SIZE_def split: prod.splits)

text \<open>
  The loop of \<open>fill\<close> writes the bytes of \<open>out[written..]\<close>; the second argument is
  \<open>out.len() - written\<close> and the first result the bytes written from there on.
\<close>

function fill ::
  "('s, 'c) rand_ops \<Rightarrow> nat \<Rightarrow> ('s, 'c) SecureRandomInner \<Rightarrow> bytes \<times> ('s, 'c) SecureRandomInner" where
  "fill ops n st =
     (if n = 0 then ([], st)
      else let st1 = refill_empty ops (drop_drained st);
               k = min n (sr_available st1);
               out = take k (drop (sr_start st1) (sr_buffer st1));
               st2 = drop_drained (st1\<lparr>sr_start := sr_start st1 + k\<rparr>);
               (rest, st3) = fill ops (n - k) st2
           in (out @ rest, st3))"
  by pat_completeness auto
termination
  by (relation "measure (\<lambda>(ops, n, st). n)") (auto simp: sr_available_pos)

declare fill.simps [simp del]

definition rng_bytes ::
  "('s, 'c) rand_ops \<Rightarrow> nat \<Rightarrow> ('s, 'c) SecureRandomInner \<Rightarrow> bytes \<times> ('s, 'c) SecureRandomInner" where
  "rng_bytes ops len st = fill ops len st"

definition rng_range ::
  "('s, 'c) rand_ops \<Rightarrow> nat \<Rightarrow> ('s, 'c) SecureRandomInner \<Rightarrow> nat \<times> ('s, 'c) SecureRandomInner" where
  "rng_range ops mx st =
     (if mx = 0 then (0, st)
      else let (v, s) = random_range ops mx (sr_rng st) in (v, st\<lparr>sr_rng := s\<rparr>))"

fun bits_of_bytes :: "nat \<Rightarrow> bytes \<Rightarrow> 64 word \<Rightarrow> 64 word" where
  "bits_of_bytes i [] r = r"
| "bits_of_bytes i (b # bs) r =
     (if 8 \<le> i then r else bits_of_bytes (Suc i) bs (r OR push_bit (i * 8) (ucast b)))"

definition rng_bits ::
  "('s, 'c) rand_ops \<Rightarrow> nat \<Rightarrow> ('s, 'c) SecureRandomInner \<Rightarrow> 64 word \<times> ('s, 'c) SecureRandomInner" where
  "rng_bits ops k st =
     (if k = 0 then (0, st)
      else let (bs, st1) = rng_bytes ops (min ((k + 7) div 8) 8) st;
               result = bits_of_bytes 0 bs 0
           in (if k < 64 then result AND (push_bit k 1 - 1) else result, st1))"

definition rng_choose ::
  "('s, 'c) rand_ops \<Rightarrow> 'a list \<Rightarrow> ('s, 'c) SecureRandomInner \<Rightarrow> 'a option rs \<times> ('s, 'c) SecureRandomInner" where
  "rng_choose ops xs st =
     (if xs = [] then (Some None, st)
      else let (i, st1) = rng_range ops (length xs) st in (map_option Some (idx xs i), st1))"

definition swap :: "'a list \<Rightarrow> nat \<Rightarrow> nat \<Rightarrow> 'a list" where
  "swap xs i j = xs[i := xs ! j, j := xs ! i]"

text \<open>The loop of \<open>shuffle\<close>: the index runs from \<open>len - 1\<close> down to \<open>1\<close>.\<close>

fun shuffle_loop :: "('s, 'c) rand_ops \<Rightarrow> nat \<Rightarrow> 'a list \<Rightarrow> 's \<Rightarrow> 'a list \<times> 's" where
  "shuffle_loop ops 0 xs s = (xs, s)"
| "shuffle_loop ops (Suc i) xs s =
     (let (j, s') = random_range ops (Suc (Suc i)) s in shuffle_loop ops i (swap xs (Suc i) j) s')"

definition shuffle ::
  "('s, 'c) rand_ops \<Rightarrow> 'a list \<Rightarrow> ('s, 'c) SecureRandomInner \<Rightarrow> 'a list \<times> ('s, 'c) SecureRandomInner" where
  "shuffle ops xs st =
     (let (ys, s) = shuffle_loop ops (length xs - 1) xs (sr_rng st) in (ys, st\<lparr>sr_rng := s\<rparr>))"

section \<open>Lengths and ranges\<close>

lemma length_fill [simp]: "length (fst (fill ops n st)) = n"
proof (induction ops n st rule: fill.induct)
  case (1 ops n st)
  show ?case
  proof (cases "n = 0")
    case True
    then show ?thesis by (simp add: fill.simps)
  next
    case False
    let ?st1 = "refill_empty ops (drop_drained st)"
    let ?k = "min n (sr_available ?st1)"
    have "length (take ?k (drop (sr_start ?st1) (sr_buffer ?st1))) = ?k"
      by (simp add: sr_available_def)
    with 1 [OF False refl refl refl refl] False show ?thesis
      by (subst fill.simps) (simp add: Let_def split_beta)
  qed
qed

lemma length_rng_bytes [simp]: "length (fst (rng_bytes ops n st)) = n"
  by (simp add: rng_bytes_def)

lemma rng_range_less: "range_ok ops \<Longrightarrow> 0 < n \<Longrightarrow> fst (rng_range ops n st) < n"
  by (simp add: rng_range_def range_ok_def split_beta)

section \<open>The buffer is invisible: one keystream\<close>

lemma fill_0 [simp]: "fill ops 0 st = ([], st)"
  by (simp add: fill.simps)

text \<open>The state a non-empty read starts from, and one read out of a buffered chunk.\<close>

definition primed :: "('s, 'c) rand_ops \<Rightarrow> ('s, 'c) SecureRandomInner \<Rightarrow> ('s, 'c) SecureRandomInner" where
  "primed ops st = refill_empty ops (drop_drained st)"

definition sr_advance :: "nat \<Rightarrow> ('s, 'c) SecureRandomInner \<Rightarrow> ('s, 'c) SecureRandomInner" where
  "sr_advance k st = drop_drained (st\<lparr>sr_start := sr_start st + k\<rparr>)"

lemma fill_within:
  assumes "0 < n" and "n \<le> sr_available (primed ops st)"
  shows "fill ops n st =
    (take n (drop (sr_start (primed ops st)) (sr_buffer (primed ops st))), sr_advance n (primed ops st))"
  using assms by (subst fill.simps) (simp add: primed_def sr_advance_def Let_def)

lemma fill_across:
  assumes "sr_available (primed ops st) < n"
  shows "fill ops n st =
    (let p = primed ops st; (rest, st') = fill ops (n - sr_available p) (sr_advance (sr_available p) p)
     in (drop (sr_start p) (sr_buffer p) @ rest, st'))"
  using assms by (subst fill.simps) (simp add: primed_def sr_advance_def sr_available_def Let_def)

lemma primed_advance:
  "k < sr_available (primed ops st) \<Longrightarrow>
   primed ops (sr_advance k (primed ops st)) = (primed ops st)\<lparr>sr_start := sr_start (primed ops st) + k\<rparr>"
  by (auto simp: sr_advance_def drop_drained_def sr_available_def primed_def refill_empty_def
      split: if_splits prod.splits)

lemma advance_add:
  "sr_advance j (st\<lparr>sr_start := sr_start st + k\<rparr>) = sr_advance (k + j) st"
  by (simp add: sr_advance_def add.assoc)

lemma take_drop_split: "take (a + b) (drop s xs) = take a (drop s xs) @ take b (drop (s + a) xs)"
  by (simp add: take_add add.commute)

lemma fill_add:
  "fill ops (m + n) st =
     (let (a, st1) = fill ops m st; (b, st2) = fill ops n st1 in (a @ b, st2))"
proof (induction m arbitrary: st rule: less_induct)
  case (less m)
  let ?p = "primed ops st"
  have pos: "0 < sr_available ?p" by (simp add: primed_def sr_available_pos)
  consider "m = 0" | "n = 0" | "0 < m" "0 < n" "m < sr_available ?p" | "0 < m" "sr_available ?p \<le> m"
    by linarith
  then show ?case
  proof cases
    case 3
    let ?q = "sr_advance m ?p"
    have q: "primed ops ?q = ?p\<lparr>sr_start := sr_start ?p + m\<rparr>"
      using 3 by (simp add: primed_advance)
    have fm: "fill ops m st = (take m (drop (sr_start ?p) (sr_buffer ?p)), ?q)"
      using 3 by (simp add: fill_within)
    show ?thesis
    proof (cases "m + n \<le> sr_available ?p")
      case True
      then have "n \<le> sr_available (primed ops ?q)" by (simp add: q sr_available_def)
      with 3 True show ?thesis
        by (simp add: fm fill_within q advance_add take_drop_split)
    next
      case False
      with 3 have "sr_available (primed ops ?q) < n" by (auto simp: q sr_available_def)
      moreover have "m + n - sr_available ?p = n - sr_available (primed ops ?q)"
        and "m + sr_available (primed ops ?q) = sr_available ?p"
        using 3 by (simp_all add: q sr_available_def)
      moreover have "drop (sr_start ?p) (sr_buffer ?p) @ r =
          take m (drop (sr_start ?p) (sr_buffer ?p)) @ drop (sr_start ?p + m) (sr_buffer ?p) @ r" for r
        by (metis append_assoc append_take_drop_id drop_drop add.commute)
      ultimately show ?thesis
        using False by (simp add: fm fill_across q advance_add Let_def split_beta)
    qed
  next
    case 4
    let ?a = "sr_available ?p"
    show ?thesis
    proof (cases "m = ?a")
      case True
      then show ?thesis
        using 4 by (cases "n = 0") (simp_all add: fill_within fill_across Let_def split_beta sr_available_def)
    next
      case False
      with 4 have lt: "?a < m" by simp
      then have "m + n - ?a = (m - ?a) + n" by simp
      then show ?thesis
        using lt pos less.IH [of "m - ?a" "sr_advance ?a ?p"]
        by (simp add: fill_across Let_def split_beta)
    qed
  qed simp_all
qed

section \<open>Bits and permutations\<close>

lemma rng_bits_bound:
  "k < 64 \<Longrightarrow> unat (fst (rng_bits ops k st)) < 2 ^ k"
proof -
  assume k: "k < 64"
  have "unat (x AND (push_bit k 1 - 1)) < 2 ^ k" for x :: "64 word"
  proof -
    have "push_bit k 1 - 1 = (mask k :: 64 word)"
      by (simp add: mask_eq_exp_minus_1 push_bit_eq_mult)
    then show ?thesis
      by (simp add: take_bit_eq_mask [symmetric] unsigned_take_bit_eq)
  qed
  then show ?thesis
    using k by (auto simp: rng_bits_def split_beta)
qed

lemma mset_swap: "i < length xs \<Longrightarrow> j < length xs \<Longrightarrow> mset (swap xs i j) = mset xs"
  unfolding swap_def by (rule mset_swap)

lemma length_swap [simp]: "length (swap xs i j) = length xs"
  by (simp add: swap_def)

lemma shuffle_loop_mset:
  "range_ok ops \<Longrightarrow> i < length xs \<Longrightarrow> mset (fst (shuffle_loop ops i xs s)) = mset xs"
proof (induction ops i xs s rule: shuffle_loop.induct)
  case (2 ops i xs s)
  obtain j s' where js: "random_range ops (Suc (Suc i)) s = (j, s')" by force
  have "fst (random_range ops (Suc (Suc i)) s) < Suc (Suc i)"
    using "2.prems"(1) unfolding range_ok_def by blast
  with js have "j < Suc (Suc i)" by simp
  with "2.prems" have "mset (swap xs (Suc i) j) = mset xs"
    by (intro mset_swap) auto
  with "2.IH" [OF js [symmetric] refl] "2.prems" js show ?case by simp
qed simp

lemma shuffle_mset: "range_ok ops \<Longrightarrow> mset (fst (shuffle ops xs st)) = mset xs"
  by (cases "xs = []")
     (auto simp: shuffle_def split_beta intro: shuffle_loop_mset)

section \<open>A concrete source\<close>

text \<open>A random source for the concrete instances: every draw is zero and the cipher is the identity.\<close>

definition demo_ops :: "(unit, unit) rand_ops" where
  "demo_ops = \<lparr>fill_bytes = (\<lambda>n s. (\<lambda>i. 0, s)), random_range = (\<lambda>n s. (0, s)),
     cipher_apply = (\<lambda>c bs. (\<lambda>i. bs ! i, c))\<rparr>"

definition demo_rng :: "(unit, unit) SecureRandomInner" where
  "demo_rng = \<lparr>sr_rng = (), sr_cipher = (), sr_buffer = [], sr_start = 0\<rparr>"

lemma demo_ops_range_ok [simp]: "range_ok demo_ops"
  by (simp add: range_ok_def demo_ops_def)

end
