(* ===== verification/Framing.thy ===== *)
theory Framing
  imports Secure_Random
begin

text \<open>
  MTProto transport framing: the protocol tags and the frame-length rules of
  \<open>src/protocol/constants.rs\<close>, the length headers of \<open>src/protocol/framing.rs\<close> and the
  frame modes of \<open>src/protocol/frame.rs\<close>.
\<close>

section \<open>Protocol tags (\<open>protocol/constants.rs\<close>)\<close>

datatype ProtoTag = Abridged | Intermediate | Secure

fun proto_tag_u32 :: "ProtoTag \<Rightarrow> nat" where
  "proto_tag_u32 Abridged = 0xefefefef"
| "proto_tag_u32 Intermediate = 0xeeeeeeee"
| "proto_tag_u32 Secure = 0xdddddddd"

definition ProtoTag_from_bytes :: "bytes \<Rightarrow> ProtoTag option" where
  "ProtoTag_from_bytes bs =
     (let v = le_nat bs
      in if v = 0xefefefef then Some Abridged
         else if v = 0xeeeeeeee then Some Intermediate
         else if v = 0xdddddddd then Some Secure
         else None)"

definition ProtoTag_to_bytes :: "ProtoTag \<Rightarrow> bytes" where
  "ProtoTag_to_bytes t = nat_le 4 (proto_tag_u32 t)"

fun ProtoTag_as_bytes :: "ProtoTag \<Rightarrow> bytes" where
  "ProtoTag_as_bytes Abridged = [0xef, 0xef, 0xef, 0xef]"
| "ProtoTag_as_bytes Intermediate = [0xee, 0xee, 0xee, 0xee]"
| "ProtoTag_as_bytes Secure = [0xdd, 0xdd, 0xdd, 0xdd]"

lemma ProtoTag_as_bytes_eq: "ProtoTag_as_bytes t = ProtoTag_to_bytes t"
  by (cases t) (simp_all add: ProtoTag_to_bytes_def nat_le_4)

lemma ProtoTag_roundtrip [codec_simps, simp]: "ProtoTag_from_bytes (ProtoTag_to_bytes t) = Some t"
  by (cases t) (simp_all add: ProtoTag_to_bytes_def ProtoTag_from_bytes_def)

lemma ProtoTag_from_bytes_sound:
  "length bs = 4 \<Longrightarrow> ProtoTag_from_bytes bs = Some t \<Longrightarrow> bs = ProtoTag_to_bytes t"
  using nat_le_le_nat [of bs]
  by (auto simp: ProtoTag_from_bytes_def ProtoTag_to_bytes_def Let_def split: if_splits)

section \<open>Frame lengths (\<open>protocol/constants.rs\<close>, \<open>protocol/frame.rs\<close>)\<close>

definition MIN_MSG_LEN :: nat where "MIN_MSG_LEN = 12"
definition MAX_MSG_LEN :: nat where "MAX_MSG_LEN = 2 ^ 24"
definition PADDING_FILLER :: bytes where "PADDING_FILLER = [0x04, 0x00, 0x00, 0x00]"

definition validate_message_length :: "nat \<Rightarrow> bool" where
  "validate_message_length len \<longleftrightarrow>
     MIN_MSG_LEN \<le> len \<and> len \<le> MAX_MSG_LEN \<and> length PADDING_FILLER dvd len"

datatype FrameMode = FM_Abridged | FM_Intermediate | FM_SecureIntermediate | FM_Full

fun max_overhead :: "FrameMode \<Rightarrow> nat" where
  "max_overhead FM_Abridged = 4"
| "max_overhead FM_Intermediate = 4"
| "max_overhead FM_SecureIntermediate = 4 + 3"
| "max_overhead FM_Full = 12 + 16"

section \<open>Length headers (\<open>protocol/framing.rs\<close>)\<close>

definition INTERMEDIATE_QUICKACK_FLAG :: "32 word" where
  "INTERMEDIATE_QUICKACK_FLAG = 0x80000000"

definition INTERMEDIATE_WIRE_LEN_MASK :: "32 word" where
  "INTERMEDIATE_WIRE_LEN_MASK = 0x7fffffff"

definition SECURE_VERSION_D_PADDING_MAX :: nat where
  "SECURE_VERSION_D_PADDING_MAX = 3"

record IntermediateHeader =
  wire_len :: nat
  hdr_quickack :: bool

definition parse_intermediate_header :: "bytes \<Rightarrow> IntermediateHeader" where
  "parse_intermediate_header header =
     (let raw = of_nat (le_nat header) :: 32 word
      in \<lparr>wire_len = unat (raw AND INTERMEDIATE_WIRE_LEN_MASK),
          hdr_quickack = (raw AND INTERMEDIATE_QUICKACK_FLAG \<noteq> 0)\<rparr>)"

definition encode_intermediate_header :: "nat \<Rightarrow> bool \<Rightarrow> (32 word) option" where
  "encode_intermediate_header wl quickack =
     (if unat INTERMEDIATE_WIRE_LEN_MASK < wl then None
      else do {
        v \<leftarrow> try_from U32_MAX wl;
        let raw = of_nat v;
        Some (if quickack then raw OR INTERMEDIATE_QUICKACK_FLAG else raw)
      })"

definition secure_version_d_body_len_from_wire_len :: "nat \<Rightarrow> nat option" where
  "secure_version_d_body_len_from_wire_len wl = (if wl < 4 then None else Some (wl - wl mod 4))"

definition secure_version_d_padding_len ::
  "('s, 'c) rand_ops \<Rightarrow> ('s, 'c) SecureRandomInner \<Rightarrow> nat \<times> ('s, 'c) SecureRandomInner" where
  "secure_version_d_padding_len ops r =
     (let (v, r') = rng_range ops SECURE_VERSION_D_PADDING_MAX r in (v + 1, r'))"

text \<open>The wrappers of \<open>constants.rs\<close>; the \<open>debug_assert\<close> of \<open>secure_padding_len\<close> is compiled out.\<close>

definition is_valid_secure_payload_len :: "nat \<Rightarrow> bool" where
  "is_valid_secure_payload_len data_len \<longleftrightarrow> 4 dvd data_len"

definition secure_payload_len_from_wire_len :: "nat \<Rightarrow> nat option" where
  "secure_payload_len_from_wire_len wl = secure_version_d_body_len_from_wire_len wl"

definition secure_padding_len ::
  "('s, 'c) rand_ops \<Rightarrow> nat \<Rightarrow> ('s, 'c) SecureRandomInner \<Rightarrow> nat \<times> ('s, 'c) SecureRandomInner" where
  "secure_padding_len ops data_len r = secure_version_d_padding_len ops r"

section \<open>Headers and their inverses\<close>

lemma and_low_mask: "k \<le> LENGTH('a::len) \<Longrightarrow> (w :: 'a word) AND mask k = take_bit k w"
  by (simp add: take_bit_eq_mask)

lemma take_bit_or_flag:
  fixes x :: "'a::len word"
  assumes "unat x < 2 ^ k"
  shows "take_bit k (x OR push_bit k 1) = x" and "bit (x OR push_bit k 1) k = (k < LENGTH('a))"
    and "take_bit k x = x" and "\<not> bit x k"
proof -
  have tb: "take_bit k x = x"
    by (rule word_unat_eq_iff [THEN iffD2])
       (use assms in \<open>simp add: unsigned_take_bit_eq take_bit_nat_eq_self\<close>)
  then show "take_bit k x = x" .
  show "take_bit k (x OR push_bit k 1) = x"
    by (simp add: tb take_bit_push_bit del: push_bit_of_1)
  have nb: "\<not> bit x k"
    by (metis tb bit_take_bit_iff less_irrefl)
  then show "\<not> bit x k" .
  show "bit (x OR push_bit k 1) k = (k < LENGTH('a))"
    using nb by (auto simp: bit_or_iff bit_push_bit_iff simp del: push_bit_of_1)
qed

lemma mask_consts:
  "INTERMEDIATE_WIRE_LEN_MASK = mask 31" "INTERMEDIATE_QUICKACK_FLAG = push_bit 31 1"
  by (simp_all add: INTERMEDIATE_WIRE_LEN_MASK_def INTERMEDIATE_QUICKACK_FLAG_def mask_eq_exp_minus_1)

lemma parse_intermediate_header_alt:
  "parse_intermediate_header h =
     \<lparr>wire_len = unat (take_bit 31 (of_nat (le_nat h) :: 32 word)),
      hdr_quickack = bit (of_nat (le_nat h) :: 32 word) 31\<rparr>"
  using and_exp_eq_0_iff_not_bit [of "of_nat (le_nat h) :: 32 word" 31]
  by (simp add: parse_intermediate_header_def mask_consts and_low_mask Let_def)

lemma encode_intermediate_header_alt:
  "encode_intermediate_header wl q =
     (if wl < 2 ^ 31 then Some (if q then of_nat wl OR push_bit 31 1 else of_nat wl) else None)"
  by (auto simp: encode_intermediate_header_def mask_consts mask_eq_exp_minus_1 try_from_def)

lemma of_nat_le_nat_word32 [simp]: "of_nat (le_nat (nat_le 4 (unat (w :: 32 word)))) = w"
proof -
  have "unat w < 2 ^ 32" by (rule order_less_le_trans [OF unsigned_less]) simp
  then show ?thesis by simp
qed

lemma intermediate_header_roundtrip:
  assumes "encode_intermediate_header wl q = Some raw"
  shows "parse_intermediate_header (nat_le 4 (unat raw)) = \<lparr>wire_len = wl, hdr_quickack = q\<rparr>"
proof -
  have wl: "wl < 2 ^ 31" and raw: "raw = (if q then of_nat wl OR push_bit 31 1 else of_nat wl)"
    using assms by (auto simp: encode_intermediate_header_alt split: if_splits)
  have un: "unat (of_nat wl :: 32 word) = wl"
    using wl by (simp add: unat_of_nat)
  show ?thesis
    using take_bit_or_flag [of "of_nat wl :: 32 word" 31] wl
    by (simp only: parse_intermediate_header_alt of_nat_le_nat_word32) (auto simp: raw un)
qed

lemma encode_intermediate_header_None: "(encode_intermediate_header wl q = None) = (2 ^ 31 \<le> wl)"
  by (auto simp: encode_intermediate_header_alt)

lemma parse_intermediate_header_bound: "wire_len (parse_intermediate_header h) < 2 ^ 31"
  using take_bit_nat_less_exp [of 31]
  by (simp add: parse_intermediate_header_alt unsigned_take_bit_eq)

lemma secure_body_len_le: "secure_payload_len_from_wire_len wl = Some n \<Longrightarrow> n \<le> wl"
  by (auto simp: secure_payload_len_from_wire_len_def secure_version_d_body_len_from_wire_len_def
      split: if_splits)

lemma secure_padding_len_bounds:
  assumes "range_ok ops"
  shows "1 \<le> fst (secure_padding_len ops n r)" and "fst (secure_padding_len ops n r) \<le> 3"
  using rng_range_less [OF assms, of 3 r]
  by (simp_all add: secure_padding_len_def secure_version_d_padding_len_def
      SECURE_VERSION_D_PADDING_MAX_def split_beta)

lemma secure_body_len_unpads:
  assumes "4 dvd n" "4 \<le> n" "p \<le> 3"
  shows "secure_payload_len_from_wire_len (n + p) = Some n"
proof -
  have "(n + p) mod 4 = p"
    using assms by presburger
  then show ?thesis
    using assms by (simp add: secure_payload_len_from_wire_len_def
        secure_version_d_body_len_from_wire_len_def)
qed

end
