(* ===== verification/Async_Io.thy ===== *)
theory Async_Io
  imports Prelude "HOL-Library.Sublist"
begin

text \<open>
  Readers and writers polled by the asynchronous runtime.  A wrapper such as the FakeTLS reader is
  generic in the stream under it, so its model takes the operations of that stream as an argument;
  \<open>async_read\<close> and \<open>async_write\<close> state the contract of the runtime's \<open>AsyncRead\<close> and
  \<open>AsyncWrite\<close> traits that the wrappers rely on and in turn provide.

  A read into a buffer with \<open>n\<close> bytes of room returns the bytes it put there; \<^term>\<open>None\<close> stands
  for a poll that never returns.  Error values keep their kind; their message text is not modelled.
  At the bottom of a stack stands a socket: the sequence of results its polls give.
\<close>

section \<open>Results\<close>

datatype ErrorKind =
    InvalidData
  | InvalidInput
  | UnexpectedEof
  | WriteZero
  | WouldBlock
  | Other
  | Os_error nat

datatype 'a poll = Pending | Ready_Ok 'a | Ready_Err ErrorKind

type_synonym 'u reader = "'u \<Rightarrow> nat \<Rightarrow> (bytes poll \<times> 'u) option"

record 'u writer_ops =
  op_write :: "'u \<Rightarrow> bytes \<Rightarrow> nat poll \<times> 'u"
  op_flush :: "'u \<Rightarrow> unit poll \<times> 'u"
  op_shutdown :: "'u \<Rightarrow> unit poll \<times> 'u"

section \<open>Readers\<close>

text \<open>
  \<open>rest\<close> is what the stream still delivers before it ends, \<open>fin\<close> how it ends (\<^term>\<open>None\<close> for
  the end of file), \<open>budget\<close> a bound on how often it is not ready.
\<close>

locale async_read =
  fixes rd :: "'u reader" and ok :: "'u \<Rightarrow> bool" and rest :: "'u \<Rightarrow> bytes"
    and fin :: "'u \<Rightarrow> ErrorKind option" and budget :: "'u \<Rightarrow> nat"
  assumes returns: "ok u \<Longrightarrow> 0 < n \<Longrightarrow> \<exists>p v. rd u n = Some (p, v)"
    and data: "ok u \<Longrightarrow> 0 < n \<Longrightarrow> rd u n = Some (Ready_Ok d, v) \<Longrightarrow> d \<noteq> [] \<Longrightarrow>
      ok v \<and> length d \<le> n \<and> rest u = d @ rest v \<and> fin v = fin u \<and> budget v \<le> budget u"
    and eof: "ok u \<Longrightarrow> 0 < n \<Longrightarrow> rd u n = Some (Ready_Ok [], v) \<Longrightarrow> rest u = [] \<and> fin u = None"
    and pending: "ok u \<Longrightarrow> 0 < n \<Longrightarrow> rd u n = Some (Pending, v) \<Longrightarrow>
      ok v \<and> rest v = rest u \<and> fin v = fin u \<and> budget v < budget u"
    and failed: "ok u \<Longrightarrow> 0 < n \<Longrightarrow> rd u n = Some (Ready_Err e, v) \<Longrightarrow> rest u = [] \<and> fin u = Some e"

text \<open>A task polling a reader with buffers of the given sizes until it ends.\<close>

fun read_polls :: "'u reader \<Rightarrow> nat list \<Rightarrow> 'u \<Rightarrow> (bytes \<times> ErrorKind option option) option" where
  "read_polls rd [] u = Some ([], None)"
| "read_polls rd (n # ns) u = do {
     (p, v) \<leftarrow> rd u n;
     case p of
       Pending \<Rightarrow> read_polls rd ns v
     | Ready_Err e \<Rightarrow> Some ([], Some (Some e))
     | Ready_Ok d \<Rightarrow> if d = [] then Some ([], Some None)
         else do { (ds, r) \<leftarrow> read_polls rd ns v; Some (d @ ds, r) } }"

text \<open>\<open>AsyncReadExt::read\<close> awaited: polls until the reader is ready.\<close>

partial_function (option) await_read :: "'u reader \<Rightarrow> 'u \<Rightarrow> nat \<Rightarrow> ((ErrorKind + bytes) \<times> 'u) option" where
  "await_read rd u n = do {
     (p, v) \<leftarrow> rd u n;
     case p of
       Pending \<Rightarrow> await_read rd v n
     | Ready_Err e \<Rightarrow> Some (Inl e, v)
     | Ready_Ok d \<Rightarrow> Some (Inr d, v) }"

context async_read
begin

lemma polls_deliver:
  assumes "ok u" "\<forall>n\<in>set ns. 0 < n"
  shows "\<exists>ds r. read_polls rd ns u = Some (ds, r) \<and>
    (r = None \<longrightarrow> prefix ds (rest u) \<and> length ns \<le> length ds + budget u) \<and>
    (\<forall>f. r = Some f \<longrightarrow> ds = rest u \<and> f = fin u)"
  using assms
proof (induction ns arbitrary: u)
  case (Cons n ns)
  then have n: "0 < n" by simp
  obtain p v where p: "rd u n = Some (p, v)" using returns [OF Cons.prems(1) n] by blast
  show ?case
  proof (cases p)
    case Pending
    have l: "ok v" "rest v = rest u" "fin v = fin u" "budget v < budget u"
      using pending [OF Cons.prems(1) n] p Pending by auto
    then show ?thesis using Cons.IH [of v] Cons.prems(2) p Pending by fastforce
  next
    case (Ready_Ok d)
    show ?thesis
    proof (cases "d = []")
      case True
      then show ?thesis using eof [OF Cons.prems(1) n] p Ready_Ok by simp
    next
      case False
      have l: "ok v" "rest u = d @ rest v" "fin v = fin u" "budget v \<le> budget u"
        using data [OF Cons.prems(1) n] p Ready_Ok False by auto
      obtain ds r where r: "read_polls rd ns v = Some (ds, r)"
          "r = None \<longrightarrow> prefix ds (rest v) \<and> length ns \<le> length ds + budget v"
          "\<forall>f. r = Some f \<longrightarrow> ds = rest v \<and> f = fin v"
        using Cons.IH [OF l(1)] Cons.prems(2) by auto
      have "1 \<le> length d" using False by (cases d) auto
      with r(2) l(4) have "r = None \<longrightarrow> length (n # ns) \<le> length (d @ ds) + budget u" by auto
      then show ?thesis using p Ready_Ok False r l(2,3) by (cases r) simp_all
    qed
  next
    case (Ready_Err e)
    then show ?thesis using failed [OF Cons.prems(1) n] p by simp
  qed
qed simp

lemma polls_finish:
  assumes "ok u" "\<forall>n\<in>set ns. 0 < n" "length (rest u) + budget u < length ns"
  shows "read_polls rd ns u = Some (rest u, Some (fin u))"
proof -
  obtain ds r where r: "read_polls rd ns u = Some (ds, r)"
      "r = None \<longrightarrow> prefix ds (rest u) \<and> length ns \<le> length ds + budget u"
      "\<forall>f. r = Some f \<longrightarrow> ds = rest u \<and> f = fin u"
    using polls_deliver [OF assms(1,2)] by blast
  have "r \<noteq> None" using r(2) assms(3) prefix_length_le [of ds "rest u"] by force
  then show ?thesis using r by force
qed

lemma await_returns:
  assumes "ok u" "0 < n"
  shows "\<exists>x v. await_read rd u n = Some (x, v) \<and>
    (case x of
       Inl e \<Rightarrow> rest u = [] \<and> fin u = Some e
     | Inr d \<Rightarrow> if d = [] then rest u = [] \<and> fin u = None
         else ok v \<and> length d \<le> n \<and> rest u = d @ rest v \<and> fin v = fin u)"
  using assms(1)
proof (induction "budget u" arbitrary: u rule: less_induct)
  case less
  obtain p v where p: "rd u n = Some (p, v)" using returns [OF less.prems assms(2)] by blast
  show ?case
  proof (cases p)
    case Pending
    have l: "ok v" "rest v = rest u" "fin v = fin u" "budget v < budget u"
      using pending [OF less.prems assms(2)] p Pending by auto
    have "await_read rd u n = await_read rd v n" using p Pending by (subst await_read.simps) simp
    then show ?thesis using less.hyps [OF l(4,1)] unfolding l(2,3) by simp
  next
    case (Ready_Ok d)
    have "await_read rd u n = Some (Inr d, v)" using p Ready_Ok by (subst await_read.simps) simp
    then show ?thesis using data [OF less.prems assms(2), of d v] eof [OF less.prems assms(2), of v] p Ready_Ok by auto
  next
    case (Ready_Err e)
    have "await_read rd u n = Some (Inl e, v)" using p Ready_Err by (subst await_read.simps) simp
    then show ?thesis using failed [OF less.prems assms(2)] p Ready_Err by simp
  qed
qed

end

section \<open>Writers\<close>

text \<open>
  \<open>acc\<close> is all that the writer has accepted, \<open>settled\<close> that nothing of it waits in a buffer on the
  way down.
\<close>

locale async_write =
  fixes ops :: "'u writer_ops" and ok :: "'u \<Rightarrow> bool" and acc :: "'u \<Rightarrow> bytes" and settled :: "'u \<Rightarrow> bool"
  assumes write_ok: "ok u \<Longrightarrow> d \<noteq> [] \<Longrightarrow> op_write ops u d = (Ready_Ok n, v) \<Longrightarrow>
      ok v \<and> n \<le> length d \<and> acc v = acc u @ take n d"
    and write_pending: "ok u \<Longrightarrow> d \<noteq> [] \<Longrightarrow> op_write ops u d = (Pending, v) \<Longrightarrow> ok v \<and> acc v = acc u"
    and flush_ok: "ok u \<Longrightarrow> op_flush ops u = (Ready_Ok x, v) \<Longrightarrow> ok v \<and> acc v = acc u \<and> settled v"
    and flush_pending: "ok u \<Longrightarrow> op_flush ops u = (Pending, v) \<Longrightarrow> ok v \<and> acc v = acc u"

text \<open>A task handing buffers to a writer, and what the writer has taken of them; no error on the way.\<close>

fun write_polls :: "'u writer_ops \<Rightarrow> bytes list \<Rightarrow> 'u \<Rightarrow> (bytes \<times> 'u) option" where
  "write_polls ops [] u = Some ([], u)"
| "write_polls ops (d # ds) u =
    (case op_write ops u d of
       (Pending, v) \<Rightarrow> write_polls ops ds v
     | (Ready_Err e, v) \<Rightarrow> None
     | (Ready_Ok n, v) \<Rightarrow> do { (a, w) \<leftarrow> write_polls ops ds v; Some (take n d @ a, w) })"

text \<open>\<open>AsyncWriteExt::write_all\<close> and \<open>flush\<close> awaited.\<close>

partial_function (option) await_write_all :: "'u writer_ops \<Rightarrow> 'u \<Rightarrow> bytes \<Rightarrow> ((ErrorKind + unit) \<times> 'u) option" where
  "await_write_all ops u buf =
    (if buf = [] then Some (Inr (), u)
     else case op_write ops u buf of
         (Pending, v) \<Rightarrow> await_write_all ops v buf
       | (Ready_Err e, v) \<Rightarrow> Some (Inl e, v)
       | (Ready_Ok n, v) \<Rightarrow> if n = 0 then Some (Inl WriteZero, v) else await_write_all ops v (drop n buf))"

partial_function (option) await_flush :: "'u writer_ops \<Rightarrow> 'u \<Rightarrow> ((ErrorKind + unit) \<times> 'u) option" where
  "await_flush ops u =
    (case op_flush ops u of
       (Pending, v) \<Rightarrow> await_flush ops v
     | (Ready_Err e, v) \<Rightarrow> Some (Inl e, v)
     | (Ready_Ok _, v) \<Rightarrow> Some (Inr (), v))"

context async_write
begin

lemma write_all_accepts:
  assumes "await_write_all ops u buf = Some r" "ok u" "fst r = Inr ()"
  shows "ok (snd r) \<and> acc (snd r) = acc u @ buf"
proof -
  have "ops' = ops \<longrightarrow> ok u \<longrightarrow> fst r = Inr () \<longrightarrow> ok (snd r) \<and> acc (snd r) = acc u @ buf"
    if "await_write_all ops' u buf = Some r" for ops' u buf
  proof (rule await_write_all.raw_induct [OF _ that])
    fix f :: "'u writer_ops \<Rightarrow> 'u \<Rightarrow> bytes \<Rightarrow> ((ErrorKind + unit) \<times> 'u) option" and ops' u buf r
    assume IH: "\<And>o' u buf r. f o' u buf = Some r \<Longrightarrow>
        o' = ops \<longrightarrow> ok u \<longrightarrow> fst r = Inr () \<longrightarrow> ok (snd r) \<and> acc (snd r) = acc u @ buf"
      and st: "(if buf = [] then Some (Inr (), u)
     else case op_write ops' u buf of
         (Pending, v) \<Rightarrow> f ops' v buf
       | (Ready_Ok n, v) \<Rightarrow> if n = 0 then Some (Inl WriteZero, v) else f ops' v (drop n buf)
       | (Ready_Err e, v) \<Rightarrow> Some (Inl e, v)) = Some r"
    show "ops' = ops \<longrightarrow> ok u \<longrightarrow> fst r = Inr () \<longrightarrow> ok (snd r) \<and> acc (snd r) = acc u @ buf"
    proof (intro impI)
      assume o: "ops' = ops" "ok u" "fst r = Inr ()"
      show "ok (snd r) \<and> acc (snd r) = acc u @ buf"
      proof (cases "buf = []")
        case False
        obtain p v where p: "op_write ops u buf = (p, v)" by fastforce
        show ?thesis
        proof (cases p)
          case Pending
          then show ?thesis using st o False p write_pending [OF o(2) False] IH [of ops v buf r] by auto
        next
          case (Ready_Ok n)
          then show ?thesis using st o False p write_ok [OF o(2) False p [unfolded Ready_Ok]] IH [of ops v "drop n buf" r]
            by (auto split: if_splits)
        next
          case (Ready_Err e)
          then show ?thesis using st o False p by auto
        qed
      qed (use st o in auto)
    qed
  qed
  with assms show ?thesis by blast
qed

lemma polls_accept:
  assumes "ok u" "\<forall>d\<in>set ds. d \<noteq> []" "write_polls ops ds u = Some (a, v)"
  shows "ok v \<and> acc v = acc u @ a"
  using assms
proof (induction ds arbitrary: u a)
  case (Cons d ds)
  then have d: "d \<noteq> []" by simp
  obtain p w where p: "op_write ops u d = (p, w)" by fastforce
  show ?case
  proof (cases p)
    case Pending
    then show ?thesis using write_pending [OF Cons.prems(1) d] Cons.IH [of w a] Cons.prems p by auto
  next
    case (Ready_Ok n)
    note l = write_ok [OF Cons.prems(1) d p [unfolded Ready_Ok]]
    obtain b where b: "write_polls ops ds w = Some (b, v)" "a = take n d @ b"
      using Cons.prems(3) p Ready_Ok by (auto simp: bind_eq_Some_conv)
    then show ?thesis using l Cons.IH [of w b] Cons.prems(2) by auto
  next
    case (Ready_Err e)
    then show ?thesis using Cons.prems(3) p by simp
  qed
qed simp

end

section \<open>Sockets\<close>

datatype sock_event = S_Pending | S_Err ErrorKind | S_Data bytes

fun sock_read :: "sock_event list reader" where
  "sock_read [] n = Some (Ready_Ok [], [])"
| "sock_read (S_Pending # es) n = Some (Pending, es)"
| "sock_read (S_Err e # es) n = Some (Ready_Err e, es)"
| "sock_read (S_Data d # es) n = Some (Ready_Ok (take n d), if n < length d then S_Data (drop n d) # es else es)"

fun sock_rest :: "sock_event list \<Rightarrow> bytes" where
  "sock_rest [] = []"
| "sock_rest (S_Pending # es) = sock_rest es"
| "sock_rest (S_Err e # es) = []"
| "sock_rest (S_Data d # es) = (if d = [] then [] else d @ sock_rest es)"

fun sock_fin :: "sock_event list \<Rightarrow> ErrorKind option" where
  "sock_fin [] = None"
| "sock_fin (S_Pending # es) = sock_fin es"
| "sock_fin (S_Err e # es) = Some e"
| "sock_fin (S_Data d # es) = (if d = [] then None else sock_fin es)"

definition sock_budget :: "sock_event list \<Rightarrow> nat" where
  "sock_budget es = length (filter ((=) S_Pending) es)"

interpretation sock: async_read sock_read "\<lambda>_. True" sock_rest sock_fin sock_budget
proof
  fix u v :: "sock_event list" and n :: nat and d e
  assume n: "0 < n"
  show "\<exists>p v. sock_read u n = Some (p, v)" by (cases "(u, n)" rule: sock_read.cases) auto
  show "sock_read u n = Some (Ready_Ok d, v) \<Longrightarrow> d \<noteq> [] \<Longrightarrow>
      True \<and> length d \<le> n \<and> sock_rest u = d @ sock_rest v \<and> sock_fin v = sock_fin u \<and> sock_budget v \<le> sock_budget u"
    using n by (cases "(u, n)" rule: sock_read.cases) (auto simp: sock_budget_def split: if_splits)
  show "sock_read u n = Some (Ready_Ok [], v) \<Longrightarrow> sock_rest u = [] \<and> sock_fin u = None"
    using n by (cases "(u, n)" rule: sock_read.cases) auto
  show "sock_read u n = Some (Pending, v) \<Longrightarrow>
      True \<and> sock_rest v = sock_rest u \<and> sock_fin v = sock_fin u \<and> sock_budget v < sock_budget u"
    using n by (cases "(u, n)" rule: sock_read.cases) (auto simp: sock_budget_def)
  show "sock_read u n = Some (Ready_Err e, v) \<Longrightarrow> sock_rest u = [] \<and> sock_fin u = Some e"
    using n by (cases "(u, n)" rule: sock_read.cases) auto
qed

datatype sink_event = K_Accept nat | K_Pending | K_Err ErrorKind

record sink =
  sink_out :: bytes
  sink_script :: "sink_event list"

text \<open>A write puts at most the accepted number of bytes on the wire; past its script a sink stays busy.\<close>

definition sink_write :: "sink \<Rightarrow> bytes \<Rightarrow> nat poll \<times> sink" where
  "sink_write k d =
    (case sink_script k of
       [] \<Rightarrow> (Pending, k)
     | K_Pending # es \<Rightarrow> (Pending, k\<lparr>sink_script := es\<rparr>)
     | K_Err e # es \<Rightarrow> (Ready_Err e, k\<lparr>sink_script := es\<rparr>)
     | K_Accept n # es \<Rightarrow> (Ready_Ok (min n (length d)), k\<lparr>sink_out := sink_out k @ take n d, sink_script := es\<rparr>))"

definition sink_flush :: "sink \<Rightarrow> unit poll \<times> sink" where
  "sink_flush k =
    (case sink_script k of
       [] \<Rightarrow> (Ready_Ok (), k)
     | K_Pending # es \<Rightarrow> (Pending, k\<lparr>sink_script := es\<rparr>)
     | K_Err e # es \<Rightarrow> (Ready_Err e, k\<lparr>sink_script := es\<rparr>)
     | K_Accept n # es \<Rightarrow> (Ready_Ok (), k))"

definition sink_ops :: "sink writer_ops" where
  "sink_ops = \<lparr>op_write = sink_write, op_flush = sink_flush, op_shutdown = sink_flush\<rparr>"

interpretation snk: async_write sink_ops "\<lambda>_. True" sink_out "\<lambda>_. True"
  by unfold_locales
    (auto simp: sink_ops_def sink_write_def sink_flush_def min_def split: list.splits sink_event.splits if_splits)

end
