(* ===== verification/Frame_Codec.thy ===== *)
theory Frame_Codec
  imports Framing Async_Io
begin

text \<open>
  The frame types and the codec trait of \<open>src/stream/frame.rs\<close> and the three MTProto codecs
  of \<open>src/stream/frame_codec.rs\<close>.

  A buffer handed over as \<open>&mut BytesMut\<close> is an argument and a result.  A decoder returns
  \<open>Inr None\<close> for \<open>Ok(None)\<close> (more input needed), \<open>Inr (Some f)\<close> for a frame and \<open>Inl e\<close>
  for an error, each with the buffer as it is left.  The trait object returned by
  \<open>create_codec\<close> is the datatype \<open>codec\<close>, whose constructors are the implementing types.
  The contract of the trait is the locale \<open>frame_transport\<close>.
\<close>

section \<open>Frames (\<open>stream/frame.rs\<close>)\<close>

record FrameMeta =
  quickack :: bool
  simple_ack :: bool
  padding_len :: byte

record Frame =
  frame_data :: bytes
  frame_meta :: FrameMeta

definition FrameMeta_new :: FrameMeta where
  "FrameMeta_new = \<lparr>quickack = False, simple_ack = False, padding_len = 0\<rparr>"

definition meta_has_flags :: "FrameMeta \<Rightarrow> bool" where
  "meta_has_flags m \<longleftrightarrow> quickack m \<or> simple_ack m"

definition Frame_with_meta :: "bytes \<Rightarrow> FrameMeta \<Rightarrow> Frame" where
  "Frame_with_meta d m = \<lparr>frame_data = d, frame_meta = m\<rparr>"

definition Frame_new :: "bytes \<Rightarrow> Frame" where
  "Frame_new d = Frame_with_meta d FrameMeta_new"

definition Frame_quickack :: "bytes \<Rightarrow> Frame" where
  "Frame_quickack d = Frame_with_meta d (FrameMeta_new\<lparr>quickack := True\<rparr>)"

definition Frame_simple_ack :: "bytes \<Rightarrow> Frame" where
  "Frame_simple_ack d = Frame_with_meta d (FrameMeta_new\<lparr>simple_ack := True\<rparr>)"

section \<open>Codecs (\<open>stream/frame_codec.rs\<close>)\<close>

datatype codec_msg =
    Frame_length_overflow
  | Frame_exceeds_max nat nat
  | Abridged_unaligned nat
  | Frame_too_large nat
  | Secure_frame_length nat
  | Secure_unaligned nat

datatype codec_error = Codec_error ErrorKind codec_msg

type_synonym decoded = "(codec_error + Frame option) \<times> bytes"
type_synonym encoded = "(codec_error + unit) \<times> bytes"

subsection \<open>Abridged\<close>

definition decode_abridged :: "bytes \<Rightarrow> nat \<Rightarrow> decoded" where
  "decode_abridged src max_size =
     (if src = [] then (Inr None, src)
      else let first_byte = src ! 0;
               meta = FrameMeta_new\<lparr>quickack := (0x80 \<le> first_byte)\<rparr>;
               words0 = unat (first_byte AND 0x7f)
           in if words0 = 0x7f \<and> length src < 4 then (Inr None, src)
              else let (len_words, header_len) =
                         (if words0 = 0x7f then (le_nat [src ! 1, src ! 2, src ! 3, 0], 4)
                          else (words0, 1))
                   in case checked_mul len_words 4 of
                        None \<Rightarrow> (Inl (Codec_error InvalidData Frame_length_overflow), src)
                      | Some byte_len \<Rightarrow>
                          if max_size < byte_len
                          then (Inl (Codec_error InvalidData (Frame_exceeds_max byte_len max_size)), src)
                          else if length src < header_len + byte_len then (Inr None, src)
                          else let body = drop header_len src
                               in (Inr (Some (Frame_with_meta (take byte_len body) meta)),
                                   drop byte_len body))"

definition encode_abridged :: "Frame \<Rightarrow> bytes \<Rightarrow> encoded" where
  "encode_abridged frame dst =
     (let d = frame_data frame; len_words = length d div 4
      in if \<not> 4 dvd length d
         then (Inl (Codec_error InvalidInput (Abridged_unaligned (length d))), dst)
         else if simple_ack (frame_meta frame) then (Inr (), dst @ rev d)
         else if len_words < 0x7f
         then let len_byte = (of_nat len_words :: byte) OR
                    (if quickack (frame_meta frame) then 0x80 else 0)
              in (Inr (), dst @ [len_byte] @ d)
         else if len_words < 2 ^ 24
         then let first = (0x7f :: byte) OR (if quickack (frame_meta frame) then 0x80 else 0)
              in (Inr (), dst @ [first] @ take 3 (nat_le 4 len_words) @ d)
         else (Inl (Codec_error InvalidInput (Frame_too_large (length d))), dst))"

subsection \<open>Intermediate\<close>

definition decode_intermediate :: "bytes \<Rightarrow> nat \<Rightarrow> decoded" where
  "decode_intermediate src max_size =
     (if length src < 4 then (Inr None, src)
      else let header = parse_intermediate_header [src ! 0, src ! 1, src ! 2, src ! 3];
               len = wire_len header;
               meta = FrameMeta_new\<lparr>quickack := hdr_quickack header\<rparr>
           in if max_size < len
              then (Inl (Codec_error InvalidData (Frame_exceeds_max len max_size)), src)
              else if length src < 4 + len then (Inr None, src)
              else let body = drop 4 src
                   in (Inr (Some (Frame_with_meta (take len body) meta)), drop len body))"

definition encode_intermediate :: "Frame \<Rightarrow> bytes \<Rightarrow> encoded" where
  "encode_intermediate frame dst =
     (let d = frame_data frame
      in if simple_ack (frame_meta frame) then (Inr (), dst @ d)
         else case encode_intermediate_header (length d) (quickack (frame_meta frame)) of
             None \<Rightarrow> (Inl (Codec_error InvalidInput (Frame_too_large (length d))), dst)
           | Some len \<Rightarrow> (Inr (), dst @ nat_le 4 (unat len) @ d))"

subsection \<open>Secure intermediate\<close>

definition decode_secure :: "bytes \<Rightarrow> nat \<Rightarrow> decoded" where
  "decode_secure src max_size =
     (if length src < 4 then (Inr None, src)
      else let header = parse_intermediate_header [src ! 0, src ! 1, src ! 2, src ! 3];
               len = wire_len header;
               meta = FrameMeta_new\<lparr>quickack := hdr_quickack header\<rparr>
           in if max_size < len
              then (Inl (Codec_error InvalidData (Frame_exceeds_max len max_size)), src)
              else if length src < 4 + len then (Inr None, src)
              else case secure_payload_len_from_wire_len len of
                  None \<Rightarrow> (Inl (Codec_error InvalidData (Secure_frame_length len)), src)
                | Some data_len \<Rightarrow>
                    let meta = meta\<lparr>padding_len := of_nat (len - data_len)\<rparr>;
                        body = drop 4 src;
                        all_data = take len body
                    in (Inr (Some (Frame_with_meta (take data_len all_data) meta)), drop len body))"

definition encode_secure ::
  "('s, 'c) rand_ops \<Rightarrow> Frame \<Rightarrow> bytes \<Rightarrow> ('s, 'c) SecureRandomInner \<Rightarrow>
   (codec_error + unit) \<times> bytes \<times> ('s, 'c) SecureRandomInner" where
  "encode_secure ops frame dst rng =
     (let d = frame_data frame
      in if simple_ack (frame_meta frame) then (Inr (), dst @ d, rng)
         else if \<not> is_valid_secure_payload_len (length d)
         then (Inl (Codec_error InvalidData (Secure_unaligned (length d))), dst, rng)
         else let (pad_len, rng1) = secure_padding_len ops (length d) rng;
                  total_len = length d + pad_len
              in case encode_intermediate_header total_len (quickack (frame_meta frame)) of
                   None \<Rightarrow> (Inl (Codec_error InvalidInput (Frame_too_large total_len)), dst, rng1)
                 | Some len \<Rightarrow>
                     let dst1 = dst @ nat_le 4 (unat len) @ d
                     in if 0 < pad_len
                        then let (padding, rng2) = rng_bytes ops pad_len rng1
                             in (Inr (), dst1 @ padding, rng2)
                        else (Inr (), dst1, rng1))"

subsection \<open>The unified codec and the typed codecs behind the trait\<close>

record FrameCodec =
  fc_proto_tag :: ProtoTag
  fc_max_frame_size :: nat

definition FrameCodec_new :: "ProtoTag \<Rightarrow> FrameCodec" where
  "FrameCodec_new t = \<lparr>fc_proto_tag = t, fc_max_frame_size = 16 * 1024 * 1024\<rparr>"

definition with_max_frame_size :: "nat \<Rightarrow> FrameCodec \<Rightarrow> FrameCodec" where
  "with_max_frame_size sz c = c\<lparr>fc_max_frame_size := sz\<rparr>"

definition FrameCodec_decode :: "FrameCodec \<Rightarrow> bytes \<Rightarrow> decoded" where
  "FrameCodec_decode c src =
     (case fc_proto_tag c of
        Abridged \<Rightarrow> decode_abridged src (fc_max_frame_size c)
      | Intermediate \<Rightarrow> decode_intermediate src (fc_max_frame_size c)
      | Secure \<Rightarrow> decode_secure src (fc_max_frame_size c))"

definition FrameCodec_encode ::
  "('s, 'c) rand_ops \<Rightarrow> FrameCodec \<Rightarrow> Frame \<Rightarrow> bytes \<Rightarrow> ('s, 'c) SecureRandomInner \<Rightarrow>
   (codec_error + unit) \<times> bytes \<times> ('s, 'c) SecureRandomInner" where
  "FrameCodec_encode ops c frame dst rng =
     (case fc_proto_tag c of
        Abridged \<Rightarrow> (let (r, dst') = encode_abridged frame dst in (r, dst', rng))
      | Intermediate \<Rightarrow> (let (r, dst') = encode_intermediate frame dst in (r, dst', rng))
      | Secure \<Rightarrow> encode_secure ops frame dst rng)"

datatype codec = AbridgedCodec nat | IntermediateCodec nat | SecureCodec nat

fun create_codec :: "ProtoTag \<Rightarrow> codec" where
  "create_codec Abridged = AbridgedCodec (16 * 1024 * 1024)"
| "create_codec Intermediate = IntermediateCodec (16 * 1024 * 1024)"
| "create_codec Secure = SecureCodec (16 * 1024 * 1024)"

fun codec_proto_tag :: "codec \<Rightarrow> ProtoTag" where
  "codec_proto_tag (AbridgedCodec m) = Abridged"
| "codec_proto_tag (IntermediateCodec m) = Intermediate"
| "codec_proto_tag (SecureCodec m) = Secure"

fun min_header_size :: "codec \<Rightarrow> nat" where
  "min_header_size (AbridgedCodec m) = 1"
| "min_header_size (IntermediateCodec m) = 4"
| "min_header_size (SecureCodec m) = 4"

fun codec_decode :: "codec \<Rightarrow> bytes \<Rightarrow> decoded" where
  "codec_decode (AbridgedCodec m) src = decode_abridged src m"
| "codec_decode (IntermediateCodec m) src = decode_intermediate src m"
| "codec_decode (SecureCodec m) src = decode_secure src m"

text \<open>\<open>FrameCodec::encode\<close> of the trait returns the number of bytes written.\<close>

definition written :: "bytes \<Rightarrow> codec_error + unit \<Rightarrow> bytes \<Rightarrow> codec_error + nat" where
  "written dst r dst' = (case r of Inl e \<Rightarrow> Inl e | Inr _ \<Rightarrow> Inr (length dst' - length dst))"

fun codec_encode ::
  "('s, 'c) rand_ops \<Rightarrow> codec \<Rightarrow> Frame \<Rightarrow> bytes \<Rightarrow> ('s, 'c) SecureRandomInner \<Rightarrow>
   (codec_error + nat) \<times> bytes \<times> ('s, 'c) SecureRandomInner" where
  "codec_encode ops (AbridgedCodec m) f dst rng =
     (let (r, dst') = encode_abridged f dst in (written dst r dst', dst', rng))"
| "codec_encode ops (IntermediateCodec m) f dst rng =
     (let (r, dst') = encode_intermediate f dst in (written dst r dst', dst', rng))"
| "codec_encode ops (SecureCodec m) f dst rng =
     (let (r, dst', rng') = encode_secure ops f dst rng in (written dst r dst', dst', rng'))"

end
