(* ===== verification/Frame_Transport.thy ===== *)
theory Frame_Transport
  imports Frame_Codec
begin

text \<open>
  The contract of the frame codec trait and what it gives a consumer.

  The locale \<open>frame_transport\<close> states what \<open>src/stream/frame.rs\<close> promises of an
  implementation: an accepted frame is appended to the buffer as a self-delimiting wire
  image, which decodes to the frame whatever follows it, and every proper prefix of which
  asks for more input and leaves the buffer alone.  Inside it a consumer that decodes as
  bytes arrive is shown to recover the frames however the stream is cut into chunks.  The
  codecs of \<open>create_codec\<close> are shown to meet the contract, the random source included.
\<close>

section \<open>The contract\<close>

text \<open>What survives the wire: the payload and the QuickACK request, not the padding length.\<close>

definition same_frame :: "Frame \<Rightarrow> Frame \<Rightarrow> bool" where
  "same_frame f g \<longleftrightarrow> frame_data g = frame_data f \<and>
     quickack (frame_meta g) = quickack (frame_meta f) \<and> \<not> simple_ack (frame_meta g)"

definition wire_image :: "(bytes \<Rightarrow> decoded) \<Rightarrow> Frame \<Rightarrow> bytes \<Rightarrow> bool" where
  "wire_image dec f w \<longleftrightarrow> w \<noteq> [] \<and>
     (\<exists>g. same_frame f g \<and> (\<forall>rest. dec (w @ rest) = (Inr (Some g), rest))) \<and>
     (\<forall>k < length w. dec (take k w) = (Inr None, take k w))"

text \<open>A consumer: decode while frames come out, then wait for the next chunk.\<close>

function drain :: "(bytes \<Rightarrow> decoded) \<Rightarrow> bytes \<Rightarrow> codec_error option \<times> Frame list \<times> bytes" where
  "drain dec buf =
     (case dec buf of
        (Inl e, rest) \<Rightarrow> (Some e, [], rest)
      | (Inr None, rest) \<Rightarrow> (None, [], rest)
      | (Inr (Some f), rest) \<Rightarrow>
          if length rest < length buf
          then let (e, fs, r) = drain dec rest in (e, f # fs, r)
          else (None, [f], rest))"
  by pat_completeness auto
termination
  by (relation "measure (\<lambda>(dec, buf). length buf)") auto

declare drain.simps [simp del]

fun feed :: "(bytes \<Rightarrow> decoded) \<Rightarrow> bytes \<Rightarrow> bytes list \<Rightarrow> codec_error option \<times> Frame list \<times> bytes" where
  "feed dec buf [] = (None, [], buf)"
| "feed dec buf (c # cs) =
     (case drain dec (buf @ c) of
        (Some e, fs, r) \<Rightarrow> (Some e, fs, r)
      | (None, fs, r) \<Rightarrow> (let (e, gs, r') = feed dec r cs in (e, fs @ gs, r')))"

fun send_all ::
  "(Frame \<Rightarrow> bytes \<Rightarrow> 'r \<Rightarrow> (codec_error + nat) \<times> bytes \<times> 'r) \<Rightarrow> Frame list \<Rightarrow> bytes \<Rightarrow> 'r \<Rightarrow>
   codec_error option \<times> bytes \<times> 'r" where
  "send_all enc [] dst r = (None, dst, r)"
| "send_all enc (f # fs) dst r =
     (case enc f dst r of
        (Inl e, dst', r') \<Rightarrow> (Some e, dst', r')
      | (Inr _, dst', r') \<Rightarrow> send_all enc fs dst' r')"

locale frame_transport =
  fixes enc :: "Frame \<Rightarrow> bytes \<Rightarrow> 'r \<Rightarrow> (codec_error + nat) \<times> bytes \<times> 'r"
    and dec :: "bytes \<Rightarrow> decoded"
    and accepts :: "Frame \<Rightarrow> bool"
  assumes enc_wire:
    "accepts f \<Longrightarrow> \<exists>w r'. enc f dst r = (Inr (length w), dst @ w, r') \<and> wire_image dec f w"
    and dec_empty: "dec [] = (Inr None, [])"
begin

lemma send_all_wires:
  assumes "list_all accepts fs"
  shows "\<exists>ws r'. send_all enc fs dst r = (None, dst @ concat ws, r') \<and> list_all2 (wire_image dec) fs ws"
  using assms
proof (induction fs arbitrary: dst r)
  case Nil
  have "send_all enc [] dst r = (None, dst @ concat [], r)" by simp
  then show ?case by blast
next
  case (Cons f fs)
  then obtain w r1 where w: "enc f dst r = (Inr (length w), dst @ w, r1)" "wire_image dec f w"
    using enc_wire by fastforce
  from Cons obtain ws r' where ws: "send_all enc fs (dst @ w) r1 = (None, (dst @ w) @ concat ws, r')"
    "list_all2 (wire_image dec) fs ws" by fastforce
  have "send_all enc (f # fs) dst r = (None, dst @ concat (w # ws), r')"
    using w ws by simp
  with w ws show ?case by blast
qed

lemma drain_wires:
  assumes "list_all2 (wire_image dec) fs ws" and "dec p = (Inr None, p)"
  shows "\<exists>gs. drain dec (concat ws @ p) = (None, gs, p) \<and> list_all2 same_frame fs gs"
  using assms(1)
proof (induction rule: list_all2_induct)
  case Nil
  then show ?case using assms(2) by (simp add: drain.simps)
next
  case (Cons f fs w ws)
  from Cons.hyps obtain g where g: "same_frame f g"
    "dec (w @ concat ws @ p) = (Inr (Some g), concat ws @ p)" and "w \<noteq> []"
    by (auto simp: wire_image_def)
  with Cons.IH show ?case by (subst drain.simps) auto
qed

text \<open>A prefix of a concatenation is whole images followed by a proper prefix of the next.\<close>

lemma prefix_of_concat:
  assumes "p @ q = concat ws" and "\<forall>w \<in> set ws. w \<noteq> []"
  shows "\<exists>k t. k \<le> length ws \<and> p = concat (take k ws) @ t \<and> t @ q = concat (drop k ws) \<and>
    (t \<noteq> [] \<longrightarrow> k < length ws \<and> length t < length (ws ! k) \<and> t = take (length t) (ws ! k))"
  using assms
proof (induction ws arbitrary: p)
  case Nil
  then show ?case by simp
next
  case (Cons w ws)
  show ?case
  proof (cases "length p < length w")
    case True
    with Cons.prems have "p = take (length p) w"
      by (metis append_eq_append_conv_if concat.simps(2) less_or_eq_imp_le)
    with True Cons.prems show ?thesis
      by (intro exI [of _ 0] exI [of _ p]) auto
  next
    case False
    with Cons.prems obtain p' where p': "p = w @ p'" "p' @ q = concat ws"
      by (auto simp: append_eq_append_conv2)
    with Cons.IH [of p'] Cons.prems obtain k t where
      "k \<le> length ws" "p' = concat (take k ws) @ t" "t @ q = concat (drop k ws)"
      "t \<noteq> [] \<longrightarrow> k < length ws \<and> length t < length (ws ! k) \<and> t = take (length t) (ws ! k)"
      by auto
    with p' show ?thesis by (intro exI [of _ "Suc k"] exI [of _ t]) auto
  qed
qed

lemma feed_wires:
  assumes "list_all2 (wire_image dec) fs ws" and "buf @ concat chunks = concat ws"
    and "dec [] = (Inr None, [])"
    and "buf \<noteq> [] \<longrightarrow> ws \<noteq> [] \<and> length buf < length (hd ws)"
  shows "\<exists>gs. feed dec buf chunks = (None, gs, []) \<and> list_all2 same_frame fs gs"
  using assms
proof (induction chunks arbitrary: fs ws buf)
  case Nil
  then show ?case
    by (cases ws) (auto simp: wire_image_def list_all2_Cons2)
next
  case (Cons c cs)
  have ne: "\<forall>w \<in> set ws. w \<noteq> []"
    using Cons.prems(1) by (auto simp: list_all2_conv_all_nth in_set_conv_nth wire_image_def)
  obtain k t where k: "k \<le> length ws" "buf @ c = concat (take k ws) @ t"
      "t @ concat cs = concat (drop k ws)"
    and t: "t \<noteq> [] \<longrightarrow> k < length ws \<and> length t < length (ws ! k) \<and> t = take (length t) (ws ! k)"
    using prefix_of_concat [of "buf @ c" "concat cs" ws] Cons.prems(2) ne by auto
  have "dec t = (Inr None, t)"
  proof (cases "t = []")
    case False
    with t Cons.prems(1) have "wire_image dec (fs ! k) (ws ! k)"
      by (auto simp: list_all2_conv_all_nth)
    with False t show ?thesis by (metis wire_image_def)
  qed (use Cons.prems(3) in simp)
  then obtain gs where gs: "drain dec (buf @ c) = (None, gs, t)" "list_all2 same_frame (take k fs) gs"
    using drain_wires [of "take k fs" "take k ws" t] Cons.prems(1) k(2) by (auto intro: list_all2_takeI)
  have "list_all2 (wire_image dec) (drop k fs) (drop k ws)"
    using Cons.prems(1) by (rule list_all2_dropI)
  moreover have "t \<noteq> [] \<longrightarrow> drop k ws \<noteq> [] \<and> length t < length (hd (drop k ws))"
    using t by (auto simp: hd_drop_conv_nth)
  ultimately obtain hs where "feed dec t cs = (None, hs, [])" "list_all2 same_frame (drop k fs) hs"
    using Cons.IH [of "drop k fs" "drop k ws" t] k(3) Cons.prems(3) by auto
  with gs show ?case
    by (metis (no_types, lifting) append_take_drop_id case_prod_conv feed.simps(2) list_all2_appendI
        option.simps(4))
qed

theorem chunked_delivery:
  assumes "list_all accepts fs"
  shows "\<exists>wire r'. send_all enc fs [] r = (None, wire, r') \<and>
    (\<forall>chunks. concat chunks = wire \<longrightarrow>
       (\<exists>gs. feed dec [] chunks = (None, gs, []) \<and> list_all2 same_frame fs gs))"
proof -
  obtain ws r' where ws: "send_all enc fs [] r = (None, concat ws, r')" "list_all2 (wire_image dec) fs ws"
    using send_all_wires [OF assms, of "[]" r] by auto
  with dec_empty show ?thesis using feed_wires [OF ws(2), of "[]"] by auto
qed

end

section \<open>The abridged length byte\<close>

lemma byte_ge_80: "(0x80 \<le> (b :: byte)) = bit b 7"
proof -
  have "bit b 7 = bit (unat b) 7"
    by (simp add: bit_unsigned_iff)
  also have "\<dots> = odd (unat b div 128)"
    by (simp add: bit_iff_odd)
  also have "\<dots> = (128 \<le> unat b)"
  proof -
    have "unat b div 128 = 1" if "128 \<le> unat b"
      by (rule div_nat_eqI) (use that in simp_all)
    then show ?thesis by (cases "128 \<le> unat b") auto
  qed
  finally have "bit b 7 = (128 \<le> unat b)" .
  then show ?thesis by (simp add: word_le_nat_alt)
qed

lemma length_byte:
  fixes q :: bool
  defines "flag \<equiv> (if q then 0x80 else 0 :: byte)"
  assumes "n < 128"
  shows "unat ((of_nat n OR flag) AND 0x7f) = n" and "(0x80 \<le> (of_nat n OR flag :: byte)) = q"
proof -
  have un: "unat (of_nat n :: byte) = n" using assms(2) by simp
  have flag: "flag = (if q then push_bit 7 1 else 0)" by (simp add: flag_def)
  have mask: "(0x7f :: byte) = mask 7" by (simp add: mask_eq_exp_minus_1)
  note fl = take_bit_or_flag [of "of_nat n :: byte" 7, unfolded un]
  show "unat ((of_nat n OR flag) AND 0x7f) = n"
    using fl assms(2) un
    by (cases q) (simp_all add: flag mask take_bit_eq_mask [symmetric] del: push_bit_of_1)
  show "(0x80 \<le> (of_nat n OR flag :: byte)) = q"
    using fl assms(2) by (cases q) (simp_all add: byte_ge_80 flag del: push_bit_of_1)
qed

section \<open>The codecs meet the contract\<close>

fun codec_accepts :: "codec \<Rightarrow> Frame \<Rightarrow> bool" where
  "codec_accepts (AbridgedCodec m) f \<longleftrightarrow> \<not> simple_ack (frame_meta f) \<and>
     4 dvd length (frame_data f) \<and> length (frame_data f) \<le> m \<and> length (frame_data f) div 4 < 2 ^ 24"
| "codec_accepts (IntermediateCodec m) f \<longleftrightarrow> \<not> simple_ack (frame_meta f) \<and>
     length (frame_data f) \<le> m \<and> length (frame_data f) < 2 ^ 31"
| "codec_accepts (SecureCodec m) f \<longleftrightarrow> \<not> simple_ack (frame_meta f) \<and>
     4 dvd length (frame_data f) \<and> 4 \<le> length (frame_data f) \<and>
     length (frame_data f) + 3 \<le> m \<and> length (frame_data f) + 3 < 2 ^ 31"

text \<open>An image of a header and a body: enough to know what the decoder does from the header on.\<close>

lemma wire_imageI:
  assumes g: "same_frame f g" and hdr: "hdr \<noteq> []"
    and step: "\<And>xs. dec (hdr @ xs) =
      (if length xs < length body then (Inr None, hdr @ xs) else (Inr (Some (G (take (length body) xs))), drop (length body) xs))"
    and G: "G body = g"
    and short: "\<And>k. k < length hdr \<Longrightarrow> dec (take k hdr) = (Inr None, take k hdr)"
  shows "wire_image dec f (hdr @ body)"
proof -
  have "dec (take k (hdr @ body)) = (Inr None, take k (hdr @ body))" if "k < length (hdr @ body)" for k
  proof (cases "k < length hdr")
    case False
    then have "take k (hdr @ body) = hdr @ take (k - length hdr) body"
      and "length (take (k - length hdr) body) < length body"
      using that by auto
    then show ?thesis using step [of "take (k - length hdr) body"] by simp
  qed (simp add: short)
  then show ?thesis
    using g hdr G by (auto simp: wire_image_def step)
qed

lemma checked_mul_small [simp]: "n < 2 ^ 24 \<Longrightarrow> checked_mul n 4 = Some (n * 4)"
  by (simp add: checked_mul_def)

lemma abridged_short_wire:
  assumes "length d = 4 * n" "n < 127" "4 * n \<le> m" "\<not> simple_ack mt"
  shows "wire_image (\<lambda>src. decode_abridged src m) (Frame_with_meta d mt)
    ([(of_nat n OR (if quickack mt then 0x80 else 0))] @ d)"
proof (rule wire_imageI [where G = "\<lambda>x. Frame_with_meta x (FrameMeta_new\<lparr>quickack := quickack mt\<rparr>)"])
  note lb = length_byte [of n "quickack mt"]
  fix xs
  show "decode_abridged ([(of_nat n OR (if quickack mt then 0x80 else 0))] @ xs) m =
    (if length xs < length d then (Inr None, [(of_nat n OR (if quickack mt then 0x80 else 0))] @ xs)
     else (Inr (Some (Frame_with_meta (take (length d) xs) (FrameMeta_new\<lparr>quickack := quickack mt\<rparr>))), drop (length d) xs))"
    using assms lb unfolding decode_abridged_def
    by (simp add: Let_def mult.commute)
qed (use assms in \<open>auto simp: same_frame_def Frame_with_meta_def FrameMeta_new_def decode_abridged_def\<close>)

lemma le24: "n < 2 ^ 24 \<Longrightarrow> take 3 (nat_le 4 n) @ [0] = nat_le 4 n"
  by (simp add: nat_le_4 div_mult2_eq [symmetric])

lemma abridged_long_wire:
  assumes "length d = 4 * n" "127 \<le> n" "n < 2 ^ 24" "4 * n \<le> m" "\<not> simple_ack mt"
  shows "wire_image (\<lambda>src. decode_abridged src m) (Frame_with_meta d mt)
    ((((0x7f :: byte) OR (if quickack mt then 0x80 else 0)) # take 3 (nat_le 4 n)) @ d)"
    (is "wire_image _ _ ((?b # _) @ d)")
proof (rule wire_imageI [where G = "\<lambda>x. Frame_with_meta x (FrameMeta_new\<lparr>quickack := quickack mt\<rparr>)"])
  have b: "unat (?b AND 0x7f) = 0x7f" "(0x80 \<le> ?b) = quickack mt"
    using length_byte [of 127 "quickack mt"] by simp_all
  obtain x y z where xyz: "take 3 (nat_le 4 n) = [x, y, z]"
    by (simp add: nat_le_4)
  have le: "le_nat [x, y, z, 0] = n"
    using le24 [OF assms(3)] assms(3) xyz le_nat_nat_le [of 4 n]
    by (simp del: le_nat_nat_le)
  fix xs
  show "decode_abridged ((?b # take 3 (nat_le 4 n)) @ xs) m =
    (if length xs < length d then (Inr None, (?b # take 3 (nat_le 4 n)) @ xs)
     else (Inr (Some (Frame_with_meta (take (length d) xs) (FrameMeta_new\<lparr>quickack := quickack mt\<rparr>))), drop (length d) xs))"
    using assms b le unfolding decode_abridged_def xyz
    by (simp add: Let_def mult.commute del: le_nat.simps)
next
  fix k assume "k < length (?b # take 3 (nat_le 4 n))"
  then have "k < 4" by simp
  moreover have "unat (?b AND 0x7f) = 0x7f"
    using length_byte [of 127 "quickack mt"] by simp
  ultimately show "decode_abridged (take k (?b # take 3 (nat_le 4 n))) m =
      (Inr None, take k (?b # take 3 (nat_le 4 n)))"
    by (cases k) (simp_all add: decode_abridged_def Let_def)
qed (use assms in \<open>auto simp: same_frame_def Frame_with_meta_def FrameMeta_new_def\<close>)

lemma header4: "length h = 4 \<Longrightarrow> [(h @ xs) ! 0, (h @ xs) ! Suc 0, (h @ xs) ! 2, (h @ xs) ! 3] = h"
  by (auto simp: length_Suc_conv numeral_eq_Suc)

lemma intermediate_wire:
  assumes "encode_intermediate_header (length d) (quickack mt) = Some raw" "length d \<le> m" "\<not> simple_ack mt"
  shows "wire_image (\<lambda>src. decode_intermediate src m) (Frame_with_meta d mt) (nat_le 4 (unat raw) @ d)"
proof (rule wire_imageI [where G = "\<lambda>x. Frame_with_meta x (FrameMeta_new\<lparr>quickack := quickack mt\<rparr>)"])
  fix xs
  show "decode_intermediate (nat_le 4 (unat raw) @ xs) m =
    (if length xs < length d then (Inr None, nat_le 4 (unat raw) @ xs)
     else (Inr (Some (Frame_with_meta (take (length d) xs) (FrameMeta_new\<lparr>quickack := quickack mt\<rparr>))), drop (length d) xs))"
    using assms intermediate_header_roundtrip [OF assms(1)] unfolding decode_intermediate_def
    by (simp add: Let_def header4)
qed (use assms in \<open>auto simp: same_frame_def Frame_with_meta_def FrameMeta_new_def decode_intermediate_def
      simp flip: length_0_conv\<close>)

lemma secure_wire:
  assumes "encode_intermediate_header (length d + length pad) (quickack mt) = Some raw"
    "length d + length pad \<le> m" "\<not> simple_ack mt" "4 dvd length d" "4 \<le> length d" "length pad \<le> 3"
  shows "wire_image (\<lambda>src. decode_secure src m) (Frame_with_meta d mt) (nat_le 4 (unat raw) @ d @ pad)"
proof (rule wire_imageI [where G = "\<lambda>x. Frame_with_meta (take (length d) x)
    (FrameMeta_new\<lparr>quickack := quickack mt, padding_len := of_nat (length pad)\<rparr>)"])
  fix xs
  show "decode_secure (nat_le 4 (unat raw) @ xs) m =
    (if length xs < length (d @ pad) then (Inr None, nat_le 4 (unat raw) @ xs)
     else (Inr (Some (Frame_with_meta (take (length d) (take (length (d @ pad)) xs))
       (FrameMeta_new\<lparr>quickack := quickack mt, padding_len := of_nat (length pad)\<rparr>))), drop (length (d @ pad)) xs))"
    using assms intermediate_header_roundtrip [OF assms(1)] secure_body_len_unpads [OF assms(4-6)]
    unfolding decode_secure_def by (simp add: Let_def header4)
qed (use assms in \<open>auto simp: same_frame_def Frame_with_meta_def FrameMeta_new_def decode_secure_def
      simp flip: length_0_conv\<close>)

lemma Frame_eta: "Frame_with_meta (frame_data f) (frame_meta f) = f"
  by (simp add: Frame_with_meta_def)

lemma codec_decode_eta:
  "codec_decode (AbridgedCodec m) = (\<lambda>src. decode_abridged src m)"
  "codec_decode (IntermediateCodec m) = (\<lambda>src. decode_intermediate src m)"
  "codec_decode (SecureCodec m) = (\<lambda>src. decode_secure src m)"
  by (simp_all add: fun_eq_iff)

lemma codec_encode_wire:
  assumes "range_ok ops" and "codec_accepts c f"
  shows "\<exists>w r'. codec_encode ops c f dst r = (Inr (length w), dst @ w, r') \<and> wire_image (codec_decode c) f w"
proof (cases c)
  case (AbridgedCodec m)
  with assms obtain n where n: "length (frame_data f) = 4 * n" by (auto elim: dvdE)
  show ?thesis
  proof (cases "n < 127")
    case True
    then show ?thesis
      using assms(2) AbridgedCodec n abridged_short_wire [of "frame_data f" n m "frame_meta f"]
      by (simp add: encode_abridged_def written_def Frame_eta codec_decode_eta)
  next
    case False
    then show ?thesis
      using assms(2) AbridgedCodec n abridged_long_wire [of "frame_data f" n m "frame_meta f"]
      by (simp add: encode_abridged_def written_def Frame_eta codec_decode_eta)
  qed
next
  case (IntermediateCodec m)
  with assms obtain raw where
    "encode_intermediate_header (length (frame_data f)) (quickack (frame_meta f)) = Some raw"
    by (auto simp: encode_intermediate_header_alt)
  with IntermediateCodec assms(2) show ?thesis
    using intermediate_wire [of "frame_data f" "frame_meta f" raw m]
    by (simp add: encode_intermediate_def written_def Frame_eta codec_decode_eta)
next
  case (SecureCodec m)
  obtain pl r1 where pl: "secure_padding_len ops (length (frame_data f)) r = (pl, r1)" by force
  obtain pad r2 where pad: "rng_bytes ops pl r1 = (pad, r2)" by force
  have len: "1 \<le> pl" "pl \<le> 3" "length pad = pl"
    using secure_padding_len_bounds [OF assms(1), of "length (frame_data f)" r] pl pad
      length_rng_bytes [of ops pl r1] by simp_all
  with SecureCodec assms obtain raw where raw:
    "encode_intermediate_header (length (frame_data f) + length pad) (quickack (frame_meta f)) = Some raw"
    by (auto simp: encode_intermediate_header_alt)
  with SecureCodec assms(2) len pl pad show ?thesis
    using secure_wire [OF raw, of m]
    by (simp add: encode_secure_def written_def Frame_eta codec_decode_eta is_valid_secure_payload_len_def)
qed

lemma codec_decode_empty [simp]: "codec_decode c [] = (Inr None, [])"
  by (cases c) (simp_all add: decode_abridged_def decode_intermediate_def decode_secure_def)

interpretation ct: frame_transport "codec_encode ops c" "codec_decode c" "\<lambda>f. range_ok ops \<and> codec_accepts c f"
  for ops :: "('s, 'c) rand_ops" and c
  by unfold_locales (use codec_encode_wire in blast, simp)

section \<open>Properties\<close>

text \<open>C12. Frames sent through any codec that \<open>create_codec\<close> returns arrive: encoding a list of
  accepted frames succeeds, and a receiver that decodes as bytes come in recovers exactly the
  payloads and QuickACK flags, in order and with nothing left over, however the byte stream is
  cut into chunks.\<close>

theorem codec_stream_delivery:
  assumes "range_ok ops" and "list_all (codec_accepts (create_codec t)) fs"
  shows "\<exists>wire r'. send_all (codec_encode ops (create_codec t)) fs [] r = (None, wire, r') \<and>
    (\<forall>chunks. concat chunks = wire \<longrightarrow>
       (\<exists>gs. feed (codec_decode (create_codec t)) [] chunks = (None, gs, []) \<and> list_all2 same_frame fs gs))"
  using assms by (intro ct.chunked_delivery) (auto simp: list_all_iff)

theorem codec_stream_delivery_witness:
  "range_ok demo_ops \<and> list_all (codec_accepts (create_codec Secure)) [Frame_quickack [1, 2, 3, 4], Frame_new [5, 6, 7, 8]] \<and>
   (\<exists>wire r'. send_all (codec_encode demo_ops (create_codec Secure))
        [Frame_quickack [1, 2, 3, 4], Frame_new [5, 6, 7, 8]] [] demo_rng = (None, wire, r') \<and>
    (\<forall>chunks. concat chunks = wire \<longrightarrow>
       (\<exists>gs. feed (codec_decode (create_codec Secure)) [] chunks = (None, gs, []) \<and>
         list_all2 same_frame [Frame_quickack [1, 2, 3, 4], Frame_new [5, 6, 7, 8]] gs)))"
proof -
  have a: "list_all (codec_accepts (create_codec Secure)) [Frame_quickack [1, 2, 3, 4], Frame_new [5, 6, 7, 8]]"
    by (simp add: Frame_quickack_def Frame_new_def Frame_with_meta_def FrameMeta_new_def) presburger
  show ?thesis
    using a codec_stream_delivery [OF demo_ops_range_ok a] by simp
qed

fun codec_max :: "codec \<Rightarrow> nat" where
  "codec_max (AbridgedCodec m) = m"
| "codec_max (IntermediateCodec m) = m"
| "codec_max (SecureCodec m) = m"

text \<open>
  The frames of each codec as numbers: what a header says of the QuickACK flag and of the length that
  follows it, and the layout of a whole frame.
\<close>

fun announces :: "codec \<Rightarrow> bytes \<Rightarrow> bool \<Rightarrow> nat \<Rightarrow> bool" where
  "announces (AbridgedCodec m) hdr q n \<longleftrightarrow> 4 dvd n \<and>
     (n div 4 < 127 \<and> hdr = [of_nat (n div 4 + (if q then 128 else 0))] \<or>
      n div 4 < 2 ^ 24 \<and> hdr = of_nat (127 + (if q then 128 else 0)) # nat_le 3 (n div 4))"
| "announces _ hdr q n \<longleftrightarrow> n < 2 ^ 31 \<and> hdr = nat_le 4 (n + (if q then 2 ^ 31 else 0))"

fun padded :: "codec \<Rightarrow> nat \<Rightarrow> nat \<Rightarrow> bool" where
  "padded (SecureCodec m) data_len pad_len \<longleftrightarrow> 4 dvd data_len \<and> 0 < data_len \<and> pad_len < 4"
| "padded _ data_len pad_len \<longleftrightarrow> pad_len = 0"

definition frame_wire :: "codec \<Rightarrow> Frame \<Rightarrow> bytes \<Rightarrow> bool" where
  "frame_wire c f wire \<longleftrightarrow> (\<exists>hdr pad. wire = hdr @ frame_data f @ pad \<and>
     announces c hdr (quickack (frame_meta f)) (length (frame_data f) + length pad) \<and>
     padded c (length (frame_data f)) (length pad) \<and> length (frame_data f) + length pad \<le> codec_max c \<and>
     \<not> simple_ack (frame_meta f) \<and> padding_len (frame_meta f) = of_nat (length pad))"

lemma flag_and_rest:
  "u < 2 * d \<Longrightarrow> u mod d = n \<and> (d \<le> u) = q \<longleftrightarrow> n < d \<and> u = n + (if q then d else (0 :: nat))"
proof (cases "d \<le> u")
  case True
  assume "u < 2 * d"
  then have "u mod d = u - d" using True by (simp add: le_mod_geq)
  then show ?thesis using True \<open>u < 2 * d\<close> by auto
qed auto

lemma parse_header_iff:
  assumes "length h = 4"
  shows "parse_intermediate_header h = \<lparr>wire_len = n, hdr_quickack = q\<rparr> \<longleftrightarrow>
    n < 2 ^ 31 \<and> h = nat_le 4 (n + (if q then 2 ^ 31 else 0))"
proof -
  define v where "v = le_nat h"
  have v: "v < 2 ^ 32" using le_nat_bound [of h] assms by (simp add: v_def)
  have h: "h = nat_le 4 v" using nat_le_le_nat [of h] assms by (simp add: v_def)
  have u: "unat (of_nat v :: 32 word) = v" using v by (simp add: unat_of_nat)
  have "wire_len (parse_intermediate_header h) = v mod 2 ^ 31"
    unfolding parse_intermediate_header_alt v_def [symmetric] IntermediateHeader.simps unsigned_take_bit_eq u by (rule take_bit_eq_mod)
  moreover have "hdr_quickack (parse_intermediate_header h) = (2 ^ 31 \<le> v)"
  proof -
    have "bit (of_nat v :: 32 word) 31 = bit (unat (of_nat v :: 32 word)) 31" by (simp add: bit_unsigned_iff)
    then have "hdr_quickack (parse_intermediate_header h) = bit v 31"
      unfolding parse_intermediate_header_alt v_def [symmetric] IntermediateHeader.simps u .
    also have "\<dots> = odd (v div 2 ^ 31)" by (simp add: bit_iff_odd)
    also have "\<dots> = (2 ^ 31 \<le> v)"
    proof (cases "2 ^ 31 \<le> v")
      case True
      then have "v div 2 ^ 31 = 1" using v by (intro div_nat_eqI) simp_all
      then show ?thesis using True by simp
    qed simp
    finally show ?thesis .
  qed
  moreover have "v mod 2 ^ 31 = n \<and> (2 ^ 31 \<le> v) = q \<longleftrightarrow> n < 2 ^ 31 \<and> v = n + (if q then 2 ^ 31 else 0)"
    using flag_and_rest [of v "2 ^ 31" n q] v by simp
  moreover have "v = n + (if q then 2 ^ 31 else 0) \<longleftrightarrow> h = nat_le 4 (n + (if q then 2 ^ 31 else 0))" if "n < 2 ^ 31"
    using nat_le_inj [of 4 v "n + (if q then 2 ^ 31 else 0)"] v that by (auto simp: h)
  ultimately show ?thesis by (cases "parse_intermediate_header h") auto
qed

lemma length_byte_iff:
  "unat (b AND 0x7f) = n \<and> (0x80 \<le> (b :: byte)) = q \<longleftrightarrow> n < 128 \<and> b = of_nat (n + (if q then 128 else 0))"
proof -
  have u: "unat b < 256" using unsigned_less [of b] by simp
  have "b AND 0x7f = take_bit 7 b" by (simp add: take_bit_eq_mask mask_eq_exp_minus_1)
  then have "unat (b AND 0x7f) = take_bit 7 (unat b)" by (simp only: unsigned_take_bit_eq)
  then have "unat (b AND 0x7f) = unat b mod 128" by (simp add: take_bit_eq_mod)
  moreover have "(0x80 \<le> b) = (128 \<le> unat b)" by (simp add: word_le_nat_alt)
  moreover have "unat b mod 128 = n \<and> (128 \<le> unat b) = q \<longleftrightarrow> n < 128 \<and> unat b = n + (if q then 128 else 0)"
    using flag_and_rest [of "unat b" 128 n q] u by simp
  moreover have "unat b = k \<longleftrightarrow> b = of_nat k" if "k < 256" for k
    using that by (auto simp: unat_of_nat)
  ultimately show ?thesis by auto
qed

lemma take4: "4 \<le> length src \<Longrightarrow> [src ! 0, src ! 1, src ! 2, src ! 3] = take 4 src"
  by (intro nth_equalityI) (auto simp: less_Suc_eq numeral_eq_Suc)

text \<open>What the decoders do behind a complete header, and before it is complete.\<close>

lemma decode_intermediate_behind:
  assumes "announces (IntermediateCodec m) hdr q n"
  shows "decode_intermediate (hdr @ xs) m =
    (if m < n then (Inl (Codec_error InvalidData (Frame_exceeds_max n m)), hdr @ xs)
     else if length xs < n then (Inr None, hdr @ xs)
     else (Inr (Some (Frame_with_meta (take n xs) (FrameMeta_new\<lparr>quickack := q\<rparr>))), drop n xs))"
proof -
  have h: "length hdr = 4" "parse_intermediate_header hdr = \<lparr>wire_len = n, hdr_quickack = q\<rparr>"
    using assms parse_header_iff [of hdr n q] by auto
  then show ?thesis using take4 [of "hdr @ xs"] by (simp add: decode_intermediate_def Let_def)
qed

lemma decode_secure_behind:
  assumes "announces (SecureCodec m) hdr q n"
  shows "decode_secure (hdr @ xs) m =
    (if m < n then (Inl (Codec_error InvalidData (Frame_exceeds_max n m)), hdr @ xs)
     else if length xs < n then (Inr None, hdr @ xs)
     else if n < 4 then (Inl (Codec_error InvalidData (Secure_frame_length n)), hdr @ xs)
     else (Inr (Some (Frame_with_meta (take (n - n mod 4) xs) (FrameMeta_new\<lparr>quickack := q, padding_len := of_nat (n mod 4)\<rparr>))),
       drop n xs))"
proof -
  have h: "length hdr = 4" "parse_intermediate_header hdr = \<lparr>wire_len = n, hdr_quickack = q\<rparr>"
    using assms parse_header_iff [of hdr n q] by auto
  moreover have "n - (n - n mod 4) = n mod 4" by simp
  ultimately show ?thesis using take4 [of "hdr @ xs"]
    by (simp add: decode_secure_def Let_def secure_payload_len_from_wire_len_def secure_version_d_body_len_from_wire_len_def min_def)
qed

lemma decode_abridged_behind:
  assumes "announces (AbridgedCodec m) hdr q n"
  shows "decode_abridged (hdr @ xs) m =
    (if m < n then (Inl (Codec_error InvalidData (Frame_exceeds_max n m)), hdr @ xs)
     else if length xs < n then (Inr None, hdr @ xs)
     else (Inr (Some (Frame_with_meta (take n xs) (FrameMeta_new\<lparr>quickack := q\<rparr>))), drop n xs))"
proof -
  define k where "k = n div 4"
  have n: "n = k * 4" using assms by (auto simp: k_def)
  consider (short) "k < 127" "hdr = [of_nat (k + (if q then 128 else 0))]"
    | (long) "k < 2 ^ 24" "hdr = of_nat (127 + (if q then 128 else 0)) # nat_le 3 k"
    using assms by (auto simp: k_def)
  then show ?thesis
  proof cases
    case short
    define b :: byte where "b = of_nat (k + (if q then 128 else 0))"
    have "unat (b AND 0x7f) = k" "(0x80 \<le> b) = q" using length_byte_iff [of b k q] short(1) by (simp_all add: b_def)
    then show ?thesis using short(1) unfolding short(2) b_def [symmetric] n
      by (simp add: decode_abridged_def Let_def checked_mul_small)
  next
    case long
    define b :: byte where "b = of_nat (127 + (if q then 128 else 0))"
    have b: "unat (b AND 0x7f) = 127" "(0x80 \<le> b) = q" using length_byte_iff [of b 127 q] by (simp_all add: b_def)
    obtain x y z where l: "nat_le 3 k = [x, y, z]" by (simp add: numeral_3_eq_3)
    have "le_nat [x, y, z, 0] = k" using le_nat_nat_le [of 3 k] long(1) l by simp
    then show ?thesis using b long(1) unfolding long(2) b_def [symmetric] n l
      by (simp add: decode_abridged_def Let_def checked_mul_small)
  qed
qed

lemma header_read:
  assumes "4 \<le> length src"
  obtains hdr q n xs where "src = hdr @ xs" "n < 2 ^ 31" "hdr = nat_le 4 (n + (if q then 2 ^ 31 else 0))"
proof -
  obtain n q where "parse_intermediate_header (take 4 src) = \<lparr>wire_len = n, hdr_quickack = q\<rparr>"
    by (cases "parse_intermediate_header (take 4 src)")
  then have "n < 2 ^ 31 \<and> take 4 src = nat_le 4 (n + (if q then 2 ^ 31 else 0))"
    using parse_header_iff [of "take 4 src" n q] assms by simp
  then show thesis using that [OF append_take_drop_id [of 4 src, symmetric]] by blast
qed

lemma header_cases:
  obtains (short) "codec_decode c src = (Inr None, src)"
  | (header) hdr q n xs where "src = hdr @ xs" "announces c hdr q n"
proof (cases c)
  case (AbridgedCodec m)
  show thesis
  proof (cases src)
    case Nil
    then show thesis using short by simp
  next
    case (Cons b bs)
    define k where "k = unat (b AND 0x7f)"
    have b: "k < 128" "b = of_nat (k + (if 0x80 \<le> b then 128 else 0))"
      using length_byte_iff [of b k "0x80 \<le> b"] by (simp_all add: k_def)
    show thesis
    proof (cases "k < 127")
      case True
      then show thesis using header [of "[b]" bs "0x80 \<le> b" "k * 4"] b Cons AbridgedCodec by simp
    next
      case False
      then have k: "k = 127" using b(1) by simp
      show thesis
      proof (cases "length src < 4")
        case True
        then show thesis using k short AbridgedCodec Cons by (simp add: decode_abridged_def k_def)
      next
        case False
        define l where "l = le_nat (take 3 bs)"
        have t: "length (take 3 bs) = 3" using False Cons by simp
        have "take 3 bs = nat_le 3 l" using nat_le_le_nat [of "take 3 bs"] t by (simp add: l_def)
        then have "bs = nat_le 3 l @ drop 3 bs" by (metis append_take_drop_id)
        moreover have "l < 2 ^ 24" using le_nat_bound [of "take 3 bs"] t by (simp add: l_def)
        ultimately show thesis
          using header [of "b # nat_le 3 l" "drop 3 bs" "0x80 \<le> b" "l * 4"] b k Cons AbridgedCodec by simp
      qed
    qed
  qed
next
  case (IntermediateCodec m)
  show thesis
  proof (cases "length src < 4")
    case True
    then show thesis using short IntermediateCodec by (simp add: decode_intermediate_def)
  next
    case False
    then have "4 \<le> length src" by simp
    then show thesis by (rule header_read) (use header IntermediateCodec in simp)
  qed
next
  case (SecureCodec m)
  show thesis
  proof (cases "length src < 4")
    case True
    then show thesis using short SecureCodec by (simp add: decode_secure_def)
  next
    case False
    then have "4 \<le> length src" by simp
    then show thesis by (rule header_read) (use header SecureCodec in simp)
  qed
qed

text \<open>The header alone decides about a refusal, up to a secure frame that turns out too short.\<close>

definition behind :: "codec \<Rightarrow> nat \<Rightarrow> nat \<Rightarrow> codec_error option" where
  "behind c n len =
    (if codec_max c < n then Some (Codec_error InvalidData (Frame_exceeds_max n (codec_max c)))
     else case c of SecureCodec m \<Rightarrow> if n < 4 \<and> n \<le> len then Some (Codec_error InvalidData (Secure_frame_length n)) else None
          | _ \<Rightarrow> None)"

fun pad_of :: "codec \<Rightarrow> nat \<Rightarrow> nat" where
  "pad_of (SecureCodec m) n = n mod 4"
| "pad_of _ n = 0"

lemma decode_behind:
  assumes "announces c hdr q n"
  shows "codec_decode c (hdr @ xs) =
    (case behind c n (length xs) of
       Some e \<Rightarrow> (Inl e, hdr @ xs)
     | None \<Rightarrow> if length xs < n then (Inr None, hdr @ xs)
         else (Inr (Some (Frame_with_meta (take (n - pad_of c n) xs) (FrameMeta_new\<lparr>quickack := q, padding_len := of_nat (pad_of c n)\<rparr>))),
           drop n xs))"
proof (cases c)
  case (AbridgedCodec m)
  then show ?thesis using decode_abridged_behind [OF assms [unfolded AbridgedCodec], of xs]
    by (simp add: behind_def FrameMeta_new_def)
next
  case (IntermediateCodec m)
  then show ?thesis using decode_intermediate_behind [OF assms [unfolded IntermediateCodec], of xs]
    by (simp add: behind_def FrameMeta_new_def)
next
  case (SecureCodec m)
  then show ?thesis using decode_secure_behind [OF assms [unfolded SecureCodec], of xs] by (simp add: behind_def)
qed

lemma frame_complete:
  assumes "announces c hdr q n" "behind c n (length xs) = None" "n \<le> length xs"
    and "f = Frame_with_meta (take (n - pad_of c n) xs) (FrameMeta_new\<lparr>quickack := q, padding_len := of_nat (pad_of c n)\<rparr>)"
  shows "frame_wire c f (hdr @ take n xs)"
proof -
  have p: "pad_of c n \<le> n" by (cases c) auto
  have d: "frame_data f = take (n - pad_of c n) xs" "length (frame_data f) = n - pad_of c n"
    using assms(3,4) by (simp_all add: Frame_with_meta_def)
  define pad where "pad = take (pad_of c n) (drop (n - pad_of c n) xs)"
  have l: "length pad = pad_of c n" using assms(3) p by (simp add: pad_def)
  have "take n xs = frame_data f @ pad" using take_add [of "n - pad_of c n" "pad_of c n" xs] p by (simp add: d pad_def)
  moreover have "padded c (length (frame_data f)) (length pad)" "length (frame_data f) + length pad \<le> codec_max c"
    using assms(2,3) p unfolding d(2) l
    by (cases c; auto simp: behind_def split: if_splits intro: dvd_minus_mod)+
  ultimately show ?thesis
    unfolding frame_wire_def using assms(1,4) p d(2) l
    by (intro exI [of _ hdr] exI [of _ pad]) (auto simp: Frame_with_meta_def FrameMeta_new_def)
qed

lemma complete_frame_decoded:
  assumes "frame_wire c f wire"
  shows "codec_decode c (wire @ rest) = (Inr (Some f), rest)"
proof -
  obtain hdr pad where w: "wire = hdr @ frame_data f @ pad" and
    a: "announces c hdr (quickack (frame_meta f)) (length (frame_data f) + length pad)" and
    p: "padded c (length (frame_data f)) (length pad)" "length (frame_data f) + length pad \<le> codec_max c"
      "\<not> simple_ack (frame_meta f)" "padding_len (frame_meta f) = of_nat (length pad)"
    using assms by (auto simp: frame_wire_def)
  have pad: "pad_of c (length (frame_data f) + length pad) = length pad" using p(1) by (cases c) auto
  have "behind c (length (frame_data f) + length pad) n = None" for n
    using p(1,2) by (cases c) (auto simp: behind_def dest!: dvd_imp_le)
  moreover have "Frame_with_meta (frame_data f) (FrameMeta_new\<lparr>quickack := quickack (frame_meta f), padding_len := of_nat (length pad)\<rparr>) = f"
    using p(3,4) by (simp add: Frame_with_meta_def FrameMeta_new_def)
  ultimately show ?thesis
    using decode_behind [OF a, of "frame_data f @ pad @ rest"] pad by (simp add: w)
qed

lemma behind_final: "behind c n len = Some e \<Longrightarrow> len \<le> len' \<Longrightarrow> behind c n len' = Some e"
  by (auto simp: behind_def split: if_splits codec.splits)

text \<open>C13. Decoding an arbitrary buffer is exact.  A frame is returned with a rest if and only if the
  buffer is a frame of the codec followed by that rest: a header that announces the QuickACK flag and
  the length, the payload, and for the secure codec up to three bytes of padding behind a payload of
  whole words, all within the limit of the codec.  On an error or a request for more input the buffer
  is untouched, and no further input changes an error.\<close>

theorem codec_decode_exact:
  "(codec_decode c src = (Inr (Some f), rest) \<longleftrightarrow> (\<exists>wire. src = wire @ rest \<and> frame_wire c f wire)) \<and>
   (case codec_decode c src of
      (Inr (Some _), _) \<Rightarrow> True
    | (Inr None, left) \<Rightarrow> left = src
    | (Inl e, left) \<Rightarrow> left = src \<and> codec_decode c (src @ later) = (Inl e, src @ later))"
proof (cases rule: header_cases [of c src])
  case short
  then show ?thesis using complete_frame_decoded by fastforce
next
  case (header hdr q n xs)
  note d = decode_behind [OF header(2)]
  have "\<exists>wire. src = wire @ rest \<and> frame_wire c f wire" if dec: "codec_decode c src = (Inr (Some f), rest)"
  proof -
    have b: "behind c n (length xs) = None" and n: "n \<le> length xs" using dec d [of xs] header(1) by (auto split: option.splits if_splits)
    then have "frame_wire c f (hdr @ take n xs)" "rest = drop n xs"
      using frame_complete [OF header(2) b n] dec d [of xs] header(1) by auto
    then show ?thesis using header(1) by (intro exI [of _ "hdr @ take n xs"]) simp
  qed
  moreover have "codec_decode c src = (Inr (Some f), rest)" if "src = wire @ rest" "frame_wire c f wire" for wire
    using complete_frame_decoded [OF that(2)] that(1) by simp
  ultimately show ?thesis
    using d [of xs] d [of "xs @ later"] behind_final [of c n "length xs" _ "length (xs @ later)"] header(1)
    by (cases "behind c n (length xs)") auto
qed

lemma create_codec_is_unified:
  "codec_decode (create_codec t) src = FrameCodec_decode (FrameCodec_new t) src \<and>
   codec_encode ops (create_codec t) f dst r =
     (case FrameCodec_encode ops (FrameCodec_new t) f dst r of
        (res, dst', r') \<Rightarrow> (written dst res dst', dst', r')) \<and>
   codec_proto_tag (create_codec t) = fc_proto_tag (FrameCodec_new t)"
  by (cases t) (simp_all add: FrameCodec_decode_def FrameCodec_encode_def FrameCodec_new_def split_beta)

fun codec_mode :: "codec \<Rightarrow> FrameMode" where
  "codec_mode (AbridgedCodec m) = FM_Abridged"
| "codec_mode (IntermediateCodec m) = FM_Intermediate"
| "codec_mode (SecureCodec m) = FM_SecureIntermediate"

text \<open>C14. A successful encoding appends to the buffer, reports exactly what it appended, and adds
  at most the overhead that \<open>FrameMode::max_overhead\<close> states for the mode; a failed one leaves
  the buffer as it was.\<close>

theorem codec_encode_overhead:
  assumes "range_ok ops" and "codec_encode ops c f dst r = (res, dst', r')"
  shows "case res of
      Inr n \<Rightarrow> (\<exists>w. dst' = dst @ w \<and> n = length w \<and>
         length (frame_data f) \<le> n \<and> n \<le> length (frame_data f) + max_overhead (codec_mode c))
    | Inl _ \<Rightarrow> dst' = dst"
proof (cases c)
  case (AbridgedCodec m)
  then show ?thesis
    using assms(2) by (auto simp: encode_abridged_def written_def Let_def split: if_splits)
next
  case (IntermediateCodec m)
  then show ?thesis
    using assms(2) by (auto simp: encode_intermediate_def written_def Let_def split: if_splits option.splits)
next
  case (SecureCodec m)
  then show ?thesis
    using assms(2) secure_padding_len_bounds [OF assms(1), of "length (frame_data f)" r]
    by (auto simp: encode_secure_def written_def Let_def split_beta split: if_splits option.splits)
qed

theorem codec_encode_overhead_witness:
  "range_ok demo_ops \<and>
   (case codec_encode demo_ops (create_codec Abridged) (Frame_new [1, 2, 3, 4]) [9] demo_rng of
      (Inr n, dst', r') \<Rightarrow> (\<exists>w. dst' = [9] @ w \<and> n = length w \<and>
         length (frame_data (Frame_new [1, 2, 3, 4])) \<le> n \<and>
         n \<le> length (frame_data (Frame_new [1, 2, 3, 4])) + max_overhead (codec_mode (create_codec Abridged)))
    | (Inl _, dst', r') \<Rightarrow> dst' = [9])"
proof -
  obtain res dst' r' where
    e: "codec_encode demo_ops (create_codec Abridged) (Frame_new [1, 2, 3, 4]) [9] demo_rng = (res, dst', r')"
    by (metis prod.collapse)
  show ?thesis
    using codec_encode_overhead [OF demo_ops_range_ok e] unfolding e by (cases res) simp_all
qed

text \<open>C15. The secure codec encodes an empty payload although its own decoder refuses the result:
  zero bytes count as aligned, the padding is one to three bytes, and a wire length below four is
  an invalid secure frame.\<close>

theorem encode_secure_empty_undecodable:
  assumes "range_ok ops" and "frame_data f = []" and "\<not> simple_ack (frame_meta f)" and "3 \<le> m"
  shows "\<exists>w r' n. encode_secure ops f [] r = (Inr (), w, r') \<and>
    decode_secure w m = (Inl (Codec_error InvalidData (Secure_frame_length n)), w) \<and> 1 \<le> n \<and> n \<le> 3"
proof -
  obtain pl r1 where pl: "secure_padding_len ops 0 r = (pl, r1)" by force
  obtain pad r2 where pad: "rng_bytes ops pl r1 = (pad, r2)" by force
  have len: "1 \<le> pl" "pl \<le> 3" "length pad = pl"
    using secure_padding_len_bounds [OF assms(1), of 0 r] pl pad length_rng_bytes [of ops pl r1]
    by simp_all
  then obtain raw where raw: "encode_intermediate_header pl (quickack (frame_meta f)) = Some raw"
    by (auto simp: encode_intermediate_header_alt)
  have "encode_secure ops f [] r = (Inr (), nat_le 4 (unat raw) @ pad, r2)"
    using assms len pl pad raw by (simp add: encode_secure_def is_valid_secure_payload_len_def)
  moreover have "decode_secure (nat_le 4 (unat raw) @ pad) m =
      (Inl (Codec_error InvalidData (Secure_frame_length pl)), nat_le 4 (unat raw) @ pad)"
    using intermediate_header_roundtrip [OF raw] len assms(4)
    by (simp add: decode_secure_def header4 Let_def secure_payload_len_from_wire_len_def
        secure_version_d_body_len_from_wire_len_def)
  ultimately show ?thesis using len by blast
qed

theorem encode_secure_empty_undecodable_witness:
  "range_ok demo_ops \<and> frame_data (Frame_new []) = [] \<and> \<not> simple_ack (frame_meta (Frame_new [])) \<and>
   (\<exists>w r' n. encode_secure demo_ops (Frame_new []) [] demo_rng = (Inr (), w, r') \<and>
    decode_secure w 16777216 = (Inl (Codec_error InvalidData (Secure_frame_length n)), w) \<and> 1 \<le> n \<and> n \<le> 3)"
proof -
  have f: "frame_data (Frame_new []) = []" "\<not> simple_ack (frame_meta (Frame_new []))"
    by (simp_all add: Frame_new_def Frame_with_meta_def FrameMeta_new_def)
  show ?thesis
    using f encode_secure_empty_undecodable [OF demo_ops_range_ok f, of 16777216 demo_rng] by simp
qed

end
