(* ===== verification/Tls_Base.thy ===== *)
theory Tls_Base
  imports Prelude
begin

text \<open>
  The TLS record constants of \<open>src/protocol/constants.rs\<close> that the handshake and the stream
  wrappers share.
\<close>

definition TLS_VERSION :: bytes where "TLS_VERSION = [0x03, 0x03]"
definition TLS_RECORD_HANDSHAKE :: byte where "TLS_RECORD_HANDSHAKE = 0x16"
definition TLS_RECORD_CHANGE_CIPHER :: byte where "TLS_RECORD_CHANGE_CIPHER = 0x14"
definition TLS_RECORD_APPLICATION :: byte where "TLS_RECORD_APPLICATION = 0x17"
definition MAX_TLS_CIPHERTEXT_SIZE :: nat where "MAX_TLS_CIPHERTEXT_SIZE = 16384 + 256"
definition TLS_RECORD_ALERT :: byte where "TLS_RECORD_ALERT = 0x15"
definition MAX_TLS_PLAINTEXT_SIZE :: nat where "MAX_TLS_PLAINTEXT_SIZE = 16384"

end
