(* ===== verification/Tls_Server.thy ===== *)
theory Tls_Server
  imports Secure_Random Tls_Base
begin

text \<open>
  The server's half of the FakeTLS handshake in \<open>src/protocol/tls.rs\<close>: the extension builder,
  the ServerHello builder, the response of three or more records with the HMAC digest written
  into the ServerHello random, the record header parser and the structure check.

  SHA-256 HMAC, X25519 and ML-KEM come from crates outside the repository: they are the
  parameters \<^emph>\<open>hm\<close> and \<^emph>\<open>kx\<close>.  The first two return arrays of 32 bytes and are given as the
  byte at each index, which fixes the length.
\<close>

section \<open>Constants and data\<close>

definition TLS_DIGEST_LEN :: nat where "TLS_DIGEST_LEN = 32"
definition TLS_DIGEST_POS :: nat where "TLS_DIGEST_POS = 11"

definition KEY_SHARE :: nat where "KEY_SHARE = 0x0033"
definition SUPPORTED_VERSIONS :: nat where "SUPPORTED_VERSIONS = 0x002b"
definition ALPN :: nat where "ALPN = 0x0010"

definition TLS_AES_128_GCM_SHA256 :: bytes where "TLS_AES_128_GCM_SHA256 = [0x13, 0x01]"
definition TLS_AES_256_GCM_SHA384 :: bytes where "TLS_AES_256_GCM_SHA384 = [0x13, 0x02]"
definition TLS_CHACHA20_POLY1305_SHA256 :: bytes where
  "TLS_CHACHA20_POLY1305_SHA256 = [0x13, 0x03]"

definition TLS_NAMED_GROUP_X25519 :: nat where "TLS_NAMED_GROUP_X25519 = 0x001d"
definition TLS_NAMED_GROUP_X25519MLKEM768 :: nat where "TLS_NAMED_GROUP_X25519MLKEM768 = 0x11ec"
definition X25519_KEY_SHARE_LEN :: nat where "X25519_KEY_SHARE_LEN = 32"
definition X25519MLKEM768_CLIENT_KEY_SHARE_LEN :: nat where
  "X25519MLKEM768_CLIENT_KEY_SHARE_LEN = 1216"
definition X25519MLKEM768_SERVER_KEY_SHARE_LEN :: nat where
  "X25519MLKEM768_SERVER_KEY_SHARE_LEN = 1120"
definition MLKEM768_CLIENT_ENCAPSULATION_KEY_LEN :: nat where
  "MLKEM768_CLIENT_ENCAPSULATION_KEY_LEN = 1184"
definition MLKEM768_SERVER_CIPHERTEXT_LEN :: nat where "MLKEM768_SERVER_CIPHERTEXT_LEN = 1088"

lemmas tls_consts =
  TLS_DIGEST_LEN_def TLS_DIGEST_POS_def TLS_VERSION_def TLS_RECORD_HANDSHAKE_def
  TLS_RECORD_CHANGE_CIPHER_def TLS_RECORD_APPLICATION_def MAX_TLS_CIPHERTEXT_SIZE_def
  KEY_SHARE_def SUPPORTED_VERSIONS_def

record ServerHelloKeyShare =
  ks_group :: nat
  key_exchange :: bytes

definition sha256_hmac :: "(bytes \<Rightarrow> bytes \<Rightarrow> nat \<Rightarrow> byte) \<Rightarrow> bytes \<Rightarrow> bytes \<Rightarrow> bytes" where
  "sha256_hmac hm key data = map (hm key data) [0..<32]"

lemma length_sha256_hmac [simp]: "length (sha256_hmac hm key data) = 32"
  by (simp add: sha256_hmac_def)

section \<open>The builders\<close>

text \<open>\<open>TlsExtensionBuilder\<close> has one field, the bytes of the extensions so far.\<close>

definition add_key_share :: "bytes \<Rightarrow> nat \<Rightarrow> bytes \<Rightarrow> bytes" where
  "add_key_share exts grp kx =
    (case try_from U16_MAX (length kx) of None \<Rightarrow> exts | Some key_exchange_len \<Rightarrow>
     (case checked_add (length kx) 4 of None \<Rightarrow> exts | Some entry_len \<Rightarrow>
     (case try_from U16_MAX entry_len of None \<Rightarrow> exts | Some entry_len \<Rightarrow>
        exts @ nat_be 2 KEY_SHARE @ nat_be 2 entry_len @ nat_be 2 grp
             @ nat_be 2 key_exchange_len @ kx)))"

definition add_supported_versions :: "bytes \<Rightarrow> nat \<Rightarrow> bytes" where
  "add_supported_versions exts version =
     exts @ nat_be 2 SUPPORTED_VERSIONS @ nat_be 2 2 @ nat_be 2 version"

definition ext_build :: "bytes \<Rightarrow> bytes" where
  "ext_build exts = (case try_from U16_MAX (length exts) of
     None \<Rightarrow> [] | Some len \<Rightarrow> nat_be 2 len @ exts)"

record ServerHelloBuilder =
  shb_random :: bytes
  shb_session_id :: bytes
  shb_cipher_suite :: bytes
  shb_compression :: byte
  shb_extensions :: bytes

definition ServerHelloBuilder_new :: "bytes \<Rightarrow> ServerHelloBuilder" where
  "ServerHelloBuilder_new session_id =
     \<lparr>shb_random = replicate 32 0, shb_session_id = session_id,
      shb_cipher_suite = TLS_AES_128_GCM_SHA256, shb_compression = 0x00, shb_extensions = []\<rparr>"

definition with_key_share :: "nat \<Rightarrow> bytes \<Rightarrow> ServerHelloBuilder \<Rightarrow> ServerHelloBuilder" where
  "with_key_share grp kx b = b\<lparr>shb_extensions := add_key_share (shb_extensions b) grp kx\<rparr>"

definition with_tls13_version :: "ServerHelloBuilder \<Rightarrow> ServerHelloBuilder" where
  "with_tls13_version b = b\<lparr>shb_extensions := add_supported_versions (shb_extensions b) 0x0304\<rparr>"

definition with_cipher_suite :: "bytes \<Rightarrow> ServerHelloBuilder \<Rightarrow> ServerHelloBuilder" where
  "with_cipher_suite cs b = (if cs \<noteq> [0, 0] then b\<lparr>shb_cipher_suite := cs\<rparr> else b)"

definition build_message :: "ServerHelloBuilder \<Rightarrow> bytes" where
  "build_message b =
    (case try_from 255 (length (shb_session_id b)) of None \<Rightarrow> [] | Some session_id_len \<Rightarrow>
     (let extensions = shb_extensions b in
      case try_from U16_MAX (length extensions) of None \<Rightarrow> [] | Some extensions_len \<Rightarrow>
     (let body_len = 2 + 32 + 1 + length (shb_session_id b) + 2 + 1 + 2 + length extensions in
      if 0x00ffffff < body_len then []
      else case try_from U32_MAX body_len of None \<Rightarrow> [] | Some body_len_u32 \<Rightarrow>
        [0x02] @ take 3 (drop 1 (nat_be 4 body_len_u32)) @ TLS_VERSION @ shb_random b
        @ [of_nat session_id_len] @ shb_session_id b @ shb_cipher_suite b @ [shb_compression b]
        @ nat_be 2 extensions_len @ extensions)))"

definition build_record :: "ServerHelloBuilder \<Rightarrow> bytes" where
  "build_record b =
    (let message = build_message b in
     if message = [] then []
     else case try_from U16_MAX (length message) of None \<Rightarrow> [] | Some message_len \<Rightarrow>
       [TLS_RECORD_HANDSHAKE] @ TLS_VERSION @ nat_be 2 message_len @ message)"

section \<open>Key shares\<close>

record ('k, 'e) kx_ops =
  kx_x25519 :: "bytes \<Rightarrow> bytes \<Rightarrow> nat \<Rightarrow> byte"
  kx_basepoint :: bytes
  kx_key_try_from :: "bytes \<Rightarrow> 'k option"
  kx_key_new :: "'k \<Rightarrow> 'e option"
  kx_b32_try_from :: "bytes \<Rightarrow> bytes option"
  kx_encapsulate :: "'e \<Rightarrow> bytes \<Rightarrow> bytes"

definition x25519 :: "('k, 'e) kx_ops \<Rightarrow> bytes \<Rightarrow> bytes \<Rightarrow> bytes" where
  "x25519 kx scalar point = map (kx_x25519 kx scalar point) [0..<32]"

definition gen_x25519_key_pair where
  "gen_x25519_key_pair kx ops st =
    (let (scalar, st) = fill ops X25519_KEY_SHARE_LEN st;
         public_key = x25519 kx scalar (kx_basepoint kx)
     in ((scalar, public_key), st))"

definition gen_fake_x25519_key where
  "gen_fake_x25519_key kx ops st =
    (let ((scalar, public_key), st) = gen_x25519_key_pair kx ops st in (public_key, st))"

text \<open>The key is written over the zeroed vector: first the ciphertext part, then the tail.\<close>

definition gen_fake_x25519mlkem768_server_key_share where
  "gen_fake_x25519mlkem768_server_key_share kx ops st =
    (let (ct, st) = fill ops MLKEM768_SERVER_CIPHERTEXT_LEN st;
         (x25519_key, st) = gen_fake_x25519_key kx ops st
     in (do { ks \<leftarrow> splice (replicate X25519MLKEM768_SERVER_KEY_SHARE_LEN 0) 0 ct;
              splice ks MLKEM768_SERVER_CIPHERTEXT_LEN x25519_key }, st))"

section \<open>The response\<close>

definition app_record :: "bytes \<Rightarrow> bytes" where
  "app_record body = [TLS_RECORD_APPLICATION] @ TLS_VERSION @ nat_be 2 (length body mod 65536) @ body"

fun gen_tickets where
  "gen_tickets ops 0 st = ([], st)"
| "gen_tickets ops (Suc n) st =
    (let (r, st) = rng_range ops 48 st;
         ticket_len = r + 48;
         (body, st) = rng_bytes ops ticket_len st;
         (rest, st) = gen_tickets ops n st
     in (app_record body # rest, st))"

definition change_cipher_spec :: bytes where
  "change_cipher_spec =
     [TLS_RECORD_CHANGE_CIPHER, TLS_VERSION ! 0, TLS_VERSION ! 1, 0x00, 0x01, 0x01]"

definition build_server_hello_with_cipher where
  "build_server_hello_with_cipher hm secret client_digest session_id fake_cert_len ops
       selected_cipher_suite server_key_share (alpn :: bytes option) (new_session_tickets :: nat) st =
    (let fake_cert_len = max 64 (min MAX_TLS_CIPHERTEXT_SIZE fake_cert_len);
         server_hello = build_record (with_tls13_version
           (with_key_share (ks_group server_key_share) (key_exchange server_key_share)
             (with_cipher_suite selected_cipher_suite (ServerHelloBuilder_new session_id))));
         (fake_cert, st) = (if 0 < fake_cert_len then rng_bytes ops fake_cert_len st else ([], st));
         app_data_record = [TLS_RECORD_APPLICATION] @ TLS_VERSION
           @ nat_be 2 (fake_cert_len mod 65536) @ fake_cert;
         ticket_count = min new_session_tickets 4;
         (tickets, st) = (if 0 < ticket_count then gen_tickets ops ticket_count st else ([], st));
         response = server_hello @ change_cipher_spec @ app_data_record @ concat tickets;
         response_digest = sha256_hmac hm secret (client_digest @ response)
     in (splice response TLS_DIGEST_POS response_digest, st))"

definition build_server_hello where
  "build_server_hello hm kx secret client_digest session_id fake_cert_len ops alpn new_session_tickets st =
    (let (key, st) = gen_fake_x25519mlkem768_server_key_share kx ops st
     in case key of None \<Rightarrow> (None, st)
        | Some key \<Rightarrow> build_server_hello_with_cipher hm secret client_digest session_id fake_cert_len ops
            TLS_AES_128_GCM_SHA256
            \<lparr>ks_group = TLS_NAMED_GROUP_X25519MLKEM768, key_exchange = key\<rparr> alpn new_session_tickets st)"

section \<open>Record headers and the structure check\<close>

definition is_tls_handshake :: "bytes \<Rightarrow> bool rs" where
  "is_tls_handshake first_bytes =
    (if length first_bytes < 3 then Some False
     else do { a \<leftarrow> idx first_bytes 0; b \<leftarrow> idx first_bytes 1; c \<leftarrow> idx first_bytes 2;
               Some (a = TLS_RECORD_HANDSHAKE \<and> b = 0x03 \<and> (c = 0x01 \<or> c = 0x03)) })"

text \<open>The argument is a \<open>[u8; 5]\<close>: five bytes.\<close>

definition parse_tls_record_header :: "byte \<times> byte \<times> byte \<times> byte \<times> byte \<Rightarrow> (byte \<times> nat) option" where
  "parse_tls_record_header header =
    (let (t, v0, v1, l0, l1) = header; version = [v0, v1]
     in if version \<noteq> [0x03, 0x01] \<and> version \<noteq> TLS_VERSION then None else Some (t, be16 l0 l1))"

datatype ServerHelloError =
    InvalidTlsRecord byte byte byte
  | Truncated nat nat
  | BadMessageType byte
  | LengthMismatch nat nat

definition validate_server_hello_structure :: "bytes \<Rightarrow> (ServerHelloError + unit) rs" where
  "validate_server_hello_structure data =
    (if length data < 5 then Some (Inl (InvalidTlsRecord 0 0 0))
     else do {
       d0 \<leftarrow> idx data 0; d1 \<leftarrow> idx data 1; d2 \<leftarrow> idx data 2;
       if d0 \<noteq> TLS_RECORD_HANDSHAKE then Some (Inl (InvalidTlsRecord d0 d1 d2))
       else do {
         v \<leftarrow> slice data 1 3;
         if v \<noteq> TLS_VERSION then Some (Inl (InvalidTlsRecord d0 d1 d2))
         else do {
           l0 \<leftarrow> idx data 3; l1 \<leftarrow> idx data 4;
           let record_len = be16 l0 l1 in
           if length data < 5 + record_len then Some (Inl (Truncated (5 + record_len) (length data)))
           else do {
             t \<leftarrow> idx data 5;
             if t \<noteq> 0x02 then Some (Inl (BadMessageType t))
             else do {
               m0 \<leftarrow> idx data 6; m1 \<leftarrow> idx data 7; m2 \<leftarrow> idx data 8;
               let msg_len = be_nat [0, m0, m1, m2] in
               if msg_len + 4 \<noteq> record_len then Some (Inl (LengthMismatch msg_len record_len))
               else Some (Inr ()) } } } } })"

section \<open>What the peer sees\<close>

text \<open>The response as a sequence of TLS records, read with the header parser.\<close>

function (sequential) tls_records :: "bytes \<Rightarrow> (byte \<times> bytes) list option" where
  "tls_records [] = Some []"
| "tls_records (t # v0 # v1 # l0 # l1 # rest) =
    (case parse_tls_record_header (t, v0, v1, l0, l1) of
       None \<Rightarrow> None
     | Some (t, len) \<Rightarrow> if length rest < len then None
         else map_option ((#) (t, take len rest)) (tls_records (drop len rest)))"
| "tls_records _ = None"
  by pat_completeness auto
termination by (relation "measure length") auto

text \<open>The client's check of the digest: HMAC over its own digest and the response with the random zeroed.\<close>

definition server_digest_ok where
  "server_digest_ok hm secret client_digest resp =
    (case splice resp TLS_DIGEST_POS (replicate TLS_DIGEST_LEN 0) of
       None \<Rightarrow> False
     | Some z \<Rightarrow> take TLS_DIGEST_LEN (drop TLS_DIGEST_POS resp) = sha256_hmac hm secret (client_digest @ z))"

lemma tls_records_record:
  "length body < 65536 \<Longrightarrow>
   tls_records (t # 3 # 3 # nat_be 2 (length body) @ body @ rest) = map_option ((#) (t, body)) (tls_records rest)"
  by (simp add: nat_be_2 parse_tls_record_header_def TLS_VERSION_def)

lemma tls_records_app_record:
  "length body < 65536 \<Longrightarrow>
   tls_records (app_record body @ rest) = map_option ((#) (0x17, body)) (tls_records rest)"
  using tls_records_record [of body "0x17" rest] by (simp add: app_record_def tls_consts)

lemma tls_records_ccs:
  "tls_records (change_cipher_spec @ rest) = map_option ((#) (0x14, [1])) (tls_records rest)"
  using tls_records_record [of "[1]" "0x14" rest]
  by (simp add: change_cipher_spec_def tls_consts nat_be_2)

lemma gen_tickets_props:
  assumes "range_ok ops" "gen_tickets ops n st = (ts, st')"
  shows "\<exists>bodies. ts = map app_record bodies \<and> length bodies = n \<and>
           list_all (\<lambda>b. 48 \<le> length b \<and> length b < 96) bodies"
  using assms(2)
proof (induction n arbitrary: st ts st')
  case (Suc n)
  obtain r st1 where r: "rng_range ops 48 st = (r, st1)" by fastforce
  obtain body st2 where b: "rng_bytes ops (r + 48) st1 = (body, st2)" by fastforce
  obtain rest st3 where g: "gen_tickets ops n st2 = (rest, st3)" by fastforce
  have "r < 48" using rng_range_less [OF assms(1), of 48 st] r by simp
  moreover have "length body = r + 48" using length_rng_bytes [of ops "r + 48" st1] b by simp
  moreover obtain bs where "rest = map app_record bs" "length bs = n"
      "list_all (\<lambda>b. 48 \<le> length b \<and> length b < 96) bs"
    using Suc.IH [OF g] by blast
  ultimately show ?case
    using Suc.prems r b g by (intro exI [of _ "body # bs"]) auto
qed simp

lemma tls_records_tickets:
  "list_all (\<lambda>b. 48 \<le> length b \<and> length b < 96) bodies \<Longrightarrow>
   tls_records (concat (map app_record bodies)) = Some (map (Pair 0x17) bodies)"
  by (induction bodies) (auto simp: tls_records_app_record)

subsection \<open>The ServerHello record\<close>

definition response_builder where
  "response_builder sid cs ks = with_tls13_version (with_key_share (ks_group ks) (key_exchange ks)
     (with_cipher_suite cs (ServerHelloBuilder_new sid)))"

text \<open>A session id and a key share for which every length of the ServerHello fits its field.\<close>

definition hello_fits :: "bytes \<Rightarrow> bytes \<Rightarrow> ServerHelloKeyShare \<Rightarrow> bool" where
  "hello_fits sid cs ks \<longleftrightarrow> length sid \<le> 255 \<and> length cs = 2 \<and> length (key_exchange ks) \<le> 65000"

lemma response_builder_fields:
  assumes "hello_fits sid cs ks"
  shows "shb_random (response_builder sid cs ks) = replicate 32 0"
    "shb_session_id (response_builder sid cs ks) = sid"
    "shb_cipher_suite (response_builder sid cs ks) = (if cs = [0, 0] then TLS_AES_128_GCM_SHA256 else cs)"
    "shb_compression (response_builder sid cs ks) = 0"
    "shb_extensions (response_builder sid cs ks) =
       nat_be 2 0x0033 @ nat_be 2 (length (key_exchange ks) + 4) @ nat_be 2 (ks_group ks)
       @ nat_be 2 (length (key_exchange ks)) @ key_exchange ks
       @ nat_be 2 0x002b @ nat_be 2 2 @ nat_be 2 0x0304"
  using assms
  by (simp_all add: response_builder_def with_tls13_version_def with_key_share_def
      with_cipher_suite_def ServerHelloBuilder_new_def add_key_share_def add_supported_versions_def
      hello_fits_def tls_consts try_from_def checked_add_def)

text \<open>The ServerHello message with random \<open>rnd\<close>, written out.\<close>

definition hello_tail :: "bytes \<Rightarrow> bytes \<Rightarrow> ServerHelloKeyShare \<Rightarrow> bytes" where
  "hello_tail sid cs ks =
    (let exts = nat_be 2 0x0033 @ nat_be 2 (length (key_exchange ks) + 4) @ nat_be 2 (ks_group ks)
           @ nat_be 2 (length (key_exchange ks)) @ key_exchange ks
           @ nat_be 2 0x002b @ nat_be 2 2 @ nat_be 2 0x0304
     in [of_nat (length sid)] @ sid @ cs @ [0] @ nat_be 2 (length exts) @ exts)"

definition hello_message :: "bytes \<Rightarrow> bytes \<Rightarrow> bytes \<Rightarrow> ServerHelloKeyShare \<Rightarrow> bytes" where
  "hello_message rnd sid cs ks =
    (let body = [3, 3] @ rnd @ hello_tail sid cs ks in [2] @ nat_be 3 (length body) @ body)"

lemma length_hello_tail [simp]:
  "length (hello_tail sid cs ks) = 18 + length sid + length cs + length (key_exchange ks)"
  by (simp add: hello_tail_def Let_def)

lemma nat_be_3_of_4: "drop (Suc 0) (nat_be 4 v) = nat_be 3 v"
  by (simp add: nat_be_def nat_le_4 eval_nat_numeral del: nat_le.simps(2))
     (simp add: numeral_3_eq_3)

lemma length_hello_message:
  "length rnd = 32 \<Longrightarrow> length cs = 2 \<Longrightarrow>
   length (hello_message rnd sid cs ks) = 58 + length sid + length (key_exchange ks)"
  by (simp add: hello_message_def Let_def)

lemma build_record_response:
  assumes "hello_fits sid cs ks"
  shows "build_record (response_builder sid cs ks) =
     [0x16, 3, 3] @ nat_be 2 (58 + length sid + length (key_exchange ks))
     @ hello_message (replicate 32 0) sid (if cs = [0, 0] then TLS_AES_128_GCM_SHA256 else cs) ks"
proof -
  let ?cs = "if cs = [0, 0] then TLS_AES_128_GCM_SHA256 else cs"
  have cs: "length ?cs = 2" using assms by (simp add: hello_fits_def TLS_AES_128_GCM_SHA256_def)
  have "build_message (response_builder sid cs ks) = hello_message (replicate 32 0) sid ?cs ks"
    using assms cs
    by (simp add: build_message_def response_builder_fields hello_message_def nat_be_3_of_4 Let_def
        try_from_def TLS_VERSION_def hello_fits_def hello_tail_def)
  moreover have "length (hello_message (replicate 32 0) sid ?cs ks) = 58 + length sid + length (key_exchange ks)"
    using cs by (simp add: length_hello_message)
  moreover have "hello_message (replicate 32 0) sid ?cs ks \<noteq> []"
    by (simp add: hello_message_def Let_def)
  ultimately show ?thesis
    using assms by (simp add: build_record_def Let_def try_from_def tls_consts hello_fits_def)
qed

text \<open>Overwriting the range 11..43 of the response is choosing the random of the message.\<close>

lemma hello_message_split:
  "length rnd = 32 \<Longrightarrow> hello_message rnd sid cs ks =
     ([2] @ nat_be 3 (34 + length (hello_tail sid cs ks)) @ [3, 3]) @ rnd @ hello_tail sid cs ks"
  by (simp add: hello_message_def Let_def)

lemma splice_hello:
  assumes "length d = 32" "length e = 32" "length l = 2"
  shows "splice ([0x16, 3, 3] @ l @ hello_message e sid cs ks @ rest) 11 d =
     Some ([0x16, 3, 3] @ l @ hello_message d sid cs ks @ rest)"
  using assms splice_mid [of "[0x16, 3, 3] @ l @ [2] @ nat_be 3 (34 + length (hello_tail sid cs ks)) @ [3, 3]"
      11 e d "hello_tail sid cs ks @ rest"]
  by (simp add: hello_message_split)

lemma take_drop_hello:
  assumes "length d = 32" "length l = 2"
  shows "take 32 (drop 11 ([0x16, 3, 3] @ l @ hello_message d sid cs ks @ rest)) = d"
  using assms take_drop_mid [of "[0x16, 3, 3] @ l @ [2] @ nat_be 3 (34 + length (hello_tail sid cs ks)) @ [3, 3]"
      11 d 32 "hello_tail sid cs ks @ rest"]
  by (simp add: hello_message_split del: take_append drop_append)

subsection \<open>The response\<close>

text \<open>The response before the digest is written.\<close>

lemma response_shape:
  assumes "range_ok ops"
  obtains cert bodies st' where
    "build_server_hello_with_cipher hm secret client_digest sid fake_cert_len ops cs ks alpn n st =
       (let resp = build_record (response_builder sid cs ks) @ change_cipher_spec @ app_record cert
              @ concat (map app_record bodies)
        in (splice resp 11 (sha256_hmac hm secret (client_digest @ resp)), st'))"
    "length cert = max 64 (min 16640 fake_cert_len)" "length bodies = min n 4"
    "list_all (\<lambda>b. 48 \<le> length b \<and> length b < 96) bodies"
proof -
  let ?n = "max 64 (min 16640 fake_cert_len)"
  obtain cert st1 where c: "rng_bytes ops ?n st = (cert, st1)" by fastforce
  obtain ts st2 where t: "gen_tickets ops (min n 4) st1 = (ts, st2)" by fastforce
  obtain bodies where b: "ts = map app_record bodies" "length bodies = min n 4"
      "list_all (\<lambda>b. 48 \<le> length b \<and> length b < 96) bodies"
    using gen_tickets_props [OF assms t] by blast
  have len: "length cert = ?n" using length_rng_bytes [of ops ?n st] c by simp
  have t': "(if 0 < min n 4 then gen_tickets ops (min n 4) st1 else ([], st1)) = (ts, st2)"
    using t by (cases "min n 4") auto
  have cap: "MAX_TLS_CIPHERTEXT_SIZE = 16640" by (simp add: MAX_TLS_CIPHERTEXT_SIZE_def)
  have a: "[TLS_RECORD_APPLICATION] @ TLS_VERSION @ nat_be 2 (?n mod 65536) @ cert = app_record cert"
    using len by (simp add: app_record_def)
  have pos: "0 < ?n" by simp
  show thesis
  proof (rule that [OF _ len b(2,3)])
    show "build_server_hello_with_cipher hm secret client_digest sid fake_cert_len ops cs ks alpn n st =
       (let resp = build_record (response_builder sid cs ks) @ change_cipher_spec @ app_record cert
              @ concat (map app_record bodies)
        in (splice resp 11 (sha256_hmac hm secret (client_digest @ resp)), st2))"
      unfolding build_server_hello_with_cipher_def cap Let_def if_P [OF pos] c prod.case t' a b(1)
        response_builder_def TLS_DIGEST_POS_def ..
  qed
qed

lemma nat_be_3: "nat_be 3 v = [of_nat (v div 256 div 256), of_nat (v div 256), of_nat v]"
  by (simp add: nat_be_def numeral_3_eq_3)

lemma validate_structure_hello:
  assumes "length d = 32" "length cs = 2" "length sid + length (key_exchange ks) \<le> 65400"
  shows "validate_server_hello_structure ([0x16, 3, 3] @ nat_be 2 (58 + length sid + length (key_exchange ks))
     @ hello_message d sid cs ks @ rest) = Some (Inr ())"
proof -
  define n where "n = 54 + length sid + length (key_exchange ks)"
  obtain a b c where abc: "nat_be 3 n = [a, b, c]" by (simp add: nat_be_3)
  have "be_nat [0, a, b, c] = be_nat (nat_be 3 n)" by (simp add: abc be_nat_def)
  also have "\<dots> = n" using assms by (simp add: n_def)
  finally have n: "be_nat [0, a, b, c] = n" .
  obtain l m where lm: "nat_be 2 (n + 4) = [l, m]" by (simp add: nat_be_2)
  have lm': "be16 l m = n + 4"
    using be16_of_nat [of "n + 4"] assms lm by (simp add: nat_be_2 n_def del: of_nat_add be16_of_nat)
  have "hello_message d sid cs ks = 2 # a # b # c # 3 # 3 # d @ hello_tail sid cs ks"
    using assms abc by (simp add: hello_message_split n_def add.assoc)
  moreover have "58 + length sid + length (key_exchange ks) = n + 4" by (simp add: n_def)
  ultimately have eq: "[0x16, 3, 3] @ nat_be 2 (58 + length sid + length (key_exchange ks)) @ hello_message d sid cs ks @ rest
      = [0x16, 3, 3, l, m, 2, a, b, c, 3, 3] @ (d @ hello_tail sid cs ks @ rest)"
    by (simp only: lm append.simps append_assoc)
  have "n \<le> length (d @ hello_tail sid cs ks @ rest) + 2"
    using assms by (simp add: n_def)
  then show ?thesis
    unfolding eq using n lm' by (simp add: validate_server_hello_structure_def idx_def slice_def tls_consts)
qed

lemma with_cipher_response:
  assumes "range_ok ops" "hello_fits sid cs ks"
  shows "\<exists>resp st' digest cert bodies.
    build_server_hello_with_cipher hm secret client_digest sid fake_cert_len ops cs ks alpn n st = (Some resp, st') \<and>
    tls_records resp = Some ((0x16, hello_message digest sid (if cs = [0, 0] then TLS_AES_128_GCM_SHA256 else cs) ks)
        # (0x14, [1]) # (0x17, cert) # map (Pair 0x17) bodies) \<and>
    length cert = max 64 (min 16640 fake_cert_len) \<and> length bodies = min n 4 \<and>
    list_all (\<lambda>b. 48 \<le> length b \<and> length b < 96) bodies \<and>
    server_digest_ok hm secret client_digest resp \<and>
    validate_server_hello_structure resp = Some (Inr ())"
proof -
  obtain cert bodies st' where r:
    "build_server_hello_with_cipher hm secret client_digest sid fake_cert_len ops cs ks alpn n st =
       (let resp = build_record (response_builder sid cs ks) @ change_cipher_spec @ app_record cert
              @ concat (map app_record bodies)
        in (splice resp 11 (sha256_hmac hm secret (client_digest @ resp)), st'))"
    "length cert = max 64 (min 16640 fake_cert_len)" "length bodies = min n 4"
    "list_all (\<lambda>b. 48 \<le> length b \<and> length b < 96) bodies"
    by (rule response_shape [OF assms(1)])
  define cs' where "cs' = (if cs = [0, 0] then TLS_AES_128_GCM_SHA256 else cs)"
  define l where "l = nat_be 2 (58 + length sid + length (key_exchange ks))"
  define rest where "rest = change_cipher_spec @ app_record cert @ concat (map app_record bodies)"
  define d where "d = sha256_hmac hm secret (client_digest @ [0x16, 3, 3] @ l @ hello_message (replicate 32 0) sid cs' ks @ rest)"
  define resp where "resp = [0x16, 3, 3] @ l @ hello_message d sid cs' ks @ rest"
  have len: "length d = 32" "length l = 2" "length cs' = 2"
    using assms by (simp_all add: d_def l_def cs'_def hello_fits_def TLS_AES_128_GCM_SHA256_def)
  have out: "build_server_hello_with_cipher hm secret client_digest sid fake_cert_len ops cs ks alpn n st = (Some resp, st')"
    using r(1) len splice_hello [of d "replicate 32 0" l sid cs' ks rest]
    by (simp add: build_record_response [OF assms(2), folded cs'_def l_def] resp_def rest_def d_def Let_def)
  have "length (hello_message d sid cs' ks) = 58 + length sid + length (key_exchange ks)"
    using len by (simp add: length_hello_message)
  then have "tls_records resp = Some ((0x16, hello_message d sid cs' ks) # (0x14, [1]) # (0x17, cert) # map (Pair 0x17) bodies)"
    using assms(2) r(2,4) tls_records_record [of "hello_message d sid cs' ks" "0x16" rest]
    by (simp add: resp_def l_def rest_def tls_records_ccs tls_records_app_record tls_records_tickets hello_fits_def)
  moreover have "server_digest_ok hm secret client_digest resp"
    using splice_hello [of "replicate 32 0" d l sid cs' ks rest] take_drop_hello [of d l sid cs' ks rest] len
    by (simp add: server_digest_ok_def resp_def TLS_DIGEST_POS_def TLS_DIGEST_LEN_def) (simp add: d_def)
  moreover have "validate_server_hello_structure resp = Some (Inr ())"
    using validate_structure_hello [of d cs' sid ks rest] len assms(2)
    by (simp add: resp_def l_def hello_fits_def)
  ultimately show ?thesis using out r(2-4) unfolding cs'_def by blast
qed

text \<open>C19.
  The response to an authenticated client is a well-formed TLS flight that the client can verify.
  For a session id of at most 255 bytes and a key share that fits its length field, and a
  generator whose bounded draws are in range, the builder returns a response that the record
  parser splits into exactly: a handshake record with a ServerHello (session id echoed, chosen
  suite, key share and TLS 1.3 version as extensions), a ChangeCipherSpec record, one application
  record of the clamped certificate length and as many ticket records of 48 to 95 bytes as were
  asked for, at most four.  Its digest field is the HMAC, under the user's secret, of the client
  digest and the response with that field zeroed, and the structure check accepts it.
\<close>

theorem build_server_hello_response:
  assumes "range_ok ops" "hello_fits sid cs ks"
  shows "\<exists>resp st' digest cert bodies.
    build_server_hello_with_cipher hm secret client_digest sid fake_cert_len ops cs ks alpn n st = (Some resp, st') \<and>
    tls_records resp = Some ((0x16, hello_message digest sid (if cs = [0, 0] then TLS_AES_128_GCM_SHA256 else cs) ks)
        # (0x14, [1]) # (0x17, cert) # map (Pair 0x17) bodies) \<and>
    length cert = max 64 (min 16640 fake_cert_len) \<and> length bodies = min n 4 \<and>
    list_all (\<lambda>b. 48 \<le> length b \<and> length b < 96) bodies \<and>
    server_digest_ok hm secret client_digest resp \<and>
    validate_server_hello_structure resp = Some (Inr ())"
  using assms by (rule with_cipher_response)


theorem build_server_hello_response_witness:
  "range_ok demo_ops \<and> hello_fits [7, 8] [0x13, 0x03] \<lparr>ks_group = 0x1d, key_exchange = replicate 32 5\<rparr> \<and>
   (\<exists>resp st' digest cert bodies.
    build_server_hello_with_cipher (\<lambda>k d i. of_nat (i + length d)) [1] [2] [7, 8] 100 demo_ops [0x13, 0x03]
      \<lparr>ks_group = 0x1d, key_exchange = replicate 32 5\<rparr> None 2 demo_rng = (Some resp, st') \<and>
    tls_records resp = Some ((0x16, hello_message digest [7, 8] [0x13, 0x03] \<lparr>ks_group = 0x1d, key_exchange = replicate 32 5\<rparr>)
        # (0x14, [1]) # (0x17, cert) # map (Pair 0x17) bodies) \<and>
    length cert = 100 \<and> length bodies = 2 \<and>
    server_digest_ok (\<lambda>k d i. of_nat (i + length d)) [1] [2] resp)"
proof -
  have f: "hello_fits [7, 8] [0x13, 0x03] \<lparr>ks_group = 0x1d, key_exchange = replicate 32 5\<rparr>"
    by (simp add: hello_fits_def)
  have c: "(if [0x13, 0x03 :: byte] = [0, 0] then TLS_AES_128_GCM_SHA256 else [0x13, 0x03]) = [0x13, 0x03]"
    by simp
  have n: "max 64 (min 16640 (100 :: nat)) = 100" "min 2 4 = (2 :: nat)" by simp_all
  show ?thesis
    using f build_server_hello_response [OF demo_ops_range_ok f, of "\<lambda>k d i. of_nat (i + length d)" "[1]" "[2]" 100 None 2 demo_rng]
    unfolding c n by (intro conjI demo_ops_range_ok f) blast
qed

lemma length_gen_fake_x25519_key [simp]: "length (fst (gen_fake_x25519_key kx ops st)) = 32"
  by (simp add: gen_fake_x25519_key_def gen_x25519_key_pair_def x25519_def split: prod.splits)

lemma gen_fake_mlkem_share:
  "\<exists>ks. fst (gen_fake_x25519mlkem768_server_key_share kx ops st) = Some ks \<and> length ks = 1120"
proof -
  obtain ct st1 where f: "fill ops 1088 st = (ct, st1)" by fastforce
  obtain k st2 where g: "gen_fake_x25519_key kx ops st1 = (k, st2)" by fastforce
  have "length ct = 1088" "length k = 32"
    using length_fill [of ops 1088 st] length_gen_fake_x25519_key [of kx ops st1] f g by simp_all
  then show ?thesis
    using f g by (simp add: gen_fake_x25519mlkem768_server_key_share_def splice_def
        MLKEM768_SERVER_CIPHERTEXT_LEN_def X25519MLKEM768_SERVER_KEY_SHARE_LEN_def)
qed

lemma build_with_cipher_no_panic:
  "fst (build_server_hello_with_cipher hm secret client_digest sid fake_cert_len ops cs ks alpn n st) \<noteq> None"
  by (auto simp: build_server_hello_with_cipher_def Let_def splice_def tls_consts change_cipher_spec_def
      rng_bytes_def split: prod.splits if_splits dest!: arg_cong [where f = "length \<circ> fst"])

text \<open>
  Building the response never panics, whatever the secret, the digest, the session id, the key
  share, the requested certificate length and the number of tickets: the range of the digest is
  inside the response even when the ServerHello does not fit and is left out.
\<close>

theorem build_server_hello_no_panic:
  "fst (build_server_hello_with_cipher hm secret client_digest sid fake_cert_len ops cs ks alpn n st) \<noteq> None \<and>
   fst (build_server_hello hm kx secret client_digest sid fake_cert_len ops alpn n st) \<noteq> None"
proof
  obtain key st1 where "gen_fake_x25519mlkem768_server_key_share kx ops st = (Some key, st1)"
    using gen_fake_mlkem_share [of kx ops st] by (metis prod.collapse)
  then show "fst (build_server_hello hm kx secret client_digest sid fake_cert_len ops alpn n st) \<noteq> None"
    using build_with_cipher_no_panic by (simp add: build_server_hello_def)
qed (rule build_with_cipher_no_panic)

end
