(* ===== verification/Tls_Validate.thy ===== *)
theory Tls_Validate
  imports Tls_Server
begin

text \<open>
  Authentication of a ClientHello (\<open>src/protocol/tls.rs\<close>, \<open>validate_tls_handshake*\<close>): the digest
  in the random field against the HMAC of every configured secret, the timestamp hidden in its
  last four bytes, the clock-skew window and the bounded boot-time exception.

  The clock is a parameter: \<open>Some n\<close> when it reads \<open>n\<close> seconds after the epoch, \<^term>\<open>None\<close> when
  it reads a time before it.  \<open>now - i64::from(timestamp)\<close> outside the range of \<open>i64\<close> counts as a panic.
\<close>

section \<open>Model\<close>

definition TIME_SKEW_MIN :: int where "TIME_SKEW_MIN = - 2 * 60"
definition TIME_SKEW_MAX :: int where "TIME_SKEW_MAX = 2 * 60"
definition BOOT_TIME_MAX_SECS :: nat where "BOOT_TIME_MAX_SECS = 7 * 24 * 60 * 60"
definition BOOT_TIME_COMPAT_MAX_SECS :: nat where "BOOT_TIME_COMPAT_MAX_SECS = 2 * 60"

record TlsValidation =
  tv_user :: bytes
  tv_session_id :: bytes
  tv_digest :: bytes
  tv_timestamp :: nat

text \<open>Whether the timestamp is in the window; the subtraction is the only step that can overflow.\<close>

definition skew_ok :: "bool \<Rightarrow> int \<Rightarrow> nat \<Rightarrow> nat \<Rightarrow> bool rs" where
  "skew_ok ignore_time_skew now boot_time_cap_secs timestamp =
    (if \<not> ignore_time_skew then
       let is_boot_time = (boot_time_cap_secs > 0 \<and> timestamp < boot_time_cap_secs) in
       if \<not> is_boot_time then
         let time_diff = now - int timestamp in
         if time_diff < I64_MIN then None
         else Some (TIME_SKEW_MIN \<le> time_diff \<and> time_diff \<le> TIME_SKEW_MAX)
       else Some True
     else Some True)"

fun match_secrets where
  "match_secrets hm digest msg ignore_time_skew now boot_time_cap_secs [] first_match = Some first_match"
| "match_secrets hm digest msg ignore_time_skew now boot_time_cap_secs ((user, secret) # secrets) first_match =
    (let computed = sha256_hmac hm secret msg in
     do { d \<leftarrow> slice digest 0 28; c \<leftarrow> slice computed 0 28;
          if d \<noteq> c then match_secrets hm digest msg ignore_time_skew now boot_time_cap_secs secrets first_match
          else do {
            d0 \<leftarrow> idx digest 28; d1 \<leftarrow> idx digest 29; d2 \<leftarrow> idx digest 30; d3 \<leftarrow> idx digest 31;
            c0 \<leftarrow> idx computed 28; c1 \<leftarrow> idx computed 29; c2 \<leftarrow> idx computed 30; c3 \<leftarrow> idx computed 31;
            let timestamp = le_nat [d0 XOR c0, d1 XOR c1, d2 XOR c2, d3 XOR c3] in
            do { ok \<leftarrow> skew_ok ignore_time_skew now boot_time_cap_secs timestamp;
                 match_secrets hm digest msg ignore_time_skew now boot_time_cap_secs secrets
                   (if ok \<and> first_match = None then Some (user, timestamp) else first_match) } } })"

definition validate_tls_handshake_at_time_with_boot_cap where
  "validate_tls_handshake_at_time_with_boot_cap hm handshake secrets ignore_time_skew now boot_time_cap_secs =
    (if length handshake < TLS_DIGEST_POS + TLS_DIGEST_LEN + 1 then Some None
     else do {
       digest \<leftarrow> slice handshake TLS_DIGEST_POS (TLS_DIGEST_POS + TLS_DIGEST_LEN);
       let session_id_len_pos = TLS_DIGEST_POS + TLS_DIGEST_LEN in
       case idx handshake session_id_len_pos of
         None \<Rightarrow> Some None
       | Some b \<Rightarrow>
         let session_id_len = unat b in
         if 32 < session_id_len then Some None
         else
           let session_id_start = session_id_len_pos + 1 in
           if length handshake < session_id_start + session_id_len then Some None
           else do {
             session_id \<leftarrow> slice handshake session_id_start (session_id_start + session_id_len);
             msg \<leftarrow> splice handshake TLS_DIGEST_POS (replicate TLS_DIGEST_LEN 0);
             first_match \<leftarrow> match_secrets hm digest msg ignore_time_skew now boot_time_cap_secs secrets None;
             Some (map_option (\<lambda>(user, timestamp).
               \<lparr>tv_user = user, tv_session_id = session_id, tv_digest = digest, tv_timestamp = timestamp\<rparr>)
               first_match) } })"

definition validate_tls_handshake_at_time where
  "validate_tls_handshake_at_time hm handshake secrets ignore_time_skew now =
     validate_tls_handshake_at_time_with_boot_cap hm handshake secrets ignore_time_skew now BOOT_TIME_MAX_SECS"

definition system_time_to_unix_secs :: "nat option \<Rightarrow> int option" where
  "system_time_to_unix_secs clock =
    (case clock of None \<Rightarrow> None | Some secs \<Rightarrow> if int secs \<le> I64_MAX then Some (int secs) else None)"

definition validate_tls_handshake_with_replay_window where
  "validate_tls_handshake_with_replay_window hm clock handshake secrets ignore_time_skew replay_window_secs =
    (case (if \<not> ignore_time_skew then system_time_to_unix_secs clock else Some 0) of
       None \<Rightarrow> Some None
     | Some now \<Rightarrow>
       let replay_window_u32 = (case try_from U32_MAX replay_window_secs of Some w \<Rightarrow> w | None \<Rightarrow> U32_MAX);
           boot_time_cap_secs = (if ignore_time_skew then 0
             else min (min BOOT_TIME_MAX_SECS replay_window_u32) BOOT_TIME_COMPAT_MAX_SECS)
       in validate_tls_handshake_at_time_with_boot_cap hm handshake secrets ignore_time_skew now boot_time_cap_secs)"

definition validate_tls_handshake where
  "validate_tls_handshake hm clock handshake secrets ignore_time_skew =
     validate_tls_handshake_with_replay_window hm clock handshake secrets ignore_time_skew BOOT_TIME_MAX_SECS"

section \<open>Specification\<close>

definition client_digest :: "bytes \<Rightarrow> bytes" where
  "client_digest h = take 32 (drop 11 h)"

definition zeroed :: "bytes \<Rightarrow> bytes" where
  "zeroed h = take 11 h @ replicate 32 0 @ drop 43 h"

definition session_id_of :: "bytes \<Rightarrow> bytes" where
  "session_id_of h = take (unat (h ! 43)) (drop 44 h)"

definition hello_long_enough :: "bytes \<Rightarrow> bool" where
  "hello_long_enough h \<longleftrightarrow> 44 \<le> length h \<and> unat (h ! 43) \<le> 32 \<and> 44 + unat (h ! 43) \<le> length h"

text \<open>The first 28 bytes of the digest authenticate; the last four carry the masked timestamp.\<close>

definition authentic where
  "authentic hm h secret \<longleftrightarrow> take 28 (client_digest h) = take 28 (sha256_hmac hm secret (zeroed h))"

definition hidden_timestamp where
  "hidden_timestamp hm h secret =
     le_nat (map2 (XOR) (drop 28 (client_digest h)) (drop 28 (sha256_hmac hm secret (zeroed h))))"

definition fresh :: "bool \<Rightarrow> int \<Rightarrow> nat \<Rightarrow> nat \<Rightarrow> bool" where
  "fresh ignore_skew now cap ts \<longleftrightarrow> ignore_skew \<or> ts < cap \<or> \<bar>now - int ts\<bar> \<le> 120"

definition accepted_user where
  "accepted_user hm h secrets ign now cap =
     find (\<lambda>(user, secret). authentic hm h secret \<and> fresh ign now cap (hidden_timestamp hm h secret)) secrets"

definition validation_spec where
  "validation_spec hm h secrets ign now cap =
    (if hello_long_enough h
     then map_option (\<lambda>(user, secret). \<lparr>tv_user = user, tv_session_id = session_id_of h,
            tv_digest = client_digest h, tv_timestamp = hidden_timestamp hm h secret\<rparr>)
          (accepted_user hm h secrets ign now cap)
     else None)"

lemma skew_ok_fresh:
  "I64_MIN + int U32_MAX \<le> now \<Longrightarrow> ts \<le> U32_MAX \<Longrightarrow> skew_ok ign now cap ts = Some (fresh ign now cap ts)"
  by (auto simp: skew_ok_def fresh_def Let_def TIME_SKEW_MIN_def TIME_SKEW_MAX_def abs_le_iff)

lemma drop28_32:
  assumes "length xs = 32"
  shows "drop 28 xs = [xs ! 28, xs ! 29, xs ! 30, xs ! 31]"
proof -
  have "drop 28 xs = xs ! 28 # drop 29 xs" "drop 29 xs = xs ! 29 # drop 30 xs"
    "drop 30 xs = xs ! 30 # drop 31 xs" "drop 31 xs = xs ! 31 # drop 32 xs"
    using assms by (simp_all add: Cons_nth_drop_Suc [symmetric])
  then show ?thesis using assms by simp
qed

lemma hidden_timestamp_bound: "length h \<ge> 43 \<Longrightarrow> hidden_timestamp hm h s \<le> U32_MAX"
  using le_nat_bound [of "map2 (XOR) (drop 28 (client_digest h)) (drop 28 (sha256_hmac hm s (zeroed h)))"]
  by (simp add: hidden_timestamp_def client_digest_def)

lemma accepted_user_simps [simp]:
  "accepted_user hm h [] ign now cap = None"
  "accepted_user hm h ((user, secret) # secrets) ign now cap =
    (if authentic hm h secret \<and> fresh ign now cap (hidden_timestamp hm h secret) then Some (user, secret)
     else accepted_user hm h secrets ign now cap)"
  by (simp_all add: accepted_user_def)

lemma match_secrets_spec:
  assumes "43 \<le> length h" "I64_MIN + int U32_MAX \<le> now"
  shows "match_secrets hm (client_digest h) (zeroed h) ign now cap secrets fm =
    Some (case fm of Some m \<Rightarrow> Some m
      | None \<Rightarrow> map_option (\<lambda>(user, secret). (user, hidden_timestamp hm h secret))
                 (accepted_user hm h secrets ign now cap))"
proof (induction secrets arbitrary: fm)
  case Nil
  then show ?case by (simp split: option.splits)
next
  case (Cons us secrets)
  obtain user secret where us: "us = (user, secret)" by fastforce
  let ?d = "client_digest h" and ?c = "sha256_hmac hm secret (zeroed h)"
  have len: "length ?d = 32" using assms by (simp add: client_digest_def)
  have ts: "le_nat [?d ! 28 XOR ?c ! 28, ?d ! 29 XOR ?c ! 29, ?d ! 30 XOR ?c ! 30, ?d ! 31 XOR ?c ! 31]
      = hidden_timestamp hm h secret"
    by (simp add: hidden_timestamp_def drop28_32 [OF len] drop28_32)
  have sk: "skew_ok ign now cap (hidden_timestamp hm h secret) = Some (fresh ign now cap (hidden_timestamp hm h secret))"
    using assms hidden_timestamp_bound by (intro skew_ok_fresh) auto
  show ?case
  proof (cases "authentic hm h secret")
    case True
    then show ?thesis
      using len Cons.IH by (simp add: us Let_def ts [simplified] sk authentic_def [symmetric] split: option.splits)
  next
    case False
    then show ?thesis
      using len Cons.IH by (simp add: us Let_def authentic_def [symmetric] split: option.splits)
  qed
qed

lemma validate_boot_cap_spec:
  assumes "I64_MIN + int U32_MAX \<le> now"
  shows "validate_tls_handshake_at_time_with_boot_cap hm h secrets ign now cap =
     Some (validation_spec hm h secrets ign now cap)"
proof (cases "44 \<le> length h")
  case True
  then show ?thesis
    using match_secrets_spec [of h now hm ign cap secrets None] assms
    by (auto simp: validate_tls_handshake_at_time_with_boot_cap_def validation_spec_def hello_long_enough_def
        TLS_DIGEST_POS_def TLS_DIGEST_LEN_def Let_def client_digest_def zeroed_def session_id_of_def
        slice_def option.map_comp comp_def split_def)
next
  case False
  then show ?thesis
    by (auto simp: validate_tls_handshake_at_time_with_boot_cap_def validation_spec_def hello_long_enough_def
        TLS_DIGEST_POS_def TLS_DIGEST_LEN_def)
qed

text \<open>The bounds of the boot-time exception collapse to the smaller of the window and two minutes.\<close>

lemma boot_cap:
  "min (min BOOT_TIME_MAX_SECS (case try_from U32_MAX w of Some w \<Rightarrow> w | None \<Rightarrow> U32_MAX))
     BOOT_TIME_COMPAT_MAX_SECS = min w 120"
  by (auto simp: BOOT_TIME_MAX_SECS_def BOOT_TIME_COMPAT_MAX_SECS_def try_from_def)

lemma validate_window_spec:
  "validate_tls_handshake_with_replay_window hm clock h secrets ign w =
    Some (if ign then validation_spec hm h secrets True 0 0
          else case clock of None \<Rightarrow> None
            | Some n \<Rightarrow> if int n \<le> I64_MAX then validation_spec hm h secrets False (int n) (min w 120) else None)"
proof (cases ign)
  case True
  then show ?thesis
    by (simp add: validate_tls_handshake_with_replay_window_def validate_boot_cap_spec)
next
  case False
  then show ?thesis
    using boot_cap [of w]
    by (auto simp: validate_tls_handshake_with_replay_window_def system_time_to_unix_secs_def Let_def
        validate_boot_cap_spec split: option.split)
qed

section \<open>Properties\<close>

text \<open>C16.
  Validating a ClientHello never panics and decides exactly this: the hello is long enough for
  its digest and a session id of at most 32 bytes, and some configured secret reproduces the
  first 28 bytes of the digest as the HMAC of the hello with the digest zeroed and has a fresh
  timestamp in the last four.  The first such user in configuration order is returned with the
  session id, the digest and the timestamp.  Fresh means within two minutes of the clock, or
  below the smaller of the replay window and two minutes; with skew checks off the clock is not
  consulted, and otherwise an unreadable clock rejects.
\<close>

theorem validate_tls_handshake_correct:
  "validate_tls_handshake_with_replay_window hm clock h secrets ign w =
    Some (if ign then validation_spec hm h secrets True 0 0
          else case clock of None \<Rightarrow> None
            | Some n \<Rightarrow> if int n \<le> I64_MAX then validation_spec hm h secrets False (int n) (min w 120) else None)
   \<and> validate_tls_handshake hm clock h secrets ign =
       validate_tls_handshake_with_replay_window hm clock h secrets ign 604800"
proof -
  have "BOOT_TIME_MAX_SECS = 604800" by (simp add: BOOT_TIME_MAX_SECS_def)
  then show ?thesis by (simp only: validate_window_spec validate_tls_handshake_def simp_thms)
qed

text \<open>What a client does: overwrite the random with its digest for the time \<open>ts\<close>.\<close>

definition stamp_hello where
  "stamp_hello hm secret ts h =
    (let c = sha256_hmac hm secret (zeroed h)
     in take 11 h @ take 28 c @ map2 (XOR) (drop 28 c) (nat_le 4 ts) @ drop 43 h)"

lemma stamp_hello_parts:
  assumes "43 \<le> length h"
  shows "zeroed (stamp_hello hm s ts h) = zeroed h"
    and "client_digest (stamp_hello hm s ts h) =
      take 28 (sha256_hmac hm s (zeroed h)) @ map2 (XOR) (drop 28 (sha256_hmac hm s (zeroed h))) (nat_le 4 ts)"
    and "length (stamp_hello hm s ts h) = length h"
    and "drop 43 (stamp_hello hm s ts h) = drop 43 h"
  using assms by (simp_all add: zeroed_def stamp_hello_def client_digest_def Let_def)

lemma map2_xor_cancel:
  "length xs = length ys \<Longrightarrow> map2 (XOR) (map2 (XOR) xs ys) xs = (ys :: byte list)"
  by (induction xs ys rule: list_induct2) (simp_all add: xor.commute [of _ "a :: byte" for a] xor.left_commute)

lemma stamp_hello_authentic:
  assumes "43 \<le> length h" "ts \<le> U32_MAX"
  shows "authentic hm (stamp_hello hm s ts h) s" "hidden_timestamp hm (stamp_hello hm s ts h) s = ts"
  using assms
  by (simp_all add: authentic_def hidden_timestamp_def stamp_hello_parts map2_xor_cancel)

lemma stamp_hello_session:
  assumes "hello_long_enough h"
  shows "hello_long_enough (stamp_hello hm s ts h)" "session_id_of (stamp_hello hm s ts h) = session_id_of h"
proof -
  have len: "44 \<le> length h" using assms by (simp add: hello_long_enough_def)
  have d: "drop 43 (stamp_hello hm s ts h) = drop 43 h" and l: "length (stamp_hello hm s ts h) = length h"
    using len by (simp_all add: stamp_hello_parts)
  have n: "stamp_hello hm s ts h ! 43 = h ! 43"
    using d l len by (metis nth_via_drop Cons_nth_drop_Suc Suc_le_eq eval_nat_numeral(2,3) semiring_norm(26,27,28))
  have "drop 44 (stamp_hello hm s ts h) = drop 44 h"
    using arg_cong [OF d, of "drop 1"] by simp
  with n l assms show "hello_long_enough (stamp_hello hm s ts h)"
      "session_id_of (stamp_hello hm s ts h) = session_id_of h"
    by (simp_all add: hello_long_enough_def session_id_of_def)
qed

lemma accepted_user_append:
  "\<forall>(u, s)\<in>set pre. \<not> authentic hm h s \<Longrightarrow>
   accepted_user hm h (pre @ rest) ign now cap = accepted_user hm h rest ign now cap"
  by (induction pre) auto

text \<open>C17.
  A client that knows its secret is let in.  Take any ClientHello long enough to carry a digest
  and a session id, stamp it with the secret of user \<open>u\<close> and a time \<open>ts\<close> that is fresh for the
  server's clock, and let no user listed earlier match it by accident: validation returns user
  \<open>u\<close>, the hello's own session id and exactly the time \<open>ts\<close>.
\<close>

theorem validate_accepts_stamped_hello:
  assumes "hello_long_enough h" "ts \<le> U32_MAX" "int n \<le> I64_MAX"
    and "fresh False (int n) (min w 120) ts"
    and "\<forall>(u', s')\<in>set pre. \<not> authentic hm (stamp_hello hm s ts h) s'"
  shows "validate_tls_handshake_with_replay_window hm (Some n) (stamp_hello hm s ts h)
      (pre @ (u, s) # post) False w =
    Some (Some \<lparr>tv_user = u, tv_session_id = session_id_of h,
      tv_digest = client_digest (stamp_hello hm s ts h), tv_timestamp = ts\<rparr>)"
proof -
  have "43 \<le> length h" using assms(1) by (simp add: hello_long_enough_def)
  then show ?thesis
    using assms
    by (simp add: validate_window_spec validation_spec_def stamp_hello_session stamp_hello_authentic
        accepted_user_append)
qed

theorem validate_accepts_stamped_hello_witness:
  "hello_long_enough (replicate 60 0) \<and>
   validate_tls_handshake_with_replay_window (\<lambda>k d i. of_nat (i + length k)) (Some 1700000000)
     (stamp_hello (\<lambda>k d i. of_nat (i + length k)) [1, 2] 1700000042 (replicate 60 0))
     ([([97], [1])] @ ([98], [1, 2]) # []) False 0 =
    Some (Some \<lparr>tv_user = [98], tv_session_id = [],
      tv_digest = client_digest (stamp_hello (\<lambda>k d i. of_nat (i + length k)) [1, 2] 1700000042 (replicate 60 0)),
      tv_timestamp = 1700000042\<rparr>)"
proof -
  let ?hm = "\<lambda>k d i. of_nat (i + length k) :: byte"
  have l: "hello_long_enough (replicate 60 0)" by (simp add: hello_long_enough_def)
  have f: "fresh False (int 1700000000) (min 0 120) 1700000042" by (simp add: fresh_def)
  have n: "\<forall>(u', s')\<in>set [([97] :: bytes, [1])]. \<not> authentic ?hm (stamp_hello ?hm [1, 2] 1700000042 (replicate 60 0)) s'"
    by (simp add: authentic_def stamp_hello_parts sha256_hmac_def take_map upt_conv_Cons)
  have sid: "session_id_of (replicate 60 0) = []" by (simp add: session_id_of_def)
  show ?thesis
    using l validate_accepts_stamped_hello [OF l _ _ f n, of "[98]" "[]"] by (simp add: sid)
qed

text \<open>C18.
  Nothing stale or forged gets in.  When validation with skew checks returns a user, that user is
  configured with a secret whose HMAC over the zeroed hello has the digest's first 28 bytes, the
  returned timestamp is the one hidden under that secret, it is within two minutes of the clock or
  below both the replay window and two minutes, and the session id has at most 32 bytes.  With a
  replay window of zero the boot-time exception is closed altogether.
\<close>

theorem validate_rejects_stale:
  assumes "validate_tls_handshake_with_replay_window hm (Some n) h secrets False w = Some (Some v)"
  shows "(\<exists>s. (tv_user v, s) \<in> set secrets \<and> authentic hm h s \<and> tv_timestamp v = hidden_timestamp hm h s) \<and>
    (\<bar>int n - int (tv_timestamp v)\<bar> \<le> 120 \<or> tv_timestamp v < min w 120) \<and>
    length (tv_session_id v) \<le> 32 \<and> tv_digest v = take 32 (drop 11 h)"
proof -
  have l: "hello_long_enough h" and "validation_spec hm h secrets False (int n) (min w 120) = Some v"
    using assms by (auto simp: validate_window_spec validation_spec_def split: if_splits)
  then obtain u s where f: "accepted_user hm h secrets False (int n) (min w 120) = Some (u, s)"
      and v: "v = \<lparr>tv_user = u, tv_session_id = session_id_of h, tv_digest = client_digest h,
                   tv_timestamp = hidden_timestamp hm h s\<rparr>"
    by (auto simp: validation_spec_def)
  have "(u, s) \<in> set secrets \<and> authentic hm h s \<and> fresh False (int n) (min w 120) (hidden_timestamp hm h s)"
    using f unfolding accepted_user_def by (auto simp: find_Some_iff dest: nth_mem)
  then show ?thesis
    using v l by (auto simp: fresh_def session_id_of_def client_digest_def hello_long_enough_def)
qed

theorem validate_rejects_stale_witness:
  "\<exists>v. validate_tls_handshake_with_replay_window (\<lambda>k d i. 0) (Some 100) (replicate 44 0) [([97], [1])] False 0 = Some (Some v)
    \<and> \<bar>100 - int (tv_timestamp v)\<bar> \<le> 120"
proof -
  have h: "hidden_timestamp (\<lambda>k d i. 0) (replicate 44 0) [1] = 0"
    by (simp add: hidden_timestamp_def client_digest_def sha256_hmac_def map_replicate_const zip_replicate)
       (simp add: numeral_eq_Suc)
  obtain v where v: "validate_tls_handshake_with_replay_window (\<lambda>k d i. 0) (Some 100) (replicate 44 0) [([97], [1])] False 0
      = Some (Some v)"
    by (simp add: validate_window_spec validation_spec_def hello_long_enough_def authentic_def
        client_digest_def sha256_hmac_def take_map fresh_def h map_replicate_const)
  then show ?thesis using validate_rejects_stale [OF v] by auto
qed

end
