(* ===== verification/Std_Net.thy ===== *)
theory Std_Net
  imports Prelude
begin

text \<open>
  The parts of Rust's standard library on text that the parsers use: \<open>str::from_utf8\<close> (as the
  predicate \<open>utf8_valid\<close>), \<open>str::split\<close> on one character, and the address parser behind
  \<open>str::parse::<IpAddr>()\<close>.  Text is kept as its UTF-8 bytes; every comparison the callers make
  is with an ASCII character, for which the bytes decide.

  A parser takes the unread text and returns the value with what it leaves unread;
  \<open>read_atomically\<close> of the library (restore the position on failure) is the value
  \<^term>\<open>None\<close>, after which the caller goes on with the text it had.
\<close>

section \<open>UTF-8\<close>

abbreviation cont :: "byte \<Rightarrow> bool" where
  "cont b \<equiv> 128 \<le> unat b \<and> unat b \<le> 191"

fun utf8_valid :: "bytes \<Rightarrow> bool" where
  "utf8_valid [] = True"
| "utf8_valid (a # s) =
    (if unat a < 128 then utf8_valid s
     else if 194 \<le> unat a \<and> unat a \<le> 223
     then (case s of b # s' \<Rightarrow> cont b \<and> utf8_valid s' | _ \<Rightarrow> False)
     else if 224 \<le> unat a \<and> unat a \<le> 239
     then (case s of b # c # s' \<Rightarrow>
             cont b \<and> cont c \<and> (unat a = 224 \<longrightarrow> 160 \<le> unat b) \<and> (unat a = 237 \<longrightarrow> unat b \<le> 159) \<and> utf8_valid s'
           | _ \<Rightarrow> False)
     else if 240 \<le> unat a \<and> unat a \<le> 244
     then (case s of b # c # d # s' \<Rightarrow>
             cont b \<and> cont c \<and> cont d \<and> (unat a = 240 \<longrightarrow> 144 \<le> unat b) \<and> (unat a = 244 \<longrightarrow> unat b \<le> 143)
             \<and> utf8_valid s'
           | _ \<Rightarrow> False)
     else False)"

lemma utf8_valid_ascii: "list_all (\<lambda>b. unat b < 128) s \<Longrightarrow> utf8_valid s"
  by (induction s) auto

section \<open>Splitting at a character\<close>

fun split_at :: "byte \<Rightarrow> bytes \<Rightarrow> bytes list" where
  "split_at c [] = [[]]"
| "split_at c (b # s) =
    (if b = c then [] # split_at c s
     else (case split_at c s of w # ws \<Rightarrow> (b # w) # ws | [] \<Rightarrow> [[b]]))"

fun join_with :: "byte \<Rightarrow> bytes list \<Rightarrow> bytes" where
  "join_with c [] = []"
| "join_with c [w] = w"
| "join_with c (w # ws) = w @ c # join_with c ws"

lemma split_at_nonempty [simp]: "split_at c s \<noteq> []"
  by (induction s) (auto split: list.splits)

lemma join_with_split_at: "join_with c (split_at c s) = s"
proof (induction s)
  case (Cons b s)
  obtain w ws where "split_at c s = w # ws" by (metis list.exhaust split_at_nonempty)
  with Cons show ?case by (cases ws) auto
qed simp

lemma split_at_word: "c \<notin> set w \<Longrightarrow> split_at c w = [w]"
  by (induction w) auto

lemma split_at_append: "c \<notin> set w \<Longrightarrow> split_at c (w @ c # s) = w # split_at c s"
  by (induction w) auto

lemma split_at_join:
  "ws \<noteq> [] \<Longrightarrow> \<forall>w\<in>set ws. c \<notin> set w \<Longrightarrow> split_at c (join_with c ws) = ws"
  by (induction ws rule: join_with.induct) (auto simp: split_at_word split_at_append)

lemma split_at_all:
  "(\<forall>w\<in>set (split_at c s). \<forall>b\<in>set w. P b) = (\<forall>b\<in>set s. b = c \<or> P b)"
proof (induction s)
  case (Cons b s)
  obtain w ws where "split_at c s = w # ws" by (metis list.exhaust split_at_nonempty)
  with Cons show ?case by auto
qed simp

section \<open>Addresses\<close>

definition to_digit :: "nat \<Rightarrow> byte \<Rightarrow> nat option" where
  "to_digit radix b =
    (let n = unat b;
         d = if 48 \<le> n \<and> n \<le> 57 then n - 48
             else if 97 \<le> n \<and> n \<le> 122 then n - 87
             else if 65 \<le> n \<and> n \<le> 90 then n - 55 else radix
     in if d < radix then Some d else None)"

fun read_digits :: "nat \<Rightarrow> nat \<Rightarrow> nat \<Rightarrow> nat \<Rightarrow> bytes \<Rightarrow> (nat \<times> nat \<times> bytes) option" where
  "read_digits radix max_digits result count [] = Some (result, count, [])"
| "read_digits radix max_digits result count (b # s) =
    (case to_digit radix b of
       None \<Rightarrow> Some (result, count, b # s)
     | Some d \<Rightarrow> if max_digits < count + 1 then None
                 else read_digits radix max_digits (result * radix + d) (count + 1) s)"

text \<open>\<open>read_number\<close>; \<open>mx\<close> is the largest value of the target type.\<close>

definition read_number :: "nat \<Rightarrow> nat \<Rightarrow> bool \<Rightarrow> nat \<Rightarrow> bytes \<Rightarrow> (nat \<times> bytes) option" where
  "read_number radix max_digits allow_zero_prefix mx s =
    (let has_leading_zero = (case s of b # _ \<Rightarrow> b = 48 | [] \<Rightarrow> False)
     in case read_digits radix max_digits 0 0 s of
          None \<Rightarrow> None
        | Some (result, count, s') \<Rightarrow>
            if count = 0 then None
            else if \<not> allow_zero_prefix \<and> has_leading_zero \<and> 1 < count then None
            else if mx < result then None
            else Some (result, s'))"

definition read_given_char :: "byte \<Rightarrow> bytes \<Rightarrow> bytes option" where
  "read_given_char c s = (case s of b # s' \<Rightarrow> if b = c then Some s' else None | [] \<Rightarrow> None)"

definition read_separator ::
  "byte \<Rightarrow> nat \<Rightarrow> (bytes \<Rightarrow> ('a \<times> bytes) option) \<Rightarrow> bytes \<Rightarrow> ('a \<times> bytes) option" where
  "read_separator sep i inner s =
    (if 0 < i then Option.bind (read_given_char sep s) inner else inner s)"

definition read_octet :: "nat \<Rightarrow> bytes \<Rightarrow> (nat \<times> bytes) option" where
  "read_octet i = read_separator 46 i (read_number 10 3 False 255)"

definition read_ipv4_addr :: "bytes \<Rightarrow> (bytes \<times> bytes) option" where
  "read_ipv4_addr s =
    do { (a, s) \<leftarrow> read_octet 0 s;
         (b, s) \<leftarrow> read_octet 1 s;
         (c, s) \<leftarrow> read_octet 2 s;
         (d, s) \<leftarrow> read_octet 3 s;
         Some ([of_nat a, of_nat b, of_nat c, of_nat d], s) }"

text \<open>
  \<open>read_groups\<close> from slot \<open>i\<close> of \<open>i + n\<close> slots on: the groups read, whether they end in an
  embedded IPv4 address, and the rest.
\<close>

fun read_groups :: "nat \<Rightarrow> nat \<Rightarrow> bytes \<Rightarrow> nat list \<times> bool \<times> bytes" where
  "read_groups i 0 s = ([], False, s)"
| "read_groups i (Suc n) s =
    (case (if 0 < n then read_separator 58 i read_ipv4_addr s else None) of
       Some (v4, s') \<Rightarrow> ([be16 (v4 ! 0) (v4 ! 1), be16 (v4 ! 2) (v4 ! 3)], True, s')
     | None \<Rightarrow>
        (case read_separator 58 i (read_number 16 4 True 65535) s of
           None \<Rightarrow> ([], False, s)
         | Some (g, s') \<Rightarrow> let (gs, v4, s'') = read_groups (i + 1) n s' in (g # gs, v4, s'')))"

definition read_ipv6_addr :: "bytes \<Rightarrow> (nat list \<times> bytes) option" where
  "read_ipv6_addr s =
    (let (head, head_ipv4, s1) = read_groups 0 8 s
     in if length head = 8 then Some (head, s1)
        else if head_ipv4 then None
        else do { s2 \<leftarrow> read_given_char 58 s1;
                  s3 \<leftarrow> read_given_char 58 s2;
                  let limit = 8 - (length head + 1);
                      (tail, _, s4) = read_groups 0 limit s3
                  in Some (head @ replicate (8 - length head - length tail) 0 @ tail, s4) })"

datatype IpAddr = V4 bytes | V6 "nat list"

definition parse_ipv4 :: "bytes \<Rightarrow> bytes option" where
  "parse_ipv4 s = (if 15 < length s then None
     else case read_ipv4_addr s of Some (a, []) \<Rightarrow> Some a | _ \<Rightarrow> None)"

definition parse_ipv6 :: "bytes \<Rightarrow> nat list option" where
  "parse_ipv6 s = (case read_ipv6_addr s of Some (a, []) \<Rightarrow> Some a | _ \<Rightarrow> None)"

definition parse_ip :: "bytes \<Rightarrow> IpAddr option" where
  "parse_ip s = (case (case read_ipv4_addr s of
                         Some (a, r) \<Rightarrow> Some (V4 a, r)
                       | None \<Rightarrow> map_option (\<lambda>(g, r). (V6 g, r)) (read_ipv6_addr s)) of
                   Some (a, []) \<Rightarrow> Some a | _ \<Rightarrow> None)"

end
