(* ===== verification/Tls_Parse.thy ===== *)
theory Tls_Parse
  imports Tls_Server Std_Net
begin

text \<open>
  The ClientHello parsers of \<open>src/protocol/tls.rs\<close>: server name, ALPN list, TLS generation, the
  ranges of cipher suites and extensions, key shares, and the selection of cipher suite and key
  share for the answer.  Each parser walks the raw bytes by position, as the source does; an index
  or slice out of range is a panic (the outer \<^term>\<open>None\<close>), a rejected hello the inner one.
\<close>

section \<open>Server name\<close>

definition is_ascii_alphanumeric :: "byte \<Rightarrow> bool" where
  "is_ascii_alphanumeric b \<longleftrightarrow>
     (48 \<le> unat b \<and> unat b \<le> 57) \<or> (65 \<le> unat b \<and> unat b \<le> 90) \<or> (97 \<le> unat b \<and> unat b \<le> 122)"

definition valid_label :: "bytes \<Rightarrow> bool" where
  "valid_label label =
    (if label = [] \<or> 63 < length label then False
     else if hd label = 45 \<or> last label = 45 then False
     else list_all (\<lambda>b. is_ascii_alphanumeric b \<or> b = 45) label)"

definition is_valid_sni_hostname :: "bytes \<Rightarrow> bool" where
  "is_valid_sni_hostname host =
    (if host = [] \<or> 253 < length host then False
     else if hd host = 46 \<or> last host = 46 then False
     else if parse_ip host \<noteq> None then False
     else list_all valid_label (split_at 46 host))"

function sni_names :: "bytes \<Rightarrow> nat \<Rightarrow> nat \<Rightarrow> bytes option \<Rightarrow> bytes option rs" where
  "sni_names h sn_pos sn_end extracted =
    (if sn_pos + 3 \<le> sn_end then do {
       name_type \<leftarrow> idx h sn_pos;
       a \<leftarrow> idx h (sn_pos + 1);
       b \<leftarrow> idx h (sn_pos + 2);
       let name_len = be16 a b in
       if sn_end < sn_pos + 3 + name_len then Some extracted
       else if name_type = 0 \<and> 0 < name_len then do {
         host \<leftarrow> slice h (sn_pos + 3) (sn_pos + 3 + name_len);
         if utf8_valid host \<and> is_valid_sni_hostname host then Some (Some host)
         else sni_names h (sn_pos + 3 + name_len) sn_end extracted }
       else sni_names h (sn_pos + 3 + name_len) sn_end extracted }
     else Some extracted)"
  by pat_completeness auto
termination by (relation "measure (\<lambda>(h, p, e, x). e - p)") auto

declare sni_names.simps [simp del]

text \<open>The body of one extension, at \<open>pos\<close>.\<close>

definition sni_ext_data :: "bytes \<Rightarrow> nat \<Rightarrow> nat \<Rightarrow> nat \<Rightarrow> bytes option \<Rightarrow> bytes option rs" where
  "sni_ext_data h pos etype elen extracted =
    (if etype = 0 \<and> 5 \<le> elen then do {
       n0 \<leftarrow> idx h pos; n1 \<leftarrow> idx h (pos + 1);
       let list_len = be16 n0 n1 in
       sni_names h (pos + 2) (min (pos + 2 + list_len) (pos + elen)) extracted }
     else Some extracted)"

function sni_exts :: "bytes \<Rightarrow> nat \<Rightarrow> nat \<Rightarrow> bool \<Rightarrow> bytes option \<Rightarrow> bytes option rs" where
  "sni_exts h pos ext_end saw extracted =
    (if pos + 4 \<le> ext_end then do {
       t0 \<leftarrow> idx h pos; t1 \<leftarrow> idx h (pos + 1); l0 \<leftarrow> idx h (pos + 2); l1 \<leftarrow> idx h (pos + 3);
       let etype = be16 t0 t1; elen = be16 l0 l1 in
       if ext_end < pos + 4 + elen then Some extracted
       else if etype = 0 \<and> saw then Some None
       else do {
         ex \<leftarrow> sni_ext_data h (pos + 4) etype elen extracted;
         sni_exts h (pos + 4 + elen) ext_end (saw \<or> etype = 0) ex } }
     else Some extracted)"
  by pat_completeness auto
termination by (relation "measure (\<lambda>(h, p, e, s, x). e - p)") auto

declare sni_exts.simps [simp del]

definition extract_sni_from_client_hello :: "bytes \<Rightarrow> bytes option rs" where
  "extract_sni_from_client_hello h =
    (if length h < 43 then Some None else do {
     b0 \<leftarrow> idx h 0;
     if b0 \<noteq> TLS_RECORD_HANDSHAKE then Some None else do {
     r0 \<leftarrow> idx h 3; r1 \<leftarrow> idx h 4;
     let record_len = be16 r0 r1 in
     if length h < 5 + record_len then Some None
     else let pos = 5 in
     case idx h pos of None \<Rightarrow> Some None | Some ty \<Rightarrow>
     if ty \<noteq> 0x01 then Some None
     else let pos = pos + 4; pos = pos + (2 + 32) in
     if length h < pos + 1 then Some None
     else case idx h pos of None \<Rightarrow> Some None | Some sl \<Rightarrow>
     let pos = pos + (1 + unat sl) in
     if length h < pos + 2 then Some None else do {
     c0 \<leftarrow> idx h pos; c1 \<leftarrow> idx h (pos + 1);
     let pos = pos + (2 + be16 c0 c1) in
     if length h < pos + 1 then Some None
     else case idx h pos of None \<Rightarrow> Some None | Some cl \<Rightarrow>
     let pos = pos + (1 + unat cl) in
     if length h < pos + 2 then Some None else do {
     e0 \<leftarrow> idx h pos; e1 \<leftarrow> idx h (pos + 1);
     let pos = pos + 2; ext_end = pos + be16 e0 e1 in
     if length h < ext_end then Some None
     else sni_exts h pos ext_end False None }}}})"

section \<open>ALPN\<close>

function alpn_protocols :: "bytes \<Rightarrow> nat \<Rightarrow> nat \<Rightarrow> bytes list \<Rightarrow> bytes list rs" where
  "alpn_protocols h lp list_end out =
    (if lp < list_end then do {
       b \<leftarrow> idx h lp;
       let plen = unat b in
       if list_end < lp + 1 + plen then Some out
       else do { p \<leftarrow> slice h (lp + 1) (lp + 1 + plen);
                 alpn_protocols h (lp + 1 + plen) list_end (out @ [p]) } }
     else Some out)"
  by pat_completeness auto
termination by (relation "measure (\<lambda>(h, p, e, x). e - p)") auto

declare alpn_protocols.simps [simp del]

function alpn_exts :: "bytes \<Rightarrow> nat \<Rightarrow> nat \<Rightarrow> bytes list rs" where
  "alpn_exts h pos ext_end =
    (if pos + 4 \<le> ext_end then do {
       t0 \<leftarrow> idx h pos; t1 \<leftarrow> idx h (pos + 1); l0 \<leftarrow> idx h (pos + 2); l1 \<leftarrow> idx h (pos + 3);
       let etype = be16 t0 t1; elen = be16 l0 l1 in
       if ext_end < pos + 4 + elen then Some []
       else if etype = ALPN \<and> 3 \<le> elen then do {
         n0 \<leftarrow> idx h (pos + 4); n1 \<leftarrow> idx h (pos + 4 + 1);
         let list_len = be16 n0 n1 in
         alpn_protocols h (pos + 4 + 2) (min (sat_add U64_MAX (pos + 4 + 2) list_len) (pos + 4 + elen)) [] }
       else alpn_exts h (pos + 4 + elen) ext_end }
     else Some [])"
  by pat_completeness auto
termination by (relation "measure (\<lambda>(h, p, e). e - p)") auto

declare alpn_exts.simps [simp del]

definition extract_alpn_from_client_hello :: "bytes \<Rightarrow> bytes list rs" where
  "extract_alpn_from_client_hello h =
    (if length h < 5 then Some [] else do {
     b0 \<leftarrow> idx h 0;
     if b0 \<noteq> TLS_RECORD_HANDSHAKE then Some [] else do {
     r0 \<leftarrow> idx h 3; r1 \<leftarrow> idx h 4;
     let record_len = be16 r0 r1 in
     if length h < 5 + record_len then Some []
     else let pos = 5 in
     if idx h pos \<noteq> Some 0x01 then Some []
     else let pos = pos + 4; pos = pos + (2 + 32) in
     if length h \<le> pos then Some []
     else let session_id_len = (case idx h pos of Some b \<Rightarrow> unat b | None \<Rightarrow> 0);
              pos = pos + (1 + session_id_len) in
     if length h < pos + 2 then Some [] else do {
     c0 \<leftarrow> idx h pos; c1 \<leftarrow> idx h (pos + 1);
     let pos = pos + (2 + be16 c0 c1) in
     if length h \<le> pos then Some []
     else let comp_len = (case idx h pos of Some b \<Rightarrow> unat b | None \<Rightarrow> 0);
              pos = pos + (1 + comp_len) in
     if length h < pos + 2 then Some [] else do {
     e0 \<leftarrow> idx h pos; e1 \<leftarrow> idx h (pos + 1);
     let pos = pos + 2; ext_end = pos + be16 e0 e1 in
     if length h < ext_end then Some []
     else alpn_exts h pos ext_end }}}})"

section \<open>TLS generation\<close>

datatype ClientHelloTlsVersion = Tls12 | Tls13

definition be24 :: "byte \<Rightarrow> byte \<Rightarrow> byte \<Rightarrow> nat" where
  "be24 a b c = unat a * 65536 + unat b * 256 + unat c"

function version_list :: "bytes \<Rightarrow> nat \<Rightarrow> nat \<Rightarrow> bool \<Rightarrow> ClientHelloTlsVersion option rs" where
  "version_list h ver_pos ver_end has_tls12 =
    (if ver_pos + 1 < ver_end then do {
       v0 \<leftarrow> idx h ver_pos; v1 \<leftarrow> idx h (ver_pos + 1);
       let version = be16 v0 v1 in
       if version = 0x0304 then Some (Some Tls13)
       else version_list h (ver_pos + 2) ver_end
              (has_tls12 \<or> version = 0x0303 \<or> version = 0x0302 \<or> version = 0x0301) }
     else if has_tls12 then Some (Some Tls12) else Some None)"
  by pat_completeness auto
termination by (relation "measure (\<lambda>(h, p, e, x). e - p)") auto

declare version_list.simps [simp del]

function version_exts :: "bytes \<Rightarrow> nat \<Rightarrow> nat \<Rightarrow> nat \<Rightarrow> ClientHelloTlsVersion option rs" where
  "version_exts h pos ext_end legacy_version =
    (if pos + 4 \<le> ext_end then do {
       t0 \<leftarrow> idx h pos; t1 \<leftarrow> idx h (pos + 1); l0 \<leftarrow> idx h (pos + 2); l1 \<leftarrow> idx h (pos + 3);
       let etype = be16 t0 t1; elen = be16 l0 l1 in
       if ext_end < pos + 4 + elen then Some None
       else if etype = SUPPORTED_VERSIONS then
         (if elen < 1 then Some None
          else do { b \<leftarrow> idx h (pos + 4);
                    let list_len = unat b in
                    if list_len = 0 \<or> list_len mod 2 \<noteq> 0 \<or> elen < 1 + list_len then Some None
                    else version_list h (pos + 4 + 1) (pos + 4 + 1 + list_len) False })
       else version_exts h (pos + 4 + elen) ext_end legacy_version }
     else if 0x0303 \<le> legacy_version then Some (Some Tls12) else Some None)"
  by pat_completeness auto
termination by (relation "measure (\<lambda>(h, p, e, x). e - p)") auto

declare version_exts.simps [simp del]

definition detect_client_hello_tls_version :: "bytes \<Rightarrow> ClientHelloTlsVersion option rs" where
  "detect_client_hello_tls_version h =
    (if length h < 5 then Some None else do {
     b0 \<leftarrow> idx h 0;
     if b0 \<noteq> TLS_RECORD_HANDSHAKE then Some None else do {
     r0 \<leftarrow> idx h 3; r1 \<leftarrow> idx h 4;
     let record_len = be16 r0 r1 in
     if length h < 5 + record_len then Some None
     else let pos = 5 in
     if idx h pos \<noteq> Some 0x01 then Some None
     else let pos = pos + 1 in
     if length h < pos + 3 then Some None else do {
     m0 \<leftarrow> idx h pos; m1 \<leftarrow> idx h (pos + 1); m2 \<leftarrow> idx h (pos + 2);
     let handshake_len = be24 m0 m1 m2; pos = pos + 3 in
     if 5 + record_len < pos + handshake_len then Some None
     else if length h < pos + 2 + 32 then Some None else do {
     v0 \<leftarrow> idx h pos; v1 \<leftarrow> idx h (pos + 1);
     let legacy_version = be16 v0 v1; pos = pos + (2 + 32) in
     case idx h pos of None \<Rightarrow> Some None | Some sl \<Rightarrow>
     let pos = pos + (1 + unat sl) in
     if length h < pos + 2 then Some None else do {
     c0 \<leftarrow> idx h pos; c1 \<leftarrow> idx h (pos + 1);
     let pos = pos + (2 + be16 c0 c1) in
     if length h \<le> pos then Some None
     else case idx h pos of None \<Rightarrow> Some None | Some cl \<Rightarrow>
     let pos = pos + (1 + unat cl) in
     if length h < pos + 2 then Some None else do {
     e0 \<leftarrow> idx h pos; e1 \<leftarrow> idx h (pos + 1);
     let pos = pos + 2; ext_end = pos + be16 e0 e1 in
     if length h < ext_end then Some None
     else version_exts h pos ext_end legacy_version }}}}}})"

section \<open>Cipher suites and extensions\<close>

text \<open>
  Both range parsers open with the same statements, up to and including the checks on the cipher
  suite length; \<open>hello_suites\<close> is that common text, passed the rest of the parser: it gets the
  position after the length field, the length and the end of the handshake message.
\<close>

definition hello_suites :: "bytes \<Rightarrow> (nat \<Rightarrow> nat \<Rightarrow> nat \<Rightarrow> 'a option rs) \<Rightarrow> 'a option rs" where
  "hello_suites h k =
    (if length h < 5 then Some None else do {
     b0 \<leftarrow> idx h 0;
     if b0 \<noteq> TLS_RECORD_HANDSHAKE then Some None else do {
     r0 \<leftarrow> idx h 3; r1 \<leftarrow> idx h 4;
     let record_len = be16 r0 r1 in
     case checked_add 5 record_len of None \<Rightarrow> Some None | Some record_end \<Rightarrow>
     if length h < record_end then Some None
     else let pos = 5 in
     if idx h pos \<noteq> Some 0x01 then Some None
     else let pos = pos + 1 in
     if record_end < pos + 3 then Some None else do {
     m0 \<leftarrow> idx h pos; m1 \<leftarrow> idx h (pos + 1); m2 \<leftarrow> idx h (pos + 2);
     let handshake_len = be24 m0 m1 m2; pos = pos + 3 in
     case checked_add pos handshake_len of None \<Rightarrow> Some None | Some handshake_end \<Rightarrow>
     if record_end < handshake_end then Some None
     else if handshake_end < pos + 2 + 32 then Some None
     else let pos = pos + (2 + 32) in
     case idx h pos of None \<Rightarrow> Some None | Some sl \<Rightarrow>
     case checked_add pos 1 of None \<Rightarrow> Some None | Some pos \<Rightarrow>
     case checked_add pos (unat sl) of None \<Rightarrow> Some None | Some pos \<Rightarrow>
     if handshake_end < pos + 2 then Some None else do {
     c0 \<leftarrow> idx h pos; c1 \<leftarrow> idx h (pos + 1);
     let cipher_len = be16 c0 c1 in
     if cipher_len = 0 \<or> cipher_len mod 2 \<noteq> 0 then Some None
     else k (pos + 2) cipher_len handshake_end }}}})"

definition client_hello_cipher_suites_range :: "bytes \<Rightarrow> (nat \<times> nat) option rs" where
  "client_hello_cipher_suites_range h = hello_suites h (\<lambda>pos cipher_len handshake_end.
     case checked_add pos cipher_len of None \<Rightarrow> Some None | Some cipher_end \<Rightarrow>
     if handshake_end < cipher_end then Some None
     else Some (Some (pos, cipher_end)))"

definition client_hello_extensions_range :: "bytes \<Rightarrow> (nat \<times> nat) option rs" where
  "client_hello_extensions_range h = hello_suites h (\<lambda>pos cipher_len handshake_end.
     case checked_add pos cipher_len of None \<Rightarrow> Some None | Some pos \<Rightarrow>
     if handshake_end < pos + 1 then Some None
     else case idx h pos of None \<Rightarrow> Some None | Some cl \<Rightarrow>
     case checked_add pos 1 of None \<Rightarrow> Some None | Some pos \<Rightarrow>
     case checked_add pos (unat cl) of None \<Rightarrow> Some None | Some pos \<Rightarrow>
     if pos = handshake_end then Some (Some (handshake_end, handshake_end))
     else if handshake_end < pos + 2 then Some None else do {
     e0 \<leftarrow> idx h pos; e1 \<leftarrow> idx h (pos + 1);
     let extensions_len = be16 e0 e1; pos = pos + 2 in
     case checked_add pos extensions_len of None \<Rightarrow> Some None | Some extensions_end \<Rightarrow>
     if handshake_end < extensions_end then Some None
     else Some (Some (pos, extensions_end)) })"

function offers_suite_from :: "bytes \<Rightarrow> nat \<Rightarrow> nat \<Rightarrow> byte \<Rightarrow> byte \<Rightarrow> bool rs" where
  "offers_suite_from h pos e s0 s1 =
    (if pos + 1 < e then do {
       a \<leftarrow> idx h pos;
       hit \<leftarrow> (if a = s0 then map_option ((=) s1) (idx h (pos + 1)) else Some False);
       if hit then Some True else offers_suite_from h (pos + 2) e s0 s1 }
     else Some False)"
  by pat_completeness auto
termination by (relation "measure (\<lambda>(h, p, e, x). e - p)") auto

declare offers_suite_from.simps [simp del]

definition client_hello_offers_cipher_suite :: "bytes \<Rightarrow> nat \<times> nat \<Rightarrow> bytes \<Rightarrow> bool rs" where
  "client_hello_offers_cipher_suite h rg suite =
     do { s0 \<leftarrow> idx suite 0; s1 \<leftarrow> idx suite 1; offers_suite_from h (fst rg) (snd rg) s0 s1 }"

definition is_tls13_cipher_suite :: "bytes \<Rightarrow> bool" where
  "is_tls13_cipher_suite suite \<longleftrightarrow> suite = TLS_AES_128_GCM_SHA256 \<or> suite = TLS_AES_256_GCM_SHA384
     \<or> suite = TLS_CHACHA20_POLY1305_SHA256"

fun first_offered :: "bytes \<Rightarrow> nat \<times> nat \<Rightarrow> bytes list \<Rightarrow> bytes option rs" where
  "first_offered h rg [] = Some None"
| "first_offered h rg (fallback # rest) =
    do { b \<leftarrow> client_hello_offers_cipher_suite h rg fallback;
         if b then Some (Some fallback) else first_offered h rg rest }"

definition select_server_hello_cipher_suite :: "bytes \<Rightarrow> bytes \<Rightarrow> bytes option rs" where
  "select_server_hello_cipher_suite h preferred =
    (let preferred = (if is_tls13_cipher_suite preferred then preferred else TLS_AES_128_GCM_SHA256) in
     do { r \<leftarrow> client_hello_cipher_suites_range h;
          case r of None \<Rightarrow> Some None | Some rg \<Rightarrow> do {
            b \<leftarrow> client_hello_offers_cipher_suite h rg preferred;
            if b then Some (Some preferred)
            else first_offered h rg
              [TLS_AES_128_GCM_SHA256, TLS_CHACHA20_POLY1305_SHA256, TLS_AES_256_GCM_SHA384] } })"

section \<open>Key shares\<close>

function key_share_entries ::
  "bytes \<Rightarrow> nat \<Rightarrow> nat \<Rightarrow> nat \<Rightarrow> nat \<Rightarrow> bytes option \<Rightarrow> bytes option rs" where
  "key_share_entries data grp expected shares_end pos found =
    (if pos + 4 \<le> shares_end then do {
       g0 \<leftarrow> idx data pos; g1 \<leftarrow> idx data (pos + 1); l0 \<leftarrow> idx data (pos + 2); l1 \<leftarrow> idx data (pos + 3);
       let entry_group = be16 g0 g1; key_exchange_len = be16 l0 l1 in
       case checked_add (pos + 4) key_exchange_len of None \<Rightarrow> Some None | Some key_exchange_end \<Rightarrow>
       if shares_end < key_exchange_end then Some None
       else if entry_group = grp then
         (if key_exchange_len \<noteq> expected \<or> found \<noteq> None then Some None
          else do { k \<leftarrow> slice data (pos + 4) key_exchange_end;
                    key_share_entries data grp expected shares_end key_exchange_end (Some k) })
       else key_share_entries data grp expected shares_end key_exchange_end found }
     else if pos = shares_end then Some found else Some None)"
  by pat_completeness auto
termination by (relation "measure (\<lambda>(d, g, x, e, p, f). e - p)") auto

declare key_share_entries.simps [simp del]

definition key_share_extension_group_entry :: "bytes \<Rightarrow> nat \<Rightarrow> nat \<Rightarrow> bytes option rs" where
  "key_share_extension_group_entry data grp expected_key_exchange_len =
    (if length data < 2 then Some None else do {
       a \<leftarrow> idx data 0; b \<leftarrow> idx data 1;
       let shares_len = be16 a b in
       if shares_len \<noteq> length data - 2 then Some None
       else key_share_entries data grp expected_key_exchange_len (2 + shares_len) 2 None })"

function key_share_exts :: "bytes \<Rightarrow> nat \<Rightarrow> nat \<Rightarrow> nat \<Rightarrow> nat \<Rightarrow> bytes option rs" where
  "key_share_exts h pos extensions_end grp expected =
    (if pos + 4 \<le> extensions_end then do {
       t0 \<leftarrow> idx h pos; t1 \<leftarrow> idx h (pos + 1); l0 \<leftarrow> idx h (pos + 2); l1 \<leftarrow> idx h (pos + 3);
       let ext_type = be16 t0 t1; ext_len = be16 l0 l1 in
       case checked_add (pos + 4) ext_len of None \<Rightarrow> Some None | Some ext_end \<Rightarrow>
       if extensions_end < ext_end then Some None
       else if ext_type = KEY_SHARE then do {
         data \<leftarrow> slice h (pos + 4) ext_end;
         key_share_extension_group_entry data grp expected }
       else key_share_exts h ext_end extensions_end grp expected }
     else Some None)"
  by pat_completeness auto
termination by (relation "measure (\<lambda>(h, p, e, x). e - p)") auto

declare key_share_exts.simps [simp del]

definition client_hello_key_share_group_entry :: "bytes \<Rightarrow> nat \<Rightarrow> nat \<Rightarrow> bytes option rs" where
  "client_hello_key_share_group_entry h grp expected_key_exchange_len =
    do { r \<leftarrow> client_hello_extensions_range h;
         case r of None \<Rightarrow> Some None
         | Some (pos, extensions_end) \<Rightarrow> key_share_exts h pos extensions_end grp expected_key_exchange_len }"

definition client_hello_key_share_group_len :: "nat \<Rightarrow> nat option" where
  "client_hello_key_share_group_len grp =
    (if grp = TLS_NAMED_GROUP_X25519MLKEM768 then Some X25519MLKEM768_CLIENT_KEY_SHARE_LEN
     else if grp = TLS_NAMED_GROUP_X25519 then Some X25519_KEY_SHARE_LEN
     else None)"

definition server_hello_key_share_candidate_order :: "nat option \<Rightarrow> nat list" where
  "server_hello_key_share_candidate_order preferred_group =
    (if preferred_group = Some TLS_NAMED_GROUP_X25519
     then [TLS_NAMED_GROUP_X25519, TLS_NAMED_GROUP_X25519MLKEM768]
     else [TLS_NAMED_GROUP_X25519MLKEM768, TLS_NAMED_GROUP_X25519])"

fun select_group_loop :: "bytes \<Rightarrow> nat list \<Rightarrow> nat option rs" where
  "select_group_loop h [] = Some None"
| "select_group_loop h (grp # rest) =
    (case client_hello_key_share_group_len grp of None \<Rightarrow> Some None | Some expected \<Rightarrow>
     do { e \<leftarrow> client_hello_key_share_group_entry h grp expected;
          if e \<noteq> None then Some (Some grp) else select_group_loop h rest })"

definition select_server_hello_key_share_group_with_preference :: "bytes \<Rightarrow> nat option \<Rightarrow> nat option rs" where
  "select_server_hello_key_share_group_with_preference h preferred_group =
     select_group_loop h (server_hello_key_share_candidate_order preferred_group)"

definition select_server_hello_key_share_group :: "bytes \<Rightarrow> nat option rs" where
  "select_server_hello_key_share_group h = select_server_hello_key_share_group_with_preference h None"

text \<open>
  The builders also draw from the random source; the panic is in the first component of the
  result, as for the response.
\<close>

definition build_server_hello_key_share_for_group where
  "build_server_hello_key_share_for_group kx h grp ops st =
    (case client_hello_key_share_group_len grp of None \<Rightarrow> (Some None, st) | Some expected \<Rightarrow>
     case client_hello_key_share_group_entry h grp expected of
       None \<Rightarrow> (None, st)
     | Some None \<Rightarrow> (Some None, st)
     | Some (Some _) \<Rightarrow>
       if grp = TLS_NAMED_GROUP_X25519MLKEM768 then
         let (ks, st) = gen_fake_x25519mlkem768_server_key_share kx ops st
         in (map_option (\<lambda>ks. Some \<lparr>ks_group = grp, key_exchange = ks\<rparr>) ks, st)
       else if grp = TLS_NAMED_GROUP_X25519 then
         let (key, st) = gen_fake_x25519_key kx ops st
         in (Some (Some \<lparr>ks_group = grp, key_exchange = key\<rparr>), st)
       else (Some None, st))"

fun build_key_share_loop where
  "build_key_share_loop kx h [] ops st = (Some None, st)"
| "build_key_share_loop kx h (grp # rest) ops st =
    (case build_server_hello_key_share_for_group kx h grp ops st of
       (None, st) \<Rightarrow> (None, st)
     | (Some (Some ks), st) \<Rightarrow> (Some (Some ks), st)
     | (Some None, st) \<Rightarrow> build_key_share_loop kx h rest ops st)"

definition build_server_hello_key_share where
  "build_server_hello_key_share kx h preferred_group ops st =
     build_key_share_loop kx h (server_hello_key_share_candidate_order preferred_group) ops st"

definition mlkem768_encapsulate_to_client where
  "mlkem768_encapsulate_to_client kx client_key ops st =
    (case kx_key_try_from kx client_key of None \<Rightarrow> (None, st) | Some key_bytes \<Rightarrow>
     case kx_key_new kx key_bytes of None \<Rightarrow> (None, st) | Some encapsulation_key \<Rightarrow>
     let (randomness, st) = fill ops 32 st in
     case kx_b32_try_from kx randomness of None \<Rightarrow> (None, st) | Some randomness \<Rightarrow>
     let ciphertext = kx_encapsulate kx encapsulation_key randomness in
     (if length ciphertext = MLKEM768_SERVER_CIPHERTEXT_LEN then Some ciphertext else None, st))"

text \<open>\<open>copy_from_slice\<close> panics unless the lengths agree; \<open>copy_exact\<close> is that check.\<close>

definition copy_exact :: "nat \<Rightarrow> bytes \<Rightarrow> bytes rs" where
  "copy_exact n src = (if length src = n then Some src else None)"

definition build_x25519_server_key_share where
  "build_x25519_server_key_share kx h ops st =
    (case client_hello_key_share_group_entry h TLS_NAMED_GROUP_X25519 X25519_KEY_SHARE_LEN of
       None \<Rightarrow> (None, st)
     | Some None \<Rightarrow> (Some None, st)
     | Some (Some client_key_exchange) \<Rightarrow>
       case copy_exact X25519_KEY_SHARE_LEN client_key_exchange of None \<Rightarrow> (None, st)
       | Some client_x25519 \<Rightarrow>
         let ((scalar, server_x25519_key), st) = gen_x25519_key_pair kx ops st;
             x25519_shared = x25519 kx scalar client_x25519
         in if x25519_shared = replicate X25519_KEY_SHARE_LEN 0 then (Some None, st)
            else (Some (Some server_x25519_key), st))"

definition build_x25519mlkem768_server_key_share where
  "build_x25519mlkem768_server_key_share kx h ops st =
    (case client_hello_key_share_group_entry h TLS_NAMED_GROUP_X25519MLKEM768
            X25519MLKEM768_CLIENT_KEY_SHARE_LEN of
       None \<Rightarrow> (None, st)
     | Some None \<Rightarrow> (Some None, st)
     | Some (Some client_key_exchange) \<Rightarrow>
       if length client_key_exchange < MLKEM768_CLIENT_ENCAPSULATION_KEY_LEN then (Some None, st)
       else
         let client_mlkem_key = take MLKEM768_CLIENT_ENCAPSULATION_KEY_LEN client_key_exchange;
             client_x25519_key = drop MLKEM768_CLIENT_ENCAPSULATION_KEY_LEN client_key_exchange in
         case mlkem768_encapsulate_to_client kx client_mlkem_key ops st of
           (None, st) \<Rightarrow> (Some None, st)
         | (Some mlkem_ciphertext, st) \<Rightarrow>
           case copy_exact X25519_KEY_SHARE_LEN client_x25519_key of None \<Rightarrow> (None, st)
           | Some client_x25519 \<Rightarrow>
             let ((scalar, server_x25519_key), st) = gen_x25519_key_pair kx ops st;
                 x25519_shared = x25519 kx scalar client_x25519
             in if x25519_shared = replicate X25519_KEY_SHARE_LEN 0 then (Some None, st)
                else (Some (Some (mlkem_ciphertext @ server_x25519_key)), st))"

end
