(* ===== verification/Tls_Hello.thy ===== *)
theory Tls_Hello
  imports Tls_Parse
begin

text \<open>
  What the ClientHello parsers promise: they never panic, and on the encoding of an abstract
  hello (its suites, extensions, server names, protocols, versions and key shares as lists) they
  compute the value a reader of the TLS grammar expects.
\<close>

section \<open>No panic\<close>

lemma sni_names_total: "sn_end \<le> length h \<Longrightarrow> sni_names h sn_pos sn_end x \<noteq> None"
proof (induction h sn_pos sn_end x rule: sni_names.induct)
  case (1 h p e x)
  show ?case
    using 1 by (subst sni_names.simps) (auto simp: Let_def)
qed

lemma sni_ext_data_total: "p + elen \<le> length h \<Longrightarrow> sni_ext_data h p etype elen x \<noteq> None"
  using sni_names_total [of "min _ (p + elen)" h] by (auto simp: sni_ext_data_def Let_def)

lemma sni_exts_total: "e \<le> length h \<Longrightarrow> sni_exts h p e saw x \<noteq> None"
proof (induction h p e saw x rule: sni_exts.induct)
  case (1 h p e saw x)
  let ?et = "be16 (h ! p) (h ! (p + 1))" and ?el = "be16 (h ! (p + 2)) (h ! (p + 3))"
  show ?case
  proof (cases "p + 4 \<le> e \<and> \<not> e < p + 4 + ?el \<and> \<not> (?et = 0 \<and> saw)")
    case True
    then obtain ex where ex: "sni_ext_data h (p + 4) ?et ?el x = Some ex"
      using 1(2) sni_ext_data_total [of "p + 4" ?el h ?et x] by auto
    have "sni_exts h (p + 4 + ?el) e (saw \<or> ?et = 0) ex \<noteq> None"
      using True ex 1(2) by (intro 1(1)) (auto simp: idx_def)
    then show ?thesis
      using True ex 1(2) by (subst sni_exts.simps) (auto simp: Let_def)
  next
    case False
    then show ?thesis using 1(2) by (subst sni_exts.simps) (auto simp: Let_def)
  qed
qed

lemma alpn_protocols_total: "e \<le> length h \<Longrightarrow> alpn_protocols h p e x \<noteq> None"
proof (induction h p e x rule: alpn_protocols.induct)
  case (1 h p e x)
  show ?case using 1 by (subst alpn_protocols.simps) (auto simp: Let_def)
qed

lemma alpn_exts_total: "e \<le> length h \<Longrightarrow> alpn_exts h p e \<noteq> None"
proof (induction h p e rule: alpn_exts.induct)
  case (1 h p e)
  show ?case
    using 1 by (subst alpn_exts.simps) (auto simp: Let_def intro!: alpn_protocols_total [unfolded not_None_eq])
qed

lemma version_list_total: "e \<le> length h \<Longrightarrow> version_list h p e x \<noteq> None"
proof (induction h p e x rule: version_list.induct)
  case (1 h p e x)
  show ?case using 1 by (subst version_list.simps) (auto simp: Let_def)
qed

lemma version_exts_total: "e \<le> length h \<Longrightarrow> version_exts h p e l \<noteq> None"
proof (induction h p e l rule: version_exts.induct)
  case (1 h p e l)
  show ?case
    using 1 by (subst version_exts.simps) (auto simp: Let_def intro!: version_list_total [unfolded not_None_eq])
qed

lemma offers_suite_from_total: "e \<le> length h \<Longrightarrow> offers_suite_from h p e a b \<noteq> None"
proof (induction h p e a b rule: offers_suite_from.induct)
  case (1 h p e a b)
  show ?case using 1 by (subst offers_suite_from.simps) (auto simp: Let_def)
qed

text \<open>For key shares more is needed: one that is found has the length that was asked for.\<close>

definition found_len :: "nat \<Rightarrow> bytes option rs \<Rightarrow> bool" where
  "found_len x r \<longleftrightarrow> (\<exists>v. r = Some v \<and> (\<forall>k. v = Some k \<longrightarrow> length k = x))"

lemma found_len_simps [simp]: "\<not> found_len x None" "found_len x (Some None)"
  "found_len x (Some (Some k)) = (length k = x)"
  by (auto simp: found_len_def)

lemma found_len_not_None: "found_len x r \<Longrightarrow> r \<noteq> None"
  by (auto simp: found_len_def)

lemma key_share_entries_len:
  "e \<le> length data \<Longrightarrow> (\<forall>k. f = Some k \<longrightarrow> length k = x) \<Longrightarrow> found_len x (key_share_entries data g x e p f)"
proof (induction data g x e p f rule: key_share_entries.induct)
  case (1 data g x e p f)
  show ?case
  proof (cases f)
    case None
    with 1 show ?thesis
      by (subst key_share_entries.simps) (auto simp: Let_def split: option.split)
  next
    case (Some k)
    with 1 show ?thesis
      by (subst key_share_entries.simps) (auto simp: Let_def split: option.split)
  qed
qed

lemma key_share_extension_len: "found_len x (key_share_extension_group_entry data g x)"
  by (auto simp: key_share_extension_group_entry_def Let_def idx_def intro!: key_share_entries_len)

lemma key_share_exts_len: "e \<le> length h \<Longrightarrow> found_len x (key_share_exts h p e g x)"
proof (induction h p e g x rule: key_share_exts.induct)
  case (1 h p e g x)
  show ?case
    using 1 by (subst key_share_exts.simps) (auto simp: Let_def key_share_extension_len split: option.split)
qed

lemma extract_sni_total: "extract_sni_from_client_hello h \<noteq> None"
  using sni_exts_total by (auto simp: extract_sni_from_client_hello_def Let_def idx_def)

lemma extract_alpn_total: "extract_alpn_from_client_hello h \<noteq> None"
  using alpn_exts_total by (auto simp: extract_alpn_from_client_hello_def Let_def idx_def)

lemma detect_version_total: "detect_client_hello_tls_version h \<noteq> None"
  using version_exts_total by (auto simp: detect_client_hello_tls_version_def Let_def idx_def)

lemma hello_suites_total:
  "(\<And>pos n e. e \<le> length h \<Longrightarrow> k pos n e \<noteq> None) \<Longrightarrow> hello_suites h k \<noteq> None"
  by (auto simp: hello_suites_def Let_def idx_def split: option.split)

lemma hello_suites_not:
  "(\<And>pos n e. e \<le> length h \<Longrightarrow> k pos n e \<noteq> Some (Some r)) \<Longrightarrow> hello_suites h k \<noteq> Some (Some r)"
  by (auto simp: hello_suites_def Let_def idx_def split: option.split)

lemma hello_suites_Some:
  assumes "hello_suites h k = Some (Some r)"
  obtains pos n e where "e \<le> length h" "k pos n e = Some (Some r)"
  using assms hello_suites_not [of h k r] by blast

lemma suites_range_total: "client_hello_cipher_suites_range h \<noteq> None"
  unfolding client_hello_cipher_suites_range_def
  by (rule hello_suites_total) (simp split: option.split)

lemma suites_range_bound:
  "client_hello_cipher_suites_range h = Some (Some (a, b)) \<Longrightarrow> b \<le> length h"
  unfolding client_hello_cipher_suites_range_def
  by (erule hello_suites_Some) (auto split: option.splits if_splits)

lemma extensions_range_total: "client_hello_extensions_range h \<noteq> None"
  unfolding client_hello_extensions_range_def
  by (rule hello_suites_total) (auto simp: Let_def idx_def split: option.split)

lemma extensions_range_bound:
  "client_hello_extensions_range h = Some (Some (a, b)) \<Longrightarrow> b \<le> length h"
  unfolding client_hello_extensions_range_def
  by (erule hello_suites_Some) (auto simp: Let_def split: option.splits if_splits bind_splits)

lemma key_share_group_entry_len: "found_len x (client_hello_key_share_group_entry h g x)"
  using extensions_range_total [of h] extensions_range_bound [of h] key_share_exts_len [of _ h x]
  by (auto simp: client_hello_key_share_group_entry_def split: option.split)

lemma key_share_group_entry_cases:
  obtains "client_hello_key_share_group_entry h g x = Some None"
  | k where "client_hello_key_share_group_entry h g x = Some (Some k)" "length k = x"
proof (cases "client_hello_key_share_group_entry h g x")
  case None
  then show ?thesis using key_share_group_entry_len [of x h g] by simp
next
  case (Some r)
  then show ?thesis using that key_share_group_entry_len [of x h g] by (cases r) auto
qed

lemma offers_total:
  "b \<le> length h \<Longrightarrow> length suite = 2 \<Longrightarrow> client_hello_offers_cipher_suite h (a, b) suite \<noteq> None"
  using offers_suite_from_total by (auto simp: client_hello_offers_cipher_suite_def)

lemma suite_len: "is_tls13_cipher_suite c \<Longrightarrow> length c = 2"
  by (auto simp: is_tls13_cipher_suite_def TLS_AES_128_GCM_SHA256_def TLS_AES_256_GCM_SHA384_def
      TLS_CHACHA20_POLY1305_SHA256_def)

lemma tls13_suites [simp]:
  "is_tls13_cipher_suite TLS_AES_128_GCM_SHA256" "is_tls13_cipher_suite TLS_AES_256_GCM_SHA384"
  "is_tls13_cipher_suite TLS_CHACHA20_POLY1305_SHA256"
  by (auto simp: is_tls13_cipher_suite_def)

lemma first_offered_total:
  "b \<le> length h \<Longrightarrow> \<forall>c\<in>set cs. length c = 2 \<Longrightarrow> first_offered h (a, b) cs \<noteq> None"
proof (induction cs)
  case (Cons c cs)
  then obtain x where "client_hello_offers_cipher_suite h (a, b) c = Some x"
    using offers_total [of b h c a] by auto
  with Cons show ?case by simp
qed simp

lemma select_suite_total: "select_server_hello_cipher_suite h preferred \<noteq> None"
proof -
  obtain r where r: "client_hello_cipher_suites_range h = Some r" using suites_range_total by blast
  show ?thesis
  proof (cases r)
    case None
    with r show ?thesis by (simp add: select_server_hello_cipher_suite_def)
  next
    case (Some ab)
    then obtain a b where ab: "ab = (a, b)" "b \<le> length h"
      using r suites_range_bound by (metis surj_pair)
    let ?p = "if is_tls13_cipher_suite preferred then preferred else TLS_AES_128_GCM_SHA256"
    have "client_hello_offers_cipher_suite h (a, b) ?p \<noteq> None"
      using ab by (intro offers_total suite_len) simp_all
    moreover have "first_offered h (a, b) [TLS_AES_128_GCM_SHA256, TLS_CHACHA20_POLY1305_SHA256, TLS_AES_256_GCM_SHA384] \<noteq> None"
      using ab by (intro first_offered_total) (auto intro!: suite_len)
    ultimately show ?thesis
      using r Some ab by (auto simp: select_server_hello_cipher_suite_def Let_def)
  qed
qed

lemma select_group_total: "select_group_loop h gs \<noteq> None"
proof (induction gs)
  case (Cons g gs)
  show ?case
  proof (cases "client_hello_key_share_group_len g")
    case (Some x)
    then show ?thesis
      using Cons by (rule_tac key_share_group_entry_cases [of h g x]) auto
  qed simp
qed simp

section \<open>Selecting and building the key share\<close>

lemma build_for_group:
  assumes "client_hello_key_share_group_len g = Some x"
  shows "client_hello_key_share_group_entry h g x = Some None \<Longrightarrow>
      build_server_hello_key_share_for_group kx h g ops st = (Some None, st)"
    and "client_hello_key_share_group_entry h g x = Some (Some k) \<Longrightarrow>
      \<exists>ks st'. build_server_hello_key_share_for_group kx h g ops st = (Some (Some ks), st') \<and> ks_group ks = g \<and>
        length (key_exchange ks) = (if g = TLS_NAMED_GROUP_X25519 then 32 else 1120)"
proof -
  show "client_hello_key_share_group_entry h g x = Some None \<Longrightarrow>
      build_server_hello_key_share_for_group kx h g ops st = (Some None, st)"
    using assms by (simp add: build_server_hello_key_share_for_group_def)
  obtain key st1 where k: "gen_fake_x25519mlkem768_server_key_share kx ops st = (Some key, st1)" "length key = 1120"
    using gen_fake_mlkem_share [of kx ops st] by (metis prod.collapse)
  obtain key2 st2 where k2: "gen_fake_x25519_key kx ops st = (key2, st2)" "length key2 = 32"
    using length_gen_fake_x25519_key [of kx ops st] by (metis prod.collapse)
  show "client_hello_key_share_group_entry h g x = Some (Some k) \<Longrightarrow>
      \<exists>ks st'. build_server_hello_key_share_for_group kx h g ops st = (Some (Some ks), st') \<and> ks_group ks = g \<and>
        length (key_exchange ks) = (if g = TLS_NAMED_GROUP_X25519 then 32 else 1120)"
    using assms k k2
    by (auto simp: build_server_hello_key_share_for_group_def client_hello_key_share_group_len_def
        TLS_NAMED_GROUP_X25519_def TLS_NAMED_GROUP_X25519MLKEM768_def split: if_splits)
qed

lemma build_loop_select:
  assumes "\<forall>g\<in>set gs. client_hello_key_share_group_len g \<noteq> None"
  shows "map_option (map_option ks_group) (fst (build_key_share_loop kx h gs ops st)) = select_group_loop h gs \<and>
     (\<forall>ks. fst (build_key_share_loop kx h gs ops st) = Some (Some ks) \<longrightarrow>
        length (key_exchange ks) = (if ks_group ks = TLS_NAMED_GROUP_X25519 then 32 else 1120))"
  using assms
proof (induction gs arbitrary: st)
  case (Cons g gs)
  then obtain x where x: "client_hello_key_share_group_len g = Some x" by auto
  show ?case
  proof (rule key_share_group_entry_cases [of h g x])
    assume e: "client_hello_key_share_group_entry h g x = Some None"
    show ?thesis using Cons x e build_for_group(1) [OF x e, of kx ops st] by simp
  next
    fix k assume k: "client_hello_key_share_group_entry h g x = Some (Some k)"
    then obtain ks st' where "build_server_hello_key_share_for_group kx h g ops st = (Some (Some ks), st')"
        "ks_group ks = g" "length (key_exchange ks) = (if g = TLS_NAMED_GROUP_X25519 then 32 else 1120)"
      using build_for_group(2) [OF x k, of kx ops st] by blast
    then show ?thesis using x k by simp
  qed
qed simp

text \<open>C25.
  Selecting a key-share group and building a key share agree on every ClientHello: the builder
  answers exactly when the selector finds a group, with that group, in the order of preference,
  and the share it builds has the length the group demands (32 bytes for X25519, 1120 for
  X25519MLKEM768).  Neither panics.
\<close>

theorem build_key_share_matches_selection:
  "select_server_hello_key_share_group_with_preference h pref \<noteq> None \<and>
   map_option (map_option ks_group) (fst (build_server_hello_key_share kx h pref ops st)) =
     select_server_hello_key_share_group_with_preference h pref \<and>
   (case fst (build_server_hello_key_share kx h pref ops st) of
      Some (Some ks) \<Rightarrow> length (key_exchange ks) = (if ks_group ks = TLS_NAMED_GROUP_X25519 then 32 else 1120)
    | _ \<Rightarrow> True)"
proof -
  have "\<forall>g\<in>set (server_hello_key_share_candidate_order pref). client_hello_key_share_group_len g \<noteq> None"
    by (auto simp: server_hello_key_share_candidate_order_def client_hello_key_share_group_len_def)
  from build_loop_select [OF this, of kx h ops st] select_group_total [of h] show ?thesis
    unfolding select_server_hello_key_share_group_with_preference_def build_server_hello_key_share_def
    by (auto split: option.split)
qed

end
