(* ===== verification/Tls_Grammar.thy ===== *)
theory Tls_Grammar
  imports Tls_Hello
begin

text \<open>
  The parsers of \<open>src/protocol/tls.rs\<close> against the TLS grammar.  A ClientHello is an abstract
  record (\<open>hello\<close>) with an encoding; each parser, run on the encoding followed by any bytes,
  returns the value that the abstract lists determine.
\<close>

section \<open>Abstract ClientHello\<close>

record hello =
  legacy_ver :: nat
  hello_rnd :: bytes
  hello_sid :: bytes
  hello_suites_offered :: "(byte \<times> byte) list"
  hello_comp :: bytes
  hello_exts :: "(nat \<times> bytes) list"

definition enc_ext :: "nat \<times> bytes \<Rightarrow> bytes" where
  "enc_ext e = nat_be 2 (fst e) @ nat_be 2 (length (snd e)) @ snd e"

definition enc_suites :: "(byte \<times> byte) list \<Rightarrow> bytes" where
  "enc_suites ss = concat (map (\<lambda>(a, b). [a, b]) ss)"

definition enc_exts :: "(nat \<times> bytes) list \<Rightarrow> bytes" where
  "enc_exts es = concat (map enc_ext es)"

definition hello_body :: "hello \<Rightarrow> bytes" where
  "hello_body c = nat_be 2 (legacy_ver c) @ hello_rnd c @ [of_nat (length (hello_sid c))] @ hello_sid c
     @ nat_be 2 (length (enc_suites (hello_suites_offered c))) @ enc_suites (hello_suites_offered c)
     @ [of_nat (length (hello_comp c))] @ hello_comp c
     @ nat_be 2 (length (enc_exts (hello_exts c))) @ enc_exts (hello_exts c)"

definition client_hello :: "hello \<Rightarrow> bytes" where
  "client_hello c = [0x16, 3, 1] @ nat_be 2 (4 + length (hello_body c)) @ [1]
     @ nat_be 3 (length (hello_body c)) @ hello_body c"

definition ext_fits :: "nat \<times> bytes \<Rightarrow> bool" where
  "ext_fits e \<longleftrightarrow> fst e < 65536 \<and> length (snd e) < 65536"

definition wf_hello :: "hello \<Rightarrow> bool" where
  "wf_hello c \<longleftrightarrow> legacy_ver c < 65536 \<and> length (hello_rnd c) = 32 \<and> length (hello_sid c) \<le> 255 \<and>
     hello_suites_offered c \<noteq> [] \<and> length (hello_comp c) \<le> 255 \<and> list_all ext_fits (hello_exts c) \<and>
     length (hello_body c) < 65532"

section \<open>Reading at a position\<close>

lemma idx_at: "drop p h = a # r \<Longrightarrow> idx h p = Some a \<and> drop (Suc p) h = r"
  by (metis drop_eq_Nil2 drop_Suc idx_def linorder_not_le list.distinct(1) list.sel(3) nth_via_drop tl_drop)

definition u16_at :: "bytes \<Rightarrow> nat \<Rightarrow> nat \<Rightarrow> bool" where
  "u16_at h p v \<longleftrightarrow> (\<exists>a b. idx h p = Some a \<and> idx h (Suc p) = Some b \<and> be16 a b = v)"

lemma u16_atI: "drop p h = nat_be 2 v @ r \<Longrightarrow> v < 65536 \<Longrightarrow> u16_at h p v \<and> drop (p + 2) h = r"
  using idx_at [of p h "of_nat (v div 256)" "of_nat v # r"] idx_at [of "Suc p" h "of_nat v" r]
  by (auto simp: u16_at_def nat_be_2 del: conjI)

lemma drop_at: "drop p h = a @ r \<Longrightarrow> drop (p + length a) h = r"
  by (metis add.commute append_eq_conv_conj drop_drop)

lemma end_at: "drop p h = a @ r \<Longrightarrow> p \<le> length h \<Longrightarrow> p + length a \<le> length h"
  by (metis add_le_cancel_left drop_append length_append length_drop le_add1 le_add_diff_inverse)

lemma slice_at: "drop p h = a @ r \<Longrightarrow> p \<le> length h \<Longrightarrow> slice h p (p + length a) = Some a"
  by (metis append_eq_conv_conj diff_add_inverse end_at slice_in le_add1)

lemma length_enc_ext [simp]: "length (enc_ext e) = 4 + length (snd e)"
  by (simp add: enc_ext_def)

lemma enc_exts_simps [simp]: "enc_exts [] = []" "enc_exts (e # es) = enc_ext e @ enc_exts es"
  by (simp_all add: enc_exts_def)

lemma length_enc_suites [simp]: "length (enc_suites ss) = 2 * length ss"
  by (induction ss) (auto simp: enc_suites_def)

lemma ext_at:
  assumes "drop p h = enc_ext e @ r" "ext_fits e"
  shows "u16_at h p (fst e)" "u16_at h (p + 2) (length (snd e))"
    "drop (p + 4) h = snd e @ r" "drop (p + 4 + length (snd e)) h = r"
proof -
  have a: "drop p h = nat_be 2 (fst e) @ nat_be 2 (length (snd e)) @ snd e @ r"
    using assms(1) by (simp add: enc_ext_def)
  have f: "fst e < 65536" "length (snd e) < 65536" using assms(2) by (simp_all add: ext_fits_def)
  note b = u16_atI [OF a f(1)]
  note c = u16_atI [OF conjunct2 [OF b] f(2)]
  have d: "drop (p + 4) h = snd e @ r" using c by (simp only: add.assoc) simp
  show "u16_at h p (fst e)" "u16_at h (p + 2) (length (snd e))" using b c by blast+
  show "drop (p + 4) h = snd e @ r" "drop (p + 4 + length (snd e)) h = r"
    using d drop_at [OF d] by simp_all
qed

section \<open>Server names\<close>

definition enc_name :: "byte \<times> bytes \<Rightarrow> bytes" where
  "enc_name n = fst n # nat_be 2 (length (snd n)) @ snd n"

definition enc_names :: "(byte \<times> bytes) list \<Rightarrow> bytes" where
  "enc_names ns = concat (map enc_name ns)"

definition sni_data :: "(byte \<times> bytes) list \<Rightarrow> bytes" where
  "sni_data ns = nat_be 2 (length (enc_names ns)) @ enc_names ns"

lemma enc_names_simps [simp]: "enc_names [] = []" "enc_names (n # ns) = enc_name n @ enc_names ns"
  by (simp_all add: enc_names_def)

lemma length_enc_name [simp]: "length (enc_name n) = 3 + length (snd n)"
  by (simp add: enc_name_def)

text \<open>A valid host name is non-empty ASCII text, so the UTF-8 check adds nothing.\<close>

lemma valid_hostname_ascii:
  assumes "is_valid_sni_hostname host"
  shows "host \<noteq> []" "utf8_valid host"
proof -
  show "host \<noteq> []" using assms by (auto simp: is_valid_sni_hostname_def)
  have "\<forall>w\<in>set (split_at 46 host). \<forall>b\<in>set w. unat b < 128"
    using assms by (auto simp: is_valid_sni_hostname_def valid_label_def is_ascii_alphanumeric_def list_all_iff
        split: if_splits dest!: bspec)
  then have "\<forall>b\<in>set host. b = 46 \<or> unat b < 128" by (simp only: split_at_all)
  then show "utf8_valid host" by (intro utf8_valid_ascii) (auto simp: list_all_iff)
qed

definition is_host_name :: "byte \<times> bytes \<Rightarrow> bool" where
  "is_host_name n \<longleftrightarrow> fst n = 0 \<and> is_valid_sni_hostname (snd n)"

lemma sni_names_step:
  assumes "drop p h = enc_name n @ r" "p \<le> length h" "length (snd n) < 65536" "p + length (enc_name n) \<le> e"
  shows "sni_names h p e x =
    (if is_host_name n then Some (Some (snd n)) else sni_names h (p + length (enc_name n)) e x)"
proof -
  have a: "drop p h = fst n # nat_be 2 (length (snd n)) @ snd n @ r"
    using assms(1) by (simp add: enc_name_def)
  note i = idx_at [OF a]
  note u = u16_atI [OF conjunct2 [OF i] assms(3)]
  have d: "drop (p + 3) h = snd n @ r" using u by (simp add: eval_nat_numeral)
  have le: "p + 3 \<le> length h" using end_at [OF assms(1,2)] by simp
  obtain b c where bc: "idx h (Suc p) = Some b" "idx h (Suc (Suc p)) = Some c" "be16 b c = length (snd n)"
    using u by (auto simp: u16_at_def)
  have "slice h (p + 3) (p + 3 + length (snd n)) = Some (snd n)" by (rule slice_at [OF d le])
  then show ?thesis
    using assms(4) i bc valid_hostname_ascii [of "snd n"]
    by (subst sni_names.simps) (auto simp: Let_def is_host_name_def add.assoc)
qed

lemma sni_names_enc:
  assumes "drop p h = enc_names ns @ r" "p \<le> length h" "\<forall>n\<in>set ns. length (snd n) < 65536"
  shows "sni_names h p (p + length (enc_names ns)) x =
    Some (case find is_host_name ns of Some n \<Rightarrow> Some (snd n) | None \<Rightarrow> x)"
  using assms
proof (induction ns arbitrary: p)
  case Nil
  then show ?case by (subst sni_names.simps) simp
next
  case (Cons n ns)
  have a: "drop p h = enc_name n @ enc_names ns @ r" using Cons.prems by simp
  note st = sni_names_step [OF a Cons.prems(2), of "p + length (enc_names (n # ns))" x]
  have "p + length (enc_name n) \<le> length h" by (rule end_at [OF a Cons.prems(2)])
  then have "sni_names h (p + length (enc_name n)) (p + length (enc_name n) + length (enc_names ns)) x =
      Some (case find is_host_name ns of Some n \<Rightarrow> Some (snd n) | None \<Rightarrow> x)"
    using Cons.prems by (intro Cons.IH drop_at [OF a]) auto
  then show ?case using st Cons.prems(3) by (simp add: add.assoc del: length_enc_name)
qed

section \<open>Walking the extensions\<close>

lemma sni_exts_step:
  assumes "drop p h = enc_ext ex @ r" "ext_fits ex" "p + length (enc_ext ex) \<le> e"
  shows "sni_exts h p e saw x =
    (if fst ex = 0 \<and> saw then Some None
     else do { x' \<leftarrow> sni_ext_data h (p + 4) (fst ex) (length (snd ex)) x;
               sni_exts h (p + length (enc_ext ex)) e (saw \<or> fst ex = 0) x' })"
proof -
  note a = ext_at [OF assms(1,2)]
  obtain t0 t1 l0 l1 where b: "idx h p = Some t0" "idx h (Suc p) = Some t1" "be16 t0 t1 = fst ex"
      "idx h (Suc (Suc p)) = Some l0" "idx h (p + 3) = Some l1" "be16 l0 l1 = length (snd ex)"
    using a(1,2) by (auto simp: u16_at_def eval_nat_numeral)
  show ?thesis
    using assms(3) b by (subst sni_exts.simps) (auto simp: Let_def add.assoc)
qed

lemma sni_exts_end: "sni_exts h p p saw x = Some x"
  by (subst sni_exts.simps) simp

lemma sni_ext_data_other: "etype \<noteq> 0 \<Longrightarrow> sni_ext_data h p etype elen x = Some x"
  by (simp add: sni_ext_data_def)

lemma sni_exts_skip:
  assumes "drop p h = enc_exts es @ r" "p \<le> length h" "list_all ext_fits es" "\<forall>e\<in>set es. fst e \<noteq> 0"
    and "p + length (enc_exts es) \<le> end_pos"
  shows "sni_exts h p end_pos saw x = sni_exts h (p + length (enc_exts es)) end_pos saw x"
  using assms
proof (induction es arbitrary: p)
  case (Cons e es)
  have a: "drop p h = enc_ext e @ enc_exts es @ r" using Cons.prems by simp
  have "p + length (enc_ext e) \<le> length h" by (rule end_at [OF a Cons.prems(2)])
  then have "sni_exts h (p + length (enc_ext e)) end_pos saw x =
      sni_exts h (p + length (enc_ext e) + length (enc_exts es)) end_pos saw x"
    using Cons.prems by (intro Cons.IH drop_at [OF a]) auto
  then show ?case
    using sni_exts_step [OF a, of end_pos saw x] Cons.prems
    by (simp add: sni_ext_data_other add.assoc del: length_enc_ext)
qed simp

lemma sni_ext_data_enc:
  assumes "drop p h = sni_data ns @ r" "p \<le> length h" "length (sni_data ns) < 65536"
  shows "sni_ext_data h p 0 (length (sni_data ns)) x =
    Some (case find is_host_name ns of Some n \<Rightarrow> Some (snd n) | None \<Rightarrow> x)"
proof (cases ns)
  case Nil
  then show ?thesis by (simp add: sni_ext_data_def sni_data_def)
next
  case (Cons n ns')
  have a: "drop p h = nat_be 2 (length (enc_names ns)) @ enc_names ns @ r"
    using assms(1) by (simp add: sni_data_def)
  have len: "length (enc_names ns) < 65536" using assms(3) by (simp add: sni_data_def)
  note u = u16_atI [OF a len]
  have le: "p + 2 \<le> length h" using end_at [OF assms(1,2)] by (simp add: sni_data_def)
  have "length (snd m) \<le> length (enc_names ns)" if "m \<in> set ns" for m
    using that by (induction ns) auto
  then have "sni_names h (p + 2) (p + 2 + length (enc_names ns)) x =
      Some (case find is_host_name ns of Some n \<Rightarrow> Some (snd n) | None \<Rightarrow> x)"
    using u le len by (intro sni_names_enc) fastforce+
  moreover have "5 \<le> length (sni_data ns)" using Cons by (simp add: sni_data_def)
  ultimately show ?thesis
    using u by (auto simp: sni_ext_data_def u16_at_def sni_data_def Let_def add.assoc)
qed

lemma sni_exts_enc:
  assumes "drop p h = enc_exts (pre @ (0, sni_data ns) # post) @ r" "p \<le> length h"
    and "list_all ext_fits (pre @ (0, sni_data ns) # post)" "\<forall>e\<in>set (pre @ post). fst e \<noteq> 0"
  shows "sni_exts h p (p + length (enc_exts (pre @ (0, sni_data ns) # post))) False None =
    Some (map_option snd (find is_host_name ns))"
proof -
  define E where "E = p + length (enc_exts (pre @ (0, sni_data ns) # post))"
  define q where "q = p + length (enc_exts pre)"
  define q1 where "q1 = q + length (enc_ext (0, sni_data ns))"
  have a: "drop p h = enc_exts pre @ enc_ext (0, sni_data ns) @ enc_exts post @ r"
    using assms(1) by (simp add: enc_exts_def)
  note b = drop_at [OF a, folded q_def]
  have q: "q \<le> length h" using end_at [OF a assms(2)] by (simp add: q_def)
  note c = drop_at [OF b, folded q1_def]
  have q1: "q1 \<le> length h" using end_at [OF b q] by (simp add: q1_def)
  have E: "E = q1 + length (enc_exts post)" by (simp add: E_def q1_def q_def enc_exts_def)
  have len: "length (sni_data ns) < 65536" using assms(3) by (simp add: ext_fits_def)
  have d: "drop (q + 4) h = sni_data ns @ enc_exts post @ r"
    using ext_at(3) [OF b] assms(3) by simp
  have f: "sni_ext_data h (q + 4) 0 (length (sni_data ns)) None = Some (map_option snd (find is_host_name ns))"
    using sni_ext_data_enc [OF d _ len, of None] q1 by (simp add: map_option_case q1_def)
  have "sni_exts h p E False None = sni_exts h q E False None"
    unfolding q_def using assms E by (intro sni_exts_skip [OF a assms(2)]) (auto simp: q1_def q_def)
  also have "\<dots> = sni_exts h q1 E True (map_option snd (find is_host_name ns))"
    using sni_exts_step [OF b, of E False None] f assms(3) E by (simp add: q1_def)
  also have "\<dots> = sni_exts h E E True (map_option snd (find is_host_name ns))"
    unfolding E using assms by (intro sni_exts_skip [OF c q1]) auto
  finally show ?thesis by (simp add: sni_exts_end E_def)
qed

text \<open>A second server_name extension rejects the hello, whatever its body.\<close>

lemma sni_exts_dup:
  assumes "drop p h = enc_exts (pre @ (0, d1) # mid @ (0, d2) # post) @ r" "p \<le> length h"
    and "list_all ext_fits (pre @ (0, d1) # mid @ (0, d2) # post)" "\<forall>e\<in>set (pre @ mid). fst e \<noteq> 0"
  shows "sni_exts h p (p + length (enc_exts (pre @ (0, d1) # mid @ (0, d2) # post))) False None = Some None"
proof -
  define E where "E = p + length (enc_exts (pre @ (0, d1) # mid @ (0, d2) # post))"
  define q where "q = p + length (enc_exts pre)"
  define q1 where "q1 = q + length (enc_ext (0, d1))"
  define q2 where "q2 = q1 + length (enc_exts mid)"
  have a: "drop p h = enc_exts pre @ enc_ext (0, d1) @ enc_exts mid @ enc_ext (0, d2) @ enc_exts post @ r"
    using assms(1) by (simp add: enc_exts_def)
  note b = drop_at [OF a, folded q_def]
  have q: "q \<le> length h" using end_at [OF a assms(2)] by (simp add: q_def)
  note c = drop_at [OF b, folded q1_def]
  have q1: "q1 \<le> length h" using end_at [OF b q] by (simp add: q1_def)
  note d = drop_at [OF c, folded q2_def]
  have E: "E = q2 + length (enc_ext (0, d2)) + length (enc_exts post)"
    by (simp add: E_def q2_def q1_def q_def enc_exts_def)
  obtain x where x: "sni_ext_data h (q + 4) 0 (length d1) None = Some x"
    using sni_ext_data_total [of "q + 4" "length d1" h 0 None] q1 by (auto simp: q1_def)
  have "sni_exts h p E False None = sni_exts h q E False None"
    unfolding q_def using assms E by (intro sni_exts_skip [OF a assms(2)]) (auto simp: q2_def q1_def q_def)
  also have "\<dots> = sni_exts h q1 E True x"
    using sni_exts_step [OF b, of E False None] x assms(3) E by (simp add: q1_def q2_def)
  also have "\<dots> = sni_exts h q2 E True x"
    unfolding q2_def using assms E by (intro sni_exts_skip [OF c q1]) (auto simp: q2_def)
  also have "\<dots> = Some None"
    using sni_exts_step [OF d, of E True x] assms(3) E by simp
  finally show ?thesis by (simp add: E_def)
qed

section \<open>The fixed part of the hello\<close>

text \<open>Position of the extensions, and what stands at the fixed positions before them.\<close>

definition ext_pos :: "hello \<Rightarrow> nat" where
  "ext_pos c = 49 + length (hello_sid c) + 2 * length (hello_suites_offered c) + length (hello_comp c)"

lemma hello_layout:
  assumes "wf_hello c" "h = client_hello c @ r"
  shows "idx h 0 = Some 0x16" "u16_at h 3 (4 + length (hello_body c))" "idx h 5 = Some 1"
    "drop 6 h = nat_be 3 (length (hello_body c)) @ hello_body c @ r"
    "length h = 9 + length (hello_body c) + length r"
proof -
  let ?b = "nat_be 3 (length (hello_body c)) @ hello_body c @ r"
  have h: "drop 0 h = [0x16, 3, 1] @ nat_be 2 (4 + length (hello_body c)) @ 1 # ?b"
    using assms(2) by (simp add: client_hello_def)
  show "idx h 0 = Some 0x16" using idx_at [of 0 h] h by simp
  have "drop 3 h = nat_be 2 (4 + length (hello_body c)) @ 1 # ?b" using arg_cong [OF h, of "drop 3"] by simp
  note u = u16_atI [OF this]
  have l: "4 + length (hello_body c) < 65536" using assms(1) by (simp add: wf_hello_def)
  show "u16_at h 3 (4 + length (hello_body c))" using u l by blast
  have d5: "drop 5 h = 1 # ?b" using u l by simp
  show "idx h 5 = Some 1" "drop 6 h = ?b" using idx_at [OF d5] by simp_all
  show "length h = 9 + length (hello_body c) + length r" using assms(2) by (simp add: client_hello_def)
qed

lemma length_hello_body:
  "length (hello_rnd c) = 32 \<Longrightarrow> 9 + length (hello_body c) = ext_pos c + length (enc_exts (hello_exts c))"
  by (simp add: hello_body_def ext_pos_def)

lemma hello_body_layout:
  assumes "wf_hello c" "h = client_hello c @ r"
  defines "s \<equiv> length (hello_sid c)" and "n \<equiv> 2 * length (hello_suites_offered c)" and "m \<equiv> length (hello_comp c)"
  shows "u16_at h 9 (legacy_ver c)" "idx h 43 = Some (of_nat s)"
    "u16_at h (44 + s) n" "drop (46 + s) h = enc_suites (hello_suites_offered c) @ drop (46 + s + n) h"
    "idx h (46 + s + n) = Some (of_nat m)"
    "u16_at h (47 + s + n + m) (length (enc_exts (hello_exts c)))"
    "drop (ext_pos c) h = enc_exts (hello_exts c) @ r"
proof -
  let ?E = "enc_exts (hello_exts c)" and ?S = "enc_suites (hello_suites_offered c)"
  note wf = assms(1) [unfolded wf_hello_def]
  have bound: "length ?E < 65536" "n < 65536"
    using wf by (auto simp: hello_body_def n_def)
  have d9: "drop 9 h = nat_be 2 (legacy_ver c) @ hello_rnd c @ of_nat s # hello_sid c @ nat_be 2 n @ ?S
      @ of_nat m # hello_comp c @ nat_be 2 (length ?E) @ ?E @ r"
    using drop_at [OF hello_layout(4) [OF assms(1,2)]] by (simp add: hello_body_def s_def n_def m_def)
  note u9 = u16_atI [OF d9]
  then show "u16_at h 9 (legacy_ver c)" using wf by blast
  have "drop 11 h = hello_rnd c @ of_nat s # hello_sid c @ nat_be 2 n @ ?S
      @ of_nat m # hello_comp c @ nat_be 2 (length ?E) @ ?E @ r" using u9 wf by simp
  then have d43: "drop 43 h = of_nat s # hello_sid c @ nat_be 2 n @ ?S
      @ of_nat m # hello_comp c @ nat_be 2 (length ?E) @ ?E @ r" using drop_at wf by fastforce
  show "idx h 43 = Some (of_nat s)" using idx_at [OF d43] by blast
  have "drop 44 h = hello_sid c @ nat_be 2 n @ ?S
      @ of_nat m # hello_comp c @ nat_be 2 (length ?E) @ ?E @ r" using idx_at [OF d43] by simp
  note d44 = drop_at [OF this, folded s_def]
  note u44 = u16_atI [OF d44 bound(2)]
  then show "u16_at h (44 + s) n" by blast
  have d46: "drop (46 + s) h = ?S @ of_nat m # hello_comp c @ nat_be 2 (length ?E) @ ?E @ r"
    using u44 by (simp add: add.commute add.left_commute)
  have dn: "drop (46 + s + n) h = of_nat m # hello_comp c @ nat_be 2 (length ?E) @ ?E @ r"
    using drop_at [OF d46] by (simp add: n_def)
  then show "drop (46 + s) h = ?S @ drop (46 + s + n) h" using d46 by simp
  show "idx h (46 + s + n) = Some (of_nat m)" using idx_at [OF dn] by blast
  have "drop (47 + s + n) h = hello_comp c @ nat_be 2 (length ?E) @ ?E @ r" using idx_at [OF dn] by (simp add: add.assoc)
  note dm = drop_at [OF this, folded m_def]
  note um = u16_atI [OF dm bound(1)]
  then show "u16_at h (47 + s + n + m) (length ?E)" by blast
  have "47 + s + n + m + 2 = ext_pos c" by (simp add: ext_pos_def s_def n_def m_def)
  then show "drop (ext_pos c) h = ?E @ r" using um by metis
qed

lemma be24_of_nat:
  assumes "v < 65536"
  shows "be24 (of_nat (v div 256 div 256)) (of_nat (v div 256)) (of_nat v) = v"
proof -
  have "v div 256 < 256" using assms by simp
  then have "v div 256 div 256 = 0" "v div 256 mod 256 = v div 256" by simp_all
  then show ?thesis by (simp add: be24_def)
qed

text \<open>The values read at those positions, in the form in which the parsers read them.\<close>

lemma hello_reads:
  assumes "wf_hello c" "h = client_hello c @ r"
  defines "s \<equiv> length (hello_sid c)" and "n \<equiv> 2 * length (hello_suites_offered c)" and "m \<equiv> length (hello_comp c)"
  obtains r0 r1 m0 m1 m2 v0 v1 c0 c1 e0 e1 where
    "idx h 3 = Some r0" "idx h 4 = Some r1" "be16 r0 r1 = 4 + length (hello_body c)"
    "idx h 6 = Some m0" "idx h 7 = Some m1" "idx h 8 = Some m2" "be24 m0 m1 m2 = length (hello_body c)"
    "idx h 9 = Some v0" "idx h 10 = Some v1" "be16 v0 v1 = legacy_ver c"
    "idx h 43 = Some (of_nat s)" "unat (of_nat s :: byte) = s"
    "idx h (44 + s) = Some c0" "idx h (45 + s) = Some c1" "be16 c0 c1 = n"
    "idx h (46 + s + n) = Some (of_nat m)" "unat (of_nat m :: byte) = m"
    "idx h (47 + s + n + m) = Some e0" "idx h (48 + s + n + m) = Some e1"
    "be16 e0 e1 = length (enc_exts (hello_exts c))"
proof -
  note l = hello_layout [OF assms(1,2)]
  note b = hello_body_layout [OF assms(1,2), folded s_def n_def m_def]
  have len: "length (hello_body c) < 256 ^ 3" "s \<le> 255" "m \<le> 255"
    using assms(1) by (simp_all add: wf_hello_def s_def m_def)
  have d6: "drop 6 h = of_nat (length (hello_body c) div 256 div 256) # of_nat (length (hello_body c) div 256)
      # of_nat (length (hello_body c)) # hello_body c @ r"
    using l(4) by (simp add: nat_be_3)
  note i6 = idx_at [OF d6]
  note i7 = idx_at [OF conjunct2 [OF i6]]
  note i8 = idx_at [OF conjunct2 [OF i7]]
  have be: "be24 (of_nat (length (hello_body c) div 256 div 256)) (of_nat (length (hello_body c) div 256))
      (of_nat (length (hello_body c))) = length (hello_body c)"
    using assms(1) by (intro be24_of_nat) (simp add: wf_hello_def)
  show thesis
    using l(2) b i6 i7 i8 be len that by (simp add: u16_at_def add.assoc) metis
qed

lemma hello_lengths:
  assumes "wf_hello c" "h = client_hello c @ r"
  shows "length (hello_body c) = 40 + (length (hello_sid c) + (2 * length (hello_suites_offered c)
      + (length (hello_comp c) + length (enc_exts (hello_exts c)))))"
    "length h = 49 + (length (hello_sid c) + (2 * length (hello_suites_offered c)
      + (length (hello_comp c) + (length (enc_exts (hello_exts c)) + length r))))"
  using assms hello_layout(5) [OF assms] by (simp_all add: hello_body_def wf_hello_def)

lemma extract_sni_hello:
  assumes "wf_hello c" and h: "h = client_hello c @ r"
  shows "extract_sni_from_client_hello h =
    sni_exts h (ext_pos c) (ext_pos c + length (enc_exts (hello_exts c))) False None"
  by (rule hello_reads [OF assms])
    (simp add: extract_sni_from_client_hello_def Let_def hello_layout [OF assms] hello_lengths [OF assms]
      TLS_RECORD_HANDSHAKE_def ext_pos_def add.assoc)

lemma extract_alpn_hello:
  assumes "wf_hello c" and h: "h = client_hello c @ r"
  shows "extract_alpn_from_client_hello h =
    alpn_exts h (ext_pos c) (ext_pos c + length (enc_exts (hello_exts c)))"
  by (rule hello_reads [OF assms])
    (simp add: extract_alpn_from_client_hello_def Let_def hello_layout [OF assms] hello_lengths [OF assms]
      TLS_RECORD_HANDSHAKE_def ext_pos_def add.assoc)

lemma detect_version_hello:
  assumes "wf_hello c" and h: "h = client_hello c @ r"
  shows "detect_client_hello_tls_version h =
    version_exts h (ext_pos c) (ext_pos c + length (enc_exts (hello_exts c))) (legacy_ver c)"
  by (rule hello_reads [OF assms])
    (simp add: detect_client_hello_tls_version_def Let_def hello_layout [OF assms] hello_lengths [OF assms]
      TLS_RECORD_HANDSHAKE_def ext_pos_def add.assoc)

lemma suites_range_hello:
  assumes "wf_hello c" and h: "h = client_hello c @ r"
  shows "client_hello_cipher_suites_range h = Some (Some (46 + length (hello_sid c),
    46 + length (hello_sid c) + 2 * length (hello_suites_offered c)))"
proof -
  have w: "hello_suites_offered c \<noteq> []" "length (hello_body c) < 65532" using assms by (simp_all add: wf_hello_def)
  then show ?thesis
    by (rule_tac hello_reads [OF assms])
      (simp add: client_hello_cipher_suites_range_def hello_suites_def Let_def hello_layout [OF assms] hello_lengths [OF assms]
      TLS_RECORD_HANDSHAKE_def ext_pos_def add.assoc checked_add_def)
qed

lemma exts_range_hello:
  assumes "wf_hello c" and h: "h = client_hello c @ r"
  shows "client_hello_extensions_range h = Some (Some (ext_pos c, ext_pos c + length (enc_exts (hello_exts c))))"
proof -
  have w: "hello_suites_offered c \<noteq> []" "length (hello_body c) < 65532" using assms by (simp_all add: wf_hello_def)
  then show ?thesis
    by (rule_tac hello_reads [OF assms])
      (simp add: client_hello_extensions_range_def hello_suites_def Let_def hello_layout [OF assms] hello_lengths [OF assms]
      TLS_RECORD_HANDSHAKE_def ext_pos_def add.assoc checked_add_def)
qed

section \<open>Protocols, versions, suites and key shares\<close>

lemma ext_reads:
  assumes "drop p h = enc_ext e @ r" "ext_fits e"
  obtains t0 t1 l0 l1 where "idx h p = Some t0" "idx h (Suc p) = Some t1" "be16 t0 t1 = fst e"
      "idx h (Suc (Suc p)) = Some l0" "idx h (p + 3) = Some l1" "be16 l0 l1 = length (snd e)"
  using ext_at(1,2) [OF assms] that by (auto simp: u16_at_def eval_nat_numeral)

definition enc_protocols :: "bytes list \<Rightarrow> bytes" where
  "enc_protocols ps = concat (map (\<lambda>p. of_nat (length p) # p) ps)"

definition alpn_data :: "bytes list \<Rightarrow> bytes" where
  "alpn_data ps = nat_be 2 (length (enc_protocols ps)) @ enc_protocols ps"

lemma enc_protocols_simps [simp]: "enc_protocols [] = []"
  "enc_protocols (p # ps) = (of_nat (length p) # p) @ enc_protocols ps"
  by (simp_all add: enc_protocols_def)

lemma alpn_protocols_enc:
  assumes "drop p h = enc_protocols ps @ r" "p \<le> length h" "\<forall>x\<in>set ps. length x \<le> 255"
  shows "alpn_protocols h p (p + length (enc_protocols ps)) out = Some (out @ ps)"
  using assms
proof (induction ps arbitrary: p out)
  case Nil
  then show ?case by (subst alpn_protocols.simps) simp
next
  case (Cons x ps)
  have a: "drop p h = of_nat (length x) # x @ enc_protocols ps @ r" using Cons.prems by simp
  note i = idx_at [OF a]
  have le: "Suc p \<le> length h" using i by (auto simp: idx_def split: if_splits)
  have sl: "slice h (Suc p) (Suc p + length x) = Some x" using slice_at i le by blast
  have "alpn_protocols h (Suc p + length x) (Suc p + length x + length (enc_protocols ps)) (out @ [x]) = Some ((out @ [x]) @ ps)"
    using Cons.prems drop_at [OF conjunct2 [OF i]] end_at [OF conjunct2 [OF i] le] by (intro Cons.IH) auto
  then show ?case
    using i sl Cons.prems(3) by (subst alpn_protocols.simps) (simp add: Let_def add.assoc)
qed

lemma alpn_exts_skip:
  assumes "drop p h = enc_exts es @ r" "p \<le> length h" "list_all ext_fits es" "\<forall>e\<in>set es. fst e \<noteq> ALPN"
    and "p + length (enc_exts es) \<le> end_pos"
  shows "alpn_exts h p end_pos = alpn_exts h (p + length (enc_exts es)) end_pos"
  using assms
proof (induction es arbitrary: p)
  case (Cons e es)
  have a: "drop p h = enc_ext e @ enc_exts es @ r" using Cons.prems by simp
  have "p + length (enc_ext e) \<le> length h" by (rule end_at [OF a Cons.prems(2)])
  then have "alpn_exts h (p + length (enc_ext e)) end_pos =
      alpn_exts h (p + length (enc_ext e) + length (enc_exts es)) end_pos"
    using Cons.prems by (intro Cons.IH drop_at [OF a]) auto
  moreover have "alpn_exts h p end_pos = alpn_exts h (p + length (enc_ext e)) end_pos"
    using Cons.prems by (rule_tac ext_reads [OF a]) (simp, subst alpn_exts.simps, simp add: Let_def add.assoc)
  ultimately show ?case by (simp add: add.assoc)
qed simp

lemma alpn_exts_enc:
  assumes "drop p h = enc_exts (pre @ (ALPN, alpn_data ps) # post) @ r" "p \<le> length h" "length h \<le> U64_MAX"
    and "list_all ext_fits (pre @ (ALPN, alpn_data ps) # post)" "\<forall>e\<in>set pre. fst e \<noteq> ALPN"
    and "ps \<noteq> []" "\<forall>x\<in>set ps. length x \<le> 255"
  shows "alpn_exts h p (p + length (enc_exts (pre @ (ALPN, alpn_data ps) # post))) = Some ps"
proof -
  define E where "E = p + length (enc_exts (pre @ (ALPN, alpn_data ps) # post))"
  define q where "q = p + length (enc_exts pre)"
  have a: "drop p h = enc_exts pre @ enc_ext (ALPN, alpn_data ps) @ enc_exts post @ r"
    using assms(1) by (simp add: enc_exts_def)
  note b = drop_at [OF a, folded q_def]
  have q: "q \<le> length h" using end_at [OF a assms(2)] by (simp add: q_def)
  have fit: "ext_fits (ALPN, alpn_data ps)" using assms(4) by simp
  have E: "E = q + 4 + length (alpn_data ps) + length (enc_exts post)" by (simp add: E_def q_def enc_exts_def)
  have d: "drop (q + 4) h = nat_be 2 (length (enc_protocols ps)) @ enc_protocols ps @ enc_exts post @ r"
    using ext_at(3) [OF b fit] by (simp add: alpn_data_def)
  have len: "length (enc_protocols ps) < 65536" using fit by (simp add: ext_fits_def alpn_data_def)
  note u = u16_atI [OF d len]
  have le: "q + 6 + length (enc_protocols ps) \<le> length h" using end_at [OF b q] by (simp add: alpn_data_def)
  have d6: "drop (q + 6) h = enc_protocols ps @ enc_exts post @ r"
    using u by (simp only: add.assoc) simp
  have "alpn_protocols h (q + 6) (q + 6 + length (enc_protocols ps)) [] = Some ps"
    using alpn_protocols_enc [OF d6 _ assms(7), of "[]"] le by simp
  moreover have "3 \<le> length (alpn_data ps)" using assms(6) by (cases ps) (auto simp: alpn_data_def)
  moreover obtain n0 n1 where "idx h (q + 4) = Some n0" "idx h (5 + q) = Some n1" "be16 n0 n1 = length (enc_protocols ps)"
    using u by (auto simp: u16_at_def)
  ultimately have "alpn_exts h q E = Some ps"
    using E assms(3) le
    by (rule_tac ext_reads [OF b fit]) (subst alpn_exts.simps, simp add: Let_def sat_add_def alpn_data_def add_ac)
  moreover have "alpn_exts h p E = alpn_exts h q E"
    unfolding q_def using assms E by (intro alpn_exts_skip [OF a assms(2)]) (auto simp: q_def)
  ultimately show ?thesis by (simp add: E_def)
qed

definition versions_data :: "nat list \<Rightarrow> bytes" where
  "versions_data vs = of_nat (2 * length vs) # concat (map (nat_be 2) vs)"

lemma length_concat_be2 [simp]: "length (concat (map (nat_be 2) vs)) = 2 * length vs"
  by (induction vs) auto

text \<open>The generation a list of offered versions stands for.\<close>

definition generation :: "bool \<Rightarrow> nat list \<Rightarrow> ClientHelloTlsVersion option" where
  "generation old vs =
    (if 0x0304 \<in> set vs then Some Tls13
     else if old \<or> (\<exists>v\<in>set vs. v = 0x0303 \<or> v = 0x0302 \<or> v = 0x0301) then Some Tls12 else None)"

lemma version_list_enc:
  assumes "drop p h = concat (map (nat_be 2) vs) @ r" "\<forall>v\<in>set vs. v < 65536"
  shows "version_list h p (p + 2 * length vs) old = Some (generation old vs)"
  using assms
proof (induction vs arbitrary: p old)
  case Nil
  then show ?case by (subst version_list.simps) (simp add: generation_def)
next
  case (Cons v vs)
  have a: "drop p h = nat_be 2 v @ concat (map (nat_be 2) vs) @ r" using Cons.prems by simp
  have v: "v < 65536" using Cons.prems by simp
  note u = u16_atI [OF a v]
  let ?old = "old \<or> v = 0x0303 \<or> v = 0x0302 \<or> v = 0x0301"
  have IH: "version_list h (p + 2) (p + 2 + 2 * length vs) ?old = Some (generation ?old vs)"
    using Cons.prems u by (intro Cons.IH) auto
  obtain a b where ab: "idx h p = Some a" "idx h (Suc p) = Some b" "be16 a b = v"
    using u by (auto simp: u16_at_def)
  show ?case
  proof (cases "v = 0x0304")
    case True
    then show ?thesis using ab by (subst version_list.simps) (simp add: generation_def)
  next
    case False
    then have "version_list h p (p + 2 * length (v # vs)) old = version_list h (p + 2) (p + 2 + 2 * length vs) ?old"
      using ab by (subst version_list.simps) (simp add: Let_def)
    also note IH
    also have "generation ?old vs = generation old (v # vs)"
      using False by (auto simp: generation_def)
    finally show ?thesis .
  qed
qed

lemma version_exts_skip:
  assumes "drop p h = enc_exts es @ r" "p \<le> length h" "list_all ext_fits es"
    and "\<forall>e\<in>set es. fst e \<noteq> SUPPORTED_VERSIONS" "p + length (enc_exts es) \<le> end_pos"
  shows "version_exts h p end_pos lv = version_exts h (p + length (enc_exts es)) end_pos lv"
  using assms
proof (induction es arbitrary: p)
  case (Cons e es)
  have a: "drop p h = enc_ext e @ enc_exts es @ r" using Cons.prems by simp
  have "p + length (enc_ext e) \<le> length h" by (rule end_at [OF a Cons.prems(2)])
  then have "version_exts h (p + length (enc_ext e)) end_pos lv =
      version_exts h (p + length (enc_ext e) + length (enc_exts es)) end_pos lv"
    using Cons.prems by (intro Cons.IH drop_at [OF a]) auto
  moreover have "version_exts h p end_pos lv = version_exts h (p + length (enc_ext e)) end_pos lv"
    using Cons.prems by (rule_tac ext_reads [OF a]) (simp, subst version_exts.simps, simp add: Let_def add.assoc)
  ultimately show ?case by (simp add: add.assoc)
qed simp

lemma version_exts_none:
  assumes "drop p h = enc_exts es @ r" "p \<le> length h" "list_all ext_fits es"
    and "\<forall>e\<in>set es. fst e \<noteq> SUPPORTED_VERSIONS"
  shows "version_exts h p (p + length (enc_exts es)) lv = Some (if 0x0303 \<le> lv then Some Tls12 else None)"
  using version_exts_skip [OF assms, of "p + length (enc_exts es)" lv]
  by (simp add: version_exts.simps [of h "p + length (enc_exts es)" "p + length (enc_exts es)"])

lemma version_exts_enc:
  assumes "drop p h = enc_exts (pre @ (SUPPORTED_VERSIONS, versions_data vs) # post) @ r" "p \<le> length h"
    and "list_all ext_fits (pre @ (SUPPORTED_VERSIONS, versions_data vs) # post)"
    and "\<forall>e\<in>set pre. fst e \<noteq> SUPPORTED_VERSIONS"
    and "vs \<noteq> []" "length vs \<le> 127" "\<forall>v\<in>set vs. v < 65536"
  shows "version_exts h p (p + length (enc_exts (pre @ (SUPPORTED_VERSIONS, versions_data vs) # post))) lv =
    Some (generation False vs)"
proof -
  define E where "E = p + length (enc_exts (pre @ (SUPPORTED_VERSIONS, versions_data vs) # post))"
  define q where "q = p + length (enc_exts pre)"
  have a: "drop p h = enc_exts pre @ enc_ext (SUPPORTED_VERSIONS, versions_data vs) @ enc_exts post @ r"
    using assms(1) by (simp add: enc_exts_def)
  note b = drop_at [OF a, folded q_def]
  have fit: "ext_fits (SUPPORTED_VERSIONS, versions_data vs)" using assms(3) by simp
  have E: "E = q + 4 + (1 + 2 * length vs) + length (enc_exts post)"
    by (simp add: E_def q_def enc_exts_def versions_data_def)
  have "drop (q + 4) h = of_nat (2 * length vs) # concat (map (nat_be 2) vs) @ enc_exts post @ r"
    using ext_at(3) [OF b fit] by (simp add: versions_data_def)
  note i = idx_at [OF this]
  have n: "unat (of_nat (2 * length vs) :: byte) = 2 * length vs" using assms(6) by (simp del: of_nat_mult)
  have d5: "drop (q + 5) h = concat (map (nat_be 2) vs) @ enc_exts post @ r" using i by (simp add: add.commute)
  have "version_exts h q E lv = version_list h (q + 5) (q + 5 + 2 * length vs) False"
    using E i n assms(5)
    by (rule_tac ext_reads [OF b fit]) (subst version_exts.simps, simp add: Let_def versions_data_def add_ac del: of_nat_mult unat_byte_of_nat)
  also have "\<dots> = Some (generation False vs)" by (rule version_list_enc [OF d5 assms(7)])
  finally have "version_exts h q E lv = Some (generation False vs)" .
  moreover have "version_exts h p E lv = version_exts h q E lv"
    unfolding q_def using assms E by (intro version_exts_skip [OF a assms(2)]) (auto simp: q_def)
  ultimately show ?thesis by (simp add: E_def)
qed

lemma enc_suites_simps [simp]: "enc_suites [] = []" "enc_suites (x # ss) = fst x # snd x # enc_suites ss"
  by (simp_all add: enc_suites_def split: prod.split)

lemma offers_suite_enc:
  assumes "drop p h = enc_suites ss @ r"
  shows "offers_suite_from h p (p + 2 * length ss) a b = Some ((a, b) \<in> set ss)"
  using assms
proof (induction ss arbitrary: p)
  case Nil
  then show ?case by (subst offers_suite_from.simps) simp
next
  case (Cons x ss)
  have d: "drop p h = fst x # snd x # enc_suites ss @ r" using Cons.prems by simp
  note i = idx_at [OF d]
  note j = idx_at [OF conjunct2 [OF i]]
  have "offers_suite_from h (Suc (Suc p)) (Suc (Suc p) + 2 * length ss) a b = Some ((a, b) \<in> set ss)"
    using j by (intro Cons.IH) simp
  then show ?case
    using i j by (subst offers_suite_from.simps) (cases x, auto)
qed

definition suite_pair :: "bytes \<Rightarrow> byte \<times> byte" where
  "suite_pair s = (s ! 0, s ! 1)"

lemma offers_hello:
  assumes "wf_hello c" "h = client_hello c @ r" "length suite = 2"
  shows "client_hello_offers_cipher_suite h (46 + length (hello_sid c),
      46 + length (hello_sid c) + 2 * length (hello_suites_offered c)) suite =
    Some (suite_pair suite \<in> set (hello_suites_offered c))"
  using offers_suite_enc [OF hello_body_layout(4) [OF assms(1,2)], of "suite ! 0" "suite ! 1"] assms(3)
  by (simp add: client_hello_offers_cipher_suite_def suite_pair_def)

definition shares_data :: "(nat \<times> bytes) list \<Rightarrow> bytes" where
  "shares_data ks = nat_be 2 (length (enc_exts ks)) @ enc_exts ks"

text \<open>The unique entry of a group, if it has the right length.\<close>

definition the_share :: "nat \<Rightarrow> nat \<Rightarrow> bytes option \<Rightarrow> (nat \<times> bytes) list \<Rightarrow> bytes option" where
  "the_share g x found ks =
    (case map snd (filter (\<lambda>e. fst e = g) ks) of
       [] \<Rightarrow> found
     | [k] \<Rightarrow> if found = None \<and> length k = x then Some k else None
     | _ \<Rightarrow> None)"

lemma key_share_entries_enc:
  assumes "drop p d = enc_exts ks" "p \<le> length d" "list_all ext_fits ks" "length d \<le> 70000"
  shows "key_share_entries d g x (length d) p found = Some (the_share g x found ks)"
  using assms
proof (induction ks arbitrary: p found)
  case Nil
  then have "p = length d" by simp
  then show ?case by (subst key_share_entries.simps) (simp add: the_share_def)
next
  case (Cons e ks)
  have a: "drop p d = enc_ext e @ enc_exts ks" using Cons.prems by simp
  have fit: "ext_fits e" using Cons.prems by simp
  have le: "p + (4 + length (snd e)) \<le> length d" using end_at [OF a Cons.prems(2)] by simp
  have sl: "slice d (p + 4) (p + 4 + length (snd e)) = Some (snd e)"
    using ext_at(3) [OF a fit] le by (intro slice_at) auto
  have IH: "key_share_entries d g x (length d) (p + 4 + length (snd e)) f = Some (the_share g x f ks)" for f
    using Cons.prems drop_at [OF a] le by (intro Cons.IH) (auto simp: add.assoc)
  have st: "key_share_entries d g x (length d) p found =
     (if fst e = g then (if length (snd e) \<noteq> x \<or> found \<noteq> None then Some None
                         else key_share_entries d g x (length d) (p + 4 + length (snd e)) (Some (snd e)))
      else key_share_entries d g x (length d) (p + 4 + length (snd e)) found)"
    using le sl Cons.prems(4)
    by (rule_tac ext_reads [OF a fit]) (subst key_share_entries.simps, auto simp: Let_def checked_add_def add.assoc)
  show ?case
    unfolding st IH by (auto simp: the_share_def split: list.split)
qed

lemma key_share_extension_enc:
  assumes "list_all ext_fits ks" "length (shares_data ks) < 65536"
  shows "key_share_extension_group_entry (shares_data ks) g x = Some (the_share g x None ks)"
proof -
  let ?d = "shares_data ks"
  have l: "length (enc_exts ks) < 65536" using assms(2) by (simp add: shares_data_def)
  have "drop 0 ?d = nat_be 2 (length (enc_exts ks)) @ enc_exts ks" by (simp add: shares_data_def)
  note u = u16_atI [OF this l]
  have "key_share_entries ?d g x (length ?d) 2 None = Some (the_share g x None ks)"
    using u assms by (intro key_share_entries_enc) (auto simp: shares_data_def)
  then show ?thesis
    using u by (auto simp: key_share_extension_group_entry_def u16_at_def shares_data_def Let_def)
qed

lemma key_share_exts_skip:
  assumes "drop p h = enc_exts es @ r" "p \<le> length h" "list_all ext_fits es" "\<forall>e\<in>set es. fst e \<noteq> KEY_SHARE"
    and "p + length (enc_exts es) \<le> end_pos" "end_pos \<le> U64_MAX"
  shows "key_share_exts h p end_pos g x = key_share_exts h (p + length (enc_exts es)) end_pos g x"
  using assms
proof (induction es arbitrary: p)
  case (Cons e es)
  have a: "drop p h = enc_ext e @ enc_exts es @ r" using Cons.prems by simp
  have "p + length (enc_ext e) \<le> length h" by (rule end_at [OF a Cons.prems(2)])
  then have "key_share_exts h (p + length (enc_ext e)) end_pos g x =
      key_share_exts h (p + length (enc_ext e) + length (enc_exts es)) end_pos g x"
    using Cons.prems by (intro Cons.IH drop_at [OF a]) auto
  moreover have "key_share_exts h p end_pos g x = key_share_exts h (p + length (enc_ext e)) end_pos g x"
    using Cons.prems
    by (rule_tac ext_reads [OF a]) (simp, subst key_share_exts.simps, simp add: Let_def checked_add_def add.assoc)
  ultimately show ?case by (simp add: add.assoc)
qed simp

lemma key_share_exts_enc:
  assumes "drop p h = enc_exts (pre @ (KEY_SHARE, shares_data ks) # post) @ r" "p \<le> length h"
    and "list_all ext_fits (pre @ (KEY_SHARE, shares_data ks) # post)" "\<forall>e\<in>set pre. fst e \<noteq> KEY_SHARE"
    and "list_all ext_fits ks" "p + length (enc_exts (pre @ (KEY_SHARE, shares_data ks) # post)) \<le> U64_MAX"
  shows "key_share_exts h p (p + length (enc_exts (pre @ (KEY_SHARE, shares_data ks) # post))) g x =
    Some (the_share g x None ks)"
proof -
  define E where "E = p + length (enc_exts (pre @ (KEY_SHARE, shares_data ks) # post))"
  define q where "q = p + length (enc_exts pre)"
  have a: "drop p h = enc_exts pre @ enc_ext (KEY_SHARE, shares_data ks) @ enc_exts post @ r"
    using assms(1) by (simp add: enc_exts_def)
  note b = drop_at [OF a, folded q_def]
  have q: "q \<le> length h" using end_at [OF a assms(2)] by (simp add: q_def)
  have fit: "ext_fits (KEY_SHARE, shares_data ks)" using assms(3) by simp
  have E: "E = q + 4 + length (shares_data ks) + length (enc_exts post)" by (simp add: E_def q_def enc_exts_def)
  have sl: "slice h (q + 4) (q + 4 + length (shares_data ks)) = Some (shares_data ks)"
    using ext_at(3) [OF b fit] end_at [OF b q] by (intro slice_at) auto
  have kx: "key_share_extension_group_entry (shares_data ks) g x = Some (the_share g x None ks)"
    using fit assms(5) by (intro key_share_extension_enc) (auto simp: ext_fits_def)
  have "key_share_exts h q E g x = Some (the_share g x None ks)"
    using E sl kx assms(6) E_def
    by (rule_tac ext_reads [OF b fit]) (subst key_share_exts.simps, simp add: Let_def checked_add_def add.assoc)
  moreover have "key_share_exts h p E g x = key_share_exts h q E g x"
    unfolding q_def using assms E by (intro key_share_exts_skip [OF a assms(2)]) (auto simp: q_def E_def)
  ultimately show ?thesis by (simp add: E_def)
qed

section \<open>Properties\<close>

lemma small_hello:
  assumes "wf_hello c"
  shows "ext_pos c + length (enc_exts (hello_exts c)) \<le> 65600" "ext_pos c \<le> length (client_hello c @ r)"
  using hello_lengths(1) [OF assms refl] hello_lengths(2) [OF assms refl, of r] assms by (simp_all add: ext_pos_def wf_hello_def)

lemma server_name_enc:
  assumes "wf_hello c" "hello_exts c = pre @ (0, sni_data ns) # post" "\<forall>e\<in>set (pre @ post). fst e \<noteq> 0"
  shows "extract_sni_from_client_hello (client_hello c @ r) = Some (map_option snd (find is_host_name ns))"
proof -
  have f: "list_all ext_fits (hello_exts c)" using assms by (simp add: wf_hello_def)
  show ?thesis
    using sni_exts_enc [OF hello_body_layout(7) [OF assms(1) refl, unfolded assms(2)] small_hello(2) [OF assms(1)] f [unfolded assms(2)] assms(3)]
      extract_sni_hello [OF assms(1) refl, of r] assms(2) by simp
qed

lemma server_choice:
  assumes "wf_hello c" "hello_exts c = pre @ (KEY_SHARE, shares_data ks) # post"
    "\<forall>e\<in>set pre. fst e \<noteq> KEY_SHARE" "list_all ext_fits ks"
  shows "select_server_hello_cipher_suite (client_hello c @ r) pref =
      Some (find (\<lambda>s. suite_pair s \<in> set (hello_suites_offered c))
        [if is_tls13_cipher_suite pref then pref else TLS_AES_128_GCM_SHA256,
         TLS_AES_128_GCM_SHA256, TLS_CHACHA20_POLY1305_SHA256, TLS_AES_256_GCM_SHA384]) \<and>
    select_server_hello_key_share_group_with_preference (client_hello c @ r) prefg =
      Some (find (\<lambda>g. the_share g (if g = TLS_NAMED_GROUP_X25519 then 32 else 1216) None ks \<noteq> None)
        (server_hello_key_share_candidate_order prefg))"
proof
  let ?h = "client_hello c @ r"
  have of: "client_hello_offers_cipher_suite ?h (46 + length (hello_sid c),
      46 + length (hello_sid c) + 2 * length (hello_suites_offered c)) s =
      Some (suite_pair s \<in> set (hello_suites_offered c))" if "is_tls13_cipher_suite s" for s
    using offers_hello [OF assms(1) refl suite_len [OF that]] .
  show "select_server_hello_cipher_suite ?h pref =
      Some (find (\<lambda>s. suite_pair s \<in> set (hello_suites_offered c))
        [if is_tls13_cipher_suite pref then pref else TLS_AES_128_GCM_SHA256,
         TLS_AES_128_GCM_SHA256, TLS_CHACHA20_POLY1305_SHA256, TLS_AES_256_GCM_SHA384])"
    by (simp add: select_server_hello_cipher_suite_def suites_range_hello [OF assms(1) refl] of Let_def)
  have d: "drop (ext_pos c) ?h = enc_exts (hello_exts c) @ r"
    by (rule hello_body_layout(7) [OF assms(1) refl])
  have f: "list_all ext_fits (hello_exts c)" using assms(1) by (simp add: wf_hello_def)
  have k: "client_hello_key_share_group_entry ?h g x = Some (the_share g x None ks)" for g x
    using key_share_exts_enc [OF d [unfolded assms(2)] small_hello(2) [OF assms(1)] f [unfolded assms(2)] assms(3,4), of g x]
      small_hello(1) [OF assms(1)] assms(2)
    by (simp add: client_hello_key_share_group_entry_def exts_range_hello [OF assms(1) refl])
  show "select_server_hello_key_share_group_with_preference ?h prefg =
      Some (find (\<lambda>g. the_share g (if g = TLS_NAMED_GROUP_X25519 then 32 else 1216) None ks \<noteq> None)
        (server_hello_key_share_candidate_order prefg))"
    by (simp add: select_server_hello_key_share_group_with_preference_def server_hello_key_share_candidate_order_def
        client_hello_key_share_group_len_def k TLS_NAMED_GROUP_X25519_def TLS_NAMED_GROUP_X25519MLKEM768_def
        X25519_KEY_SHARE_LEN_def X25519MLKEM768_CLIENT_KEY_SHARE_LEN_def)
qed

text \<open>The host name \<open>a.b\<close> as a concrete instance.\<close>

lemma demo_digits: "to_digit 10 97 = None" "to_digit 10 46 = None" "to_digit 16 97 = Some 10" "to_digit 16 46 = None"
  by (simp_all add: to_digit_def)

lemma demo_ipv4: "read_ipv4_addr [97, 46, 98] = None" "read_ipv4_addr [46, 98] = None"
  by (simp_all add: read_ipv4_addr_def read_octet_def read_separator_def read_number_def demo_digits)

lemma demo_ipv6: "read_ipv6_addr [97, 46, 98] = None"
proof -
  have "read_groups 0 (Suc (Suc 6)) [97, 46, 98] = ([10], False, [46, 98])"
    by (simp add: demo_ipv4 read_separator_def read_number_def demo_digits read_given_char_def del: Suc_numeral)
  then show ?thesis by (simp add: read_ipv6_addr_def read_given_char_def)
qed

lemma demo_host: "is_valid_sni_hostname [97, 46, 98]"
  by (simp add: is_valid_sni_hostname_def valid_label_def parse_ip_def demo_ipv4 demo_ipv6 is_ascii_alphanumeric_def)

definition demo_hello :: hello where
  "demo_hello = \<lparr>legacy_ver = 0x0303, hello_rnd = replicate 32 0, hello_sid = [1],
     hello_suites_offered = [(0x13, 0x02), (0x13, 0x03)], hello_comp = [0],
     hello_exts = [(16, alpn_data [[104, 50]]), (0, sni_data [(1, [97]), (0, [97, 46, 98])]),
       (43, versions_data [0x0303, 0x0304]), (51, shares_data [(29, replicate 32 7)])]\<rparr>"

lemma demo_hello_wf: "wf_hello demo_hello"
  by (simp add: demo_hello_def wf_hello_def hello_body_def ext_fits_def alpn_data_def sni_data_def
      versions_data_def shares_data_def enc_name_def)

text \<open>C21.
  The server name of a well-formed ClientHello is found: with one server_name extension, at any
  place among the others, the parser returns the first entry of type host_name whose name is a
  valid host name; with none it returns nothing; with two it rejects, whatever they hold.  Bytes
  after the record do not matter.
\<close>

theorem extract_sni_correct:
  assumes "wf_hello c"
  shows "(hello_exts c = pre @ (0, sni_data ns) # post \<and> (\<forall>e\<in>set (pre @ post). fst e \<noteq> 0) \<longrightarrow>
      extract_sni_from_client_hello (client_hello c @ r) = Some (map_option snd (find is_host_name ns))) \<and>
    ((\<forall>e\<in>set (hello_exts c). fst e \<noteq> 0) \<longrightarrow> extract_sni_from_client_hello (client_hello c @ r) = Some None) \<and>
    (hello_exts c = pre @ (0, d1) # mid @ (0, d2) # post \<and> (\<forall>e\<in>set (pre @ mid). fst e \<noteq> 0) \<longrightarrow>
      extract_sni_from_client_hello (client_hello c @ r) = Some None)"
proof -
  let ?h = "client_hello c @ r"
  note e = extract_sni_hello [OF assms refl, of r]
  have d: "drop (ext_pos c) ?h = enc_exts (hello_exts c) @ r"
    by (rule hello_body_layout(7) [OF assms refl])
  have p: "ext_pos c \<le> length ?h" by (rule small_hello(2) [OF assms])
  have f: "list_all ext_fits (hello_exts c)" using assms by (simp add: wf_hello_def)
  show ?thesis
  proof (intro conjI impI; (elim conjE)?)
    assume x: "hello_exts c = pre @ (0, sni_data ns) # post" "\<forall>e\<in>set (pre @ post). fst e \<noteq> 0"
    show "extract_sni_from_client_hello ?h = Some (map_option snd (find is_host_name ns))"
      by (rule server_name_enc [OF assms x])
  next
    assume "\<forall>e\<in>set (hello_exts c). fst e \<noteq> 0"
    then show "extract_sni_from_client_hello ?h = Some None"
      using sni_exts_skip [OF d p f, of "ext_pos c + length (enc_exts (hello_exts c))" False None] e
      by (simp add: sni_exts_end)
  next
    assume x: "hello_exts c = pre @ (0, d1) # mid @ (0, d2) # post" "\<forall>e\<in>set (pre @ mid). fst e \<noteq> 0"
    show "extract_sni_from_client_hello ?h = Some None"
      using sni_exts_dup [OF d [unfolded x(1)] p f [unfolded x(1)] x(2)] e x(1) by simp
  qed
qed

theorem extract_sni_correct_witness:
  "wf_hello demo_hello \<and> extract_sni_from_client_hello (client_hello demo_hello @ [9]) = Some (Some [97, 46, 98])"
proof -
  have e: "hello_exts demo_hello = [(16, alpn_data [[104, 50]])] @ (0, sni_data [(1, [97]), (0, [97, 46, 98])])
      # [(43, versions_data [0x0303, 0x0304]), (51, shares_data [(29, replicate 32 7)])]"
    by (simp add: demo_hello_def)
  have "extract_sni_from_client_hello (client_hello demo_hello @ [9]) =
      Some (map_option snd (find is_host_name [(1, [97]), (0, [97, 46, 98])]))"
    using extract_sni_correct [OF demo_hello_wf] e by fastforce
  then show ?thesis using demo_hello_wf demo_host by (simp add: is_host_name_def)
qed

text \<open>C22.
  The other ClientHello parsers read what the grammar says.  The ALPN parser returns the protocols
  of the first ALPN extension in the offered order.  The generation is decided by the first
  supported_versions extension (1.3 when 0x0304 is offered, otherwise 1.2 when a version from
  0x0301 to 0x0303 is) and by the legacy version when there is none.
\<close>

theorem alpn_and_version_correct:
  assumes "wf_hello c"
  shows "(hello_exts c = pre @ (ALPN, alpn_data ps) # post \<and> (\<forall>e\<in>set pre. fst e \<noteq> ALPN) \<and>
      ps \<noteq> [] \<and> (\<forall>x\<in>set ps. length x \<le> 255) \<and> length r \<le> 1000000 \<longrightarrow>
      extract_alpn_from_client_hello (client_hello c @ r) = Some ps) \<and>
    (hello_exts c = pre @ (SUPPORTED_VERSIONS, versions_data vs) # post \<and> (\<forall>e\<in>set pre. fst e \<noteq> SUPPORTED_VERSIONS) \<and>
      vs \<noteq> [] \<and> length vs \<le> 127 \<and> (\<forall>v\<in>set vs. v < 65536) \<longrightarrow>
      detect_client_hello_tls_version (client_hello c @ r) = Some (generation False vs)) \<and>
    ((\<forall>e\<in>set (hello_exts c). fst e \<noteq> SUPPORTED_VERSIONS) \<longrightarrow>
      detect_client_hello_tls_version (client_hello c @ r) =
        Some (if 0x0303 \<le> legacy_ver c then Some Tls12 else None))"
proof -
  let ?h = "client_hello c @ r"
  have d: "drop (ext_pos c) ?h = enc_exts (hello_exts c) @ r"
    by (rule hello_body_layout(7) [OF assms refl])
  have p: "ext_pos c \<le> length ?h" by (rule small_hello(2) [OF assms])
  have f: "list_all ext_fits (hello_exts c)" using assms by (simp add: wf_hello_def)
  have len: "length ?h \<le> 65600 + length r"
    using hello_lengths(1) [OF assms refl] hello_lengths(2) [OF assms refl, of r] assms by (simp add: wf_hello_def)
  show ?thesis
  proof (intro conjI impI; (elim conjE)?)
    assume x: "hello_exts c = pre @ (ALPN, alpn_data ps) # post" "\<forall>e\<in>set pre. fst e \<noteq> ALPN" "ps \<noteq> []"
      "\<forall>x\<in>set ps. length x \<le> 255" "length r \<le> 1000000"
    show "extract_alpn_from_client_hello ?h = Some ps"
      using alpn_exts_enc [OF d [unfolded x(1)] p _ f [unfolded x(1)] x(2,3,4)]
        extract_alpn_hello [OF assms refl, of r] x(1,5) len by simp
  next
    assume x: "hello_exts c = pre @ (SUPPORTED_VERSIONS, versions_data vs) # post"
      "\<forall>e\<in>set pre. fst e \<noteq> SUPPORTED_VERSIONS" "vs \<noteq> []" "length vs \<le> 127" "\<forall>v\<in>set vs. v < 65536"
    show "detect_client_hello_tls_version ?h = Some (generation False vs)"
      using version_exts_enc [OF d [unfolded x(1)] p f [unfolded x(1)] x(2,3,4,5)]
        detect_version_hello [OF assms refl, of r] x(1) by simp
  next
    assume "\<forall>e\<in>set (hello_exts c). fst e \<noteq> SUPPORTED_VERSIONS"
    then show "detect_client_hello_tls_version ?h = Some (if 0x0303 \<le> legacy_ver c then Some Tls12 else None)"
      using version_exts_none [OF d p f] detect_version_hello [OF assms refl, of r] by simp
  qed
qed

theorem alpn_and_version_correct_witness:
  "wf_hello demo_hello \<and> extract_alpn_from_client_hello (client_hello demo_hello @ [9]) = Some [[104, 50]] \<and>
   detect_client_hello_tls_version (client_hello demo_hello @ [9]) = Some (Some Tls13)"
proof -
  let ?v = "(43, versions_data [0x0303, 0x0304])" and ?k = "(51, shares_data [(29, replicate 32 7)])"
  let ?s = "(0, sni_data [(1, [97]), (0, [97, 46, 98])])" and ?a = "(16, alpn_data [[104, 50]])"
  have e: "hello_exts demo_hello = [] @ (ALPN, alpn_data [[104, 50]]) # [?s, ?v, ?k]"
      "hello_exts demo_hello = [?a, ?s] @ (SUPPORTED_VERSIONS, versions_data [0x0303, 0x0304]) # [?k]"
    by (simp_all add: demo_hello_def ALPN_def SUPPORTED_VERSIONS_def)
  have "extract_alpn_from_client_hello (client_hello demo_hello @ [9]) = Some [[104, 50]]"
    using alpn_and_version_correct [OF demo_hello_wf, of "[]" "[[104, 50]]" "[?s, ?v, ?k]" "[9]"] e(1) by simp
  moreover have "detect_client_hello_tls_version (client_hello demo_hello @ [9]) = Some (generation False [0x0303, 0x0304])"
    using alpn_and_version_correct [OF demo_hello_wf, of "[?a, ?s]" "[]" "[?k]" "[9]" "[0x0303, 0x0304]"] e(2)
    by (simp add: SUPPORTED_VERSIONS_def)
  ultimately show ?thesis using demo_hello_wf by (simp add: generation_def)
qed

text \<open>C23.
  The answer is chosen from what the client offered, in a fixed order.  The cipher suite is the
  preferred one (AES-128 when the preference is not a TLS 1.3 suite) if offered, otherwise the
  first offered of AES-128, ChaCha20 and AES-256.  The key-share group is the first in the
  candidate order for which the key_share extension holds exactly one entry, of the group's length.
\<close>

theorem server_choice_correct:
  assumes "wf_hello c" "hello_exts c = pre @ (KEY_SHARE, shares_data ks) # post"
    "\<forall>e\<in>set pre. fst e \<noteq> KEY_SHARE" "list_all ext_fits ks"
  shows "select_server_hello_cipher_suite (client_hello c @ r) pref =
      Some (find (\<lambda>s. suite_pair s \<in> set (hello_suites_offered c))
        [if is_tls13_cipher_suite pref then pref else TLS_AES_128_GCM_SHA256,
         TLS_AES_128_GCM_SHA256, TLS_CHACHA20_POLY1305_SHA256, TLS_AES_256_GCM_SHA384]) \<and>
    select_server_hello_key_share_group_with_preference (client_hello c @ r) prefg =
      Some (find (\<lambda>g. the_share g (if g = TLS_NAMED_GROUP_X25519 then 32 else 1216) None ks \<noteq> None)
        (server_hello_key_share_candidate_order prefg))"
  using assms by (rule server_choice)

theorem server_choice_correct_witness:
  "wf_hello demo_hello \<and>
   select_server_hello_cipher_suite (client_hello demo_hello @ [9]) [0x13, 0x01] = Some (Some [0x13, 0x03]) \<and>
   select_server_hello_key_share_group_with_preference (client_hello demo_hello @ [9]) None = Some (Some 29)"
proof -
  let ?pre = "[(16, alpn_data [[104, 50]]), (0, sni_data [(1, [97]), (0, [97, 46, 98])]),
       (43, versions_data [0x0303, 0x0304])]"
  have e: "hello_exts demo_hello = ?pre @ (KEY_SHARE, shares_data [(29, replicate 32 7)]) # []"
    by (simp add: demo_hello_def KEY_SHARE_def)
  have n: "\<forall>e\<in>set ?pre. fst e \<noteq> KEY_SHARE" by (simp add: KEY_SHARE_def)
  have f: "list_all ext_fits [(29, replicate 32 7)]" by (simp add: ext_fits_def)
  show ?thesis
    using demo_hello_wf server_choice_correct [OF demo_hello_wf e n f, of "[9]" "[0x13, 0x01]" None]
    by (simp add: demo_hello_def suite_pair_def is_tls13_cipher_suite_def TLS_AES_128_GCM_SHA256_def
        TLS_AES_256_GCM_SHA384_def TLS_CHACHA20_POLY1305_SHA256_def server_hello_key_share_candidate_order_def
        TLS_NAMED_GROUP_X25519_def TLS_NAMED_GROUP_X25519MLKEM768_def the_share_def)
qed

text \<open>C24.
  No ClientHello makes a parser panic: on every byte string the server-name, ALPN, generation,
  cipher-suite and key-share parsers and the key-share builders return.
\<close>

theorem client_hello_parsers_no_panic:
  "extract_sni_from_client_hello h \<noteq> None \<and> extract_alpn_from_client_hello h \<noteq> None \<and>
   detect_client_hello_tls_version h \<noteq> None \<and> select_server_hello_cipher_suite h pref \<noteq> None \<and>
   select_server_hello_key_share_group h \<noteq> None \<and>
   fst (build_x25519_server_key_share kx h ops st) \<noteq> None \<and>
   fst (build_x25519mlkem768_server_key_share kx h ops st) \<noteq> None"
proof (intro conjI extract_sni_total extract_alpn_total detect_version_total select_suite_total)
  show "select_server_hello_key_share_group h \<noteq> None"
    using select_group_total by (simp add: select_server_hello_key_share_group_def
        select_server_hello_key_share_group_with_preference_def)
  show "fst (build_x25519_server_key_share kx h ops st) \<noteq> None"
    by (rule key_share_group_entry_cases [of h TLS_NAMED_GROUP_X25519 X25519_KEY_SHARE_LEN])
      (auto simp: build_x25519_server_key_share_def copy_exact_def Let_def split: prod.split)
  show "fst (build_x25519mlkem768_server_key_share kx h ops st) \<noteq> None"
    by (rule key_share_group_entry_cases [of h TLS_NAMED_GROUP_X25519MLKEM768 X25519MLKEM768_CLIENT_KEY_SHARE_LEN])
      (auto simp: build_x25519mlkem768_server_key_share_def copy_exact_def Let_def X25519_KEY_SHARE_LEN_def
        X25519MLKEM768_CLIENT_KEY_SHARE_LEN_def MLKEM768_CLIENT_ENCAPSULATION_KEY_LEN_def
        split: prod.split option.split)
qed

end
