(* ===== verification/Fairness_Pressure.thy ===== *)
theory Fairness_Pressure
  imports Prelude
begin

text \<open>
  The data of the per-worker fair scheduler (\<open>src/transport/middle_proxy/fairness/model.rs\<close>) and the
  pressure evaluator (\<open>pressure.rs\<close>): a score from queue fill, standing flows, rejects and stalls,
  turned into one of four states with hysteresis.

  \<open>Instant\<close> and \<open>Duration\<close> are numbers of clock ticks; \<open>saturating_duration_since\<close> is the
  subtraction of \<^typ>\<open>nat\<close>.
\<close>

section \<open>Data\<close>

datatype PressureState = Normal | Pressured | Shedding | Saturated

primrec as_u8 :: "PressureState \<Rightarrow> nat" where
  "as_u8 Normal = 0"
| "as_u8 Pressured = 1"
| "as_u8 Shedding = 2"
| "as_u8 Saturated = 3"

lemma as_u8_inj [simp]: "(as_u8 a = as_u8 b) = (a = b)"
  by (cases a; cases b) auto

text \<open>The derived order is that of the discriminants.\<close>

instantiation PressureState :: linorder
begin

definition less_eq_PressureState :: "PressureState \<Rightarrow> PressureState \<Rightarrow> bool" where
  "a \<le> b \<longleftrightarrow> as_u8 a \<le> as_u8 b"

definition less_PressureState :: "PressureState \<Rightarrow> PressureState \<Rightarrow> bool" where
  "a < b \<longleftrightarrow> as_u8 a < as_u8 b"

instance
  by standard (auto simp: less_eq_PressureState_def less_PressureState_def)

end

datatype FlowPressureClass = FC_Healthy | FC_Bursty | FC_Backpressured | FC_Standing

datatype StandingQueueState = Transient | Standing

datatype FlowSchedulerState = Idle | Active | Backpressured | Penalized | SheddingCandidate

record QueuedFrame =
  qf_conn_id :: nat
  qf_flags :: nat
  qf_data :: bytes
  qf_enqueued_at :: nat

definition queued_bytes :: "QueuedFrame \<Rightarrow> nat" where
  "queued_bytes f = length (qf_data f)"

record FlowFairnessState =
  ff_flow_id :: nat
  ff_worker_id :: nat
  pending_bytes :: nat
  deficit_bytes :: int
  queue_started_at :: "nat option"
  last_drain_at :: "nat option"
  recent_drain_bytes :: nat
  consecutive_stalls :: nat
  consecutive_skips :: nat
  penalty_score :: nat
  pressure_class :: FlowPressureClass
  standing_state :: StandingQueueState
  scheduler_state :: FlowSchedulerState
  bucket_id :: nat
  weight_quanta :: nat
  in_active_ring :: bool

definition FlowFairnessState_new :: "nat \<Rightarrow> nat \<Rightarrow> nat \<Rightarrow> nat \<Rightarrow> FlowFairnessState" where
  "FlowFairnessState_new flow_id worker_id bucket weight =
     \<lparr>ff_flow_id = flow_id, ff_worker_id = worker_id, pending_bytes = 0, deficit_bytes = 0,
      queue_started_at = None, last_drain_at = None, recent_drain_bytes = 0, consecutive_stalls = 0,
      consecutive_skips = 0, penalty_score = 0, pressure_class = FC_Healthy,
      standing_state = Transient, scheduler_state = Idle, bucket_id = bucket,
      weight_quanta = max weight 1, in_active_ring = False\<rparr>"

datatype AdmissionDecision =
  Admit | RejectWorkerCap | RejectFlowCap | RejectBucketCap | RejectSaturated | RejectStandingFlow

record DispatchCandidate =
  dc_frame :: QueuedFrame
  dc_pressure_state :: PressureState
  dc_flow_class :: FlowPressureClass

datatype SchedulerDecision = SD_Idle | Dispatch DispatchCandidate

datatype DispatchFeedback = Routed | QueueFull | ChannelClosed | NoConn

datatype DispatchAction = Continue | CloseFlow

section \<open>The evaluator\<close>

record PressureSignals =
  sg_active_flows :: nat
  sg_total_queued_bytes :: nat
  sg_standing_flows :: nat
  sg_backpressured_flows :: nat

record PressureConfig =
  pc_backpressure_enabled :: bool
  evaluate_every_rounds :: nat
  transition_hysteresis_rounds :: nat
  standing_ratio_pressured_pct :: nat
  standing_ratio_shedding_pct :: nat
  standing_ratio_saturated_pct :: nat
  queue_ratio_pressured_pct :: nat
  queue_ratio_shedding_pct :: nat
  queue_ratio_saturated_pct :: nat
  reject_window :: nat
  rejects_pressured :: nat
  rejects_shedding :: nat
  rejects_saturated :: nat
  stalls_pressured :: nat
  stalls_shedding :: nat
  stalls_saturated :: nat

text \<open>\<open>PressureConfig::default\<close>, with ticks of a millisecond.\<close>

definition PressureConfig_default :: PressureConfig where
  "PressureConfig_default =
     \<lparr>pc_backpressure_enabled = True, evaluate_every_rounds = 8, transition_hysteresis_rounds = 3,
      standing_ratio_pressured_pct = 20, standing_ratio_shedding_pct = 35, standing_ratio_saturated_pct = 50,
      queue_ratio_pressured_pct = 65, queue_ratio_shedding_pct = 82, queue_ratio_saturated_pct = 94,
      reject_window = 2000, rejects_pressured = 32, rejects_shedding = 96, rejects_saturated = 256,
      stalls_pressured = 32, stalls_shedding = 96, stalls_saturated = 256\<rparr>"

record PressureEvaluator =
  pe_state :: PressureState
  candidate_state :: PressureState
  candidate_hits :: nat
  rounds_since_eval :: nat
  window_started_at :: nat
  admission_rejects_window :: nat
  route_stalls_window :: nat

definition PressureEvaluator_new :: "nat \<Rightarrow> PressureEvaluator" where
  "PressureEvaluator_new now =
     \<lparr>pe_state = Normal, candidate_state = Normal, candidate_hits = 0, rounds_since_eval = 0,
      window_started_at = now, admission_rejects_window = 0, route_stalls_window = 0\<rparr>"

definition rotate_window_if_needed :: "nat \<Rightarrow> PressureConfig \<Rightarrow> PressureEvaluator \<Rightarrow> PressureEvaluator" where
  "rotate_window_if_needed now cfg e =
    (if now - window_started_at e < reject_window cfg then e
     else e\<lparr>window_started_at := now, admission_rejects_window := 0, route_stalls_window := 0\<rparr>)"

definition note_admission_reject :: "nat \<Rightarrow> PressureConfig \<Rightarrow> PressureEvaluator \<Rightarrow> PressureEvaluator" where
  "note_admission_reject now cfg e =
    (let e = rotate_window_if_needed now cfg e
     in e\<lparr>admission_rejects_window := sat_add U32_MAX (admission_rejects_window e) 1\<rparr>)"

definition note_route_stall :: "nat \<Rightarrow> PressureConfig \<Rightarrow> PressureEvaluator \<Rightarrow> PressureEvaluator" where
  "note_route_stall now cfg e =
    (let e = rotate_window_if_needed now cfg e
     in e\<lparr>route_stalls_window := sat_add U32_MAX (route_stalls_window e) 1\<rparr>)"

definition derive_target_state :: "PressureConfig \<Rightarrow> nat \<Rightarrow> PressureSignals \<Rightarrow> PressureEvaluator \<Rightarrow> PressureState" where
  "derive_target_state cfg max_total sg e =
    (if \<not> pc_backpressure_enabled cfg then Normal
     else
       let queue_ratio_pct = (if max_total = 0 then 100
             else min (sat_mul U64_MAX (sg_total_queued_bytes sg) 100 div max_total) 100);
           standing_ratio_pct = (if sg_active_flows sg = 0 then 0
             else min (sat_mul U64_MAX (sg_standing_flows sg) 100 div sg_active_flows sg) 100);
           score = 0;
           score = (if queue_ratio_pressured_pct cfg \<le> queue_ratio_pct then max score 1 else score);
           score = (if queue_ratio_shedding_pct cfg \<le> queue_ratio_pct then max score 2 else score);
           score = (if queue_ratio_saturated_pct cfg \<le> queue_ratio_pct then max score 3 else score);
           score = (if standing_ratio_pressured_pct cfg \<le> standing_ratio_pct then max score 1 else score);
           score = (if standing_ratio_shedding_pct cfg \<le> standing_ratio_pct then max score 2 else score);
           score = (if standing_ratio_saturated_pct cfg \<le> standing_ratio_pct then max score 3 else score);
           score = (if rejects_pressured cfg \<le> admission_rejects_window e then max score 1 else score);
           score = (if rejects_shedding cfg \<le> admission_rejects_window e then max score 2 else score);
           score = (if rejects_saturated cfg \<le> admission_rejects_window e then max score 3 else score);
           score = (if stalls_pressured cfg \<le> route_stalls_window e then max score 1 else score);
           score = (if stalls_shedding cfg \<le> route_stalls_window e then max score 2 else score);
           score = (if stalls_saturated cfg \<le> route_stalls_window e then max score 3 else score);
           score = (if sg_active_flows sg div 2 < sg_backpressured_flows sg \<and> 0 < sg_active_flows sg
                    then max score 2 else score)
       in if score = 0 then Normal
          else if score = 1 then Pressured
          else if score = (2 :: nat) then Shedding
          else Saturated)"

definition maybe_evaluate ::
  "nat \<Rightarrow> PressureConfig \<Rightarrow> nat \<Rightarrow> PressureSignals \<Rightarrow> bool \<Rightarrow> PressureEvaluator \<Rightarrow> PressureEvaluator" where
  "maybe_evaluate now cfg max_total sg force e =
    (let e = rotate_window_if_needed now cfg e in
     if \<not> pc_backpressure_enabled cfg
     then e\<lparr>pe_state := Normal, candidate_state := Normal, candidate_hits := 0, rounds_since_eval := 0\<rparr>
     else
       let e = e\<lparr>rounds_since_eval := sat_add U32_MAX (rounds_since_eval e) 1\<rparr> in
       if \<not> force \<and> rounds_since_eval e < max (evaluate_every_rounds cfg) 1 then e
       else
         let e = e\<lparr>rounds_since_eval := 0\<rparr>;
             target = derive_target_state cfg max_total sg e in
         if target = pe_state e then e\<lparr>candidate_state := target, candidate_hits := 0\<rparr>
         else
           let e = (if candidate_state e = target
                    then e\<lparr>candidate_hits := sat_add 255 (candidate_hits e) 1\<rparr>
                    else e\<lparr>candidate_state := target, candidate_hits := 1\<rparr>) in
           if max (transition_hysteresis_rounds cfg) 1 \<le> candidate_hits e
           then e\<lparr>pe_state := target, candidate_hits := 0\<rparr> else e)"

end
