(* ===== verification/Assoc_Sum.thy ===== *)
theory Assoc_Sum
  imports Prelude "HOL-Library.AList"
begin

text \<open>
  Hash maps as association lists with distinct keys, and sums over them.  \<open>insert\<close>, \<open>get_mut\<close>
  followed by a write, and \<open>remove\<close> are \<^const>\<open>AList.update\<close> and \<^const>\<open>AList.delete\<close>; the lemmas say
  how a sum over the entries changes.
\<close>

definition asum :: "('k \<Rightarrow> 'v \<Rightarrow> nat) \<Rightarrow> ('k \<times> 'v) list \<Rightarrow> nat" where
  "asum f al = sum_list (map (\<lambda>(k, v). f k v) al)"

abbreviation keys :: "('k \<times> 'v) list \<Rightarrow> 'k set" where
  "keys al \<equiv> fst ` set al"

lemma asum_simps [simp]: "asum f [] = 0" "asum f ((k, v) # al) = f k v + asum f al"
  by (simp_all add: asum_def)

lemma map_of_keys: "(map_of al k = None) = (k \<notin> keys al)"
  by (rule map_of_eq_None_iff)

lemma length_update:
  "length (AList.update k v al) = (if k \<in> keys al then length al else Suc (length al))"
  by (induction al) auto

lemma asum_update_new: "k \<notin> keys al \<Longrightarrow> asum f (AList.update k v al) = asum f al + f k v"
  by (induction al) auto

lemma asum_update_old:
  "map_of al k = Some v0 \<Longrightarrow> asum f (AList.update k v al) + f k v0 = asum f al + f k v"
  by (induction al) (auto split: if_splits)

lemma asum_delete:
  "distinct (map fst al) \<Longrightarrow> map_of al k = Some v0 \<Longrightarrow> asum f (AList.delete k al) + f k v0 = asum f al"
proof (induction al)
  case (Cons x al)
  obtain k' v' where x: "x = (k', v')" by fastforce
  show ?case
  proof (cases "k' = k")
    case True
    then have "k \<notin> keys al" using Cons.prems x by auto
    then have "AList.delete k al = al" by (simp add: AList.delete_eq filter_id_conv) force
    with True Cons.prems x show ?thesis by (simp add: AList.delete_eq)
  next
    case False
    then show ?thesis using Cons x by (auto simp: AList.delete_eq)
  qed
qed simp

lemma asum_member: "map_of al k = Some v \<Longrightarrow> f k v \<le> asum f al"
  by (induction al) (auto split: if_splits)

lemma asum_mono: "(\<And>k v. (k, v) \<in> set al \<Longrightarrow> f k v \<le> g k v) \<Longrightarrow> asum f al \<le> asum g al"
  by (induction al) (force simp: add_mono)+

lemma asum_cong: "(\<And>k v. (k, v) \<in> set al \<Longrightarrow> f k v = g k v) \<Longrightarrow> asum f al = asum g al"
  by (induction al) force+

lemma map_of_update: "map_of (AList.update k v al) k' = (if k' = k then Some v else map_of al k')"
  by (simp add: AList.update_conv')

lemma map_of_delete: "map_of (AList.delete k al) k' = (if k' = k then None else map_of al k')"
  by (simp add: AList.delete_conv')

lemma distinct_update_keys: "distinct (map fst al) \<Longrightarrow> distinct (map fst (AList.update k v al))"
  by (rule AList.distinct_update)

lemma keys_update: "keys (AList.update k v al) = insert k (keys al)"
  by (simp add: AList.dom_update)

lemma keys_delete: "keys (AList.delete k al) = keys al - {k}"
  by (force simp: AList.delete_eq)

lemmas alist_simps = map_of_update map_of_delete keys_update keys_delete distinct_update_keys length_update

end
