(* ===== verification/Fairness_Scheduler.thy ===== *)
theory Fairness_Scheduler
  imports Fairness_Pressure Assoc_Sum
begin

text \<open>
  The deficit-round-robin scheduler of one middle-proxy worker
  (\<open>src/transport/middle_proxy/fairness/scheduler.rs\<close>): admission, classification of flows,
  the round over the active ring, the feedback of the router and the removal of flows.

  \<open>flows\<close> is the hash map as an association list, \<open>active_ring\<close> the deque and
  \<open>active_ring_members\<close> the hash set beside it.  An index out of range of the bucket vectors is a
  panic, so the operations that index return \<open>'a rs\<close>.
\<close>

section \<open>State\<close>

record WorkerFairnessConfig =
  cf_worker_id :: nat
  backpressure_enabled :: bool
  max_active_flows :: nat
  max_total_queued_bytes :: nat
  max_flow_queued_bytes :: nat
  base_quantum_bytes :: nat
  pressured_quantum_bytes :: nat
  penalized_quantum_bytes :: nat
  standing_queue_min_age :: nat
  standing_queue_min_backlog_bytes :: nat
  standing_stall_threshold :: nat
  max_consecutive_stalls_before_shed :: nat
  max_consecutive_stalls_before_close :: nat
  soft_bucket_count :: nat
  soft_bucket_share_pct :: nat
  default_flow_weight :: nat
  quickack_flow_weight :: nat
  cf_pressure :: PressureConfig

text \<open>\<open>WorkerFairnessConfig::default\<close>, with ticks of a millisecond.\<close>

definition WorkerFairnessConfig_default :: WorkerFairnessConfig where
  "WorkerFairnessConfig_default =
     \<lparr>cf_worker_id = 0, backpressure_enabled = True, max_active_flows = 4096,
      max_total_queued_bytes = 16 * 1024 * 1024, max_flow_queued_bytes = 512 * 1024,
      base_quantum_bytes = 32 * 1024, pressured_quantum_bytes = 16 * 1024,
      penalized_quantum_bytes = 8 * 1024, standing_queue_min_age = 250,
      standing_queue_min_backlog_bytes = 64 * 1024, standing_stall_threshold = 3,
      max_consecutive_stalls_before_shed = 4, max_consecutive_stalls_before_close = 16,
      soft_bucket_count = 64, soft_bucket_share_pct = 25, default_flow_weight = 1,
      quickack_flow_weight = 4, cf_pressure = PressureConfig_default\<rparr>"

record FlowEntry =
  fairness :: FlowFairnessState
  queue :: "QueuedFrame list"

definition FlowEntry_new :: "nat \<Rightarrow> nat \<Rightarrow> nat \<Rightarrow> nat \<Rightarrow> FlowEntry" where
  "FlowEntry_new flow_id worker_id bucket weight =
     \<lparr>fairness = FlowFairnessState_new flow_id worker_id bucket weight, queue = []\<rparr>"

record WorkerFairnessState =
  config :: WorkerFairnessConfig
  pressure :: PressureEvaluator
  flows :: "(nat \<times> FlowEntry) list"
  active_ring :: "nat list"
  active_ring_members :: "nat set"
  total_queued_bytes :: nat
  bucket_queued_bytes :: "nat list"
  bucket_active_flows :: "nat list"
  standing_flow_count :: nat
  backpressured_flow_count :: nat
  scheduler_rounds :: nat
  deficit_grants :: nat
  deficit_skips :: nat
  enqueue_rejects :: nat
  shed_drops :: nat
  fairness_penalties :: nat
  downstream_stalls :: nat

definition WorkerFairnessState_new :: "WorkerFairnessConfig \<Rightarrow> nat \<Rightarrow> WorkerFairnessState" where
  "WorkerFairnessState_new cfg now =
    (let cfg = cfg\<lparr>cf_pressure := (cf_pressure cfg)\<lparr>pc_backpressure_enabled := backpressure_enabled cfg\<rparr>\<rparr>;
         bucket_count = max (soft_bucket_count cfg) 1
     in \<lparr>config = cfg, pressure = PressureEvaluator_new now, flows = [], active_ring = [],
         active_ring_members = {}, total_queued_bytes = 0, bucket_queued_bytes = replicate bucket_count 0,
         bucket_active_flows = replicate bucket_count 0, standing_flow_count = 0,
         backpressured_flow_count = 0, scheduler_rounds = 0, deficit_grants = 0, deficit_skips = 0,
         enqueue_rejects = 0, shed_drops = 0, fairness_penalties = 0, downstream_stalls = 0\<rparr>)"

section \<open>Classification\<close>

definition scheduler_state_is_backpressured :: "FlowSchedulerState \<Rightarrow> bool" where
  "scheduler_state_is_backpressured s \<longleftrightarrow> s = Backpressured \<or> s = Penalized \<or> s = SheddingCandidate"

definition flow_membership :: "FlowFairnessState \<Rightarrow> bool \<times> bool" where
  "flow_membership f =
     (standing_state f = Standing, scheduler_state_is_backpressured (scheduler_state f))"

definition derive_flow_classification ::
  "WorkerFairnessConfig \<Rightarrow> PressureState \<Rightarrow> nat \<Rightarrow> FlowFairnessState \<Rightarrow>
   FlowPressureClass \<times> StandingQueueState \<times> FlowSchedulerState \<times> bool" where
  "derive_flow_classification cfg ps now f =
    (if pending_bytes f = 0 then (FC_Healthy, Transient, Idle, False)
     else
       let queue_age = (case queue_started_at f of Some ts \<Rightarrow> now - ts | None \<Rightarrow> 0);
           drain_stalled = (case last_drain_at f of Some ts \<Rightarrow> standing_queue_min_age cfg \<le> now - ts | None \<Rightarrow> True);
           standing = (standing_queue_min_backlog_bytes cfg \<le> pending_bytes f
             \<and> standing_queue_min_age cfg \<le> queue_age
             \<and> (standing_stall_threshold cfg \<le> consecutive_stalls f \<or> drain_stalled))
       in if standing then
            (FC_Standing, Standing, if Shedding \<le> ps then SheddingCandidate else Penalized, True)
          else if 0 < consecutive_stalls f then (FC_Backpressured, Transient, Backpressured, False)
          else if standing_queue_min_backlog_bytes cfg \<le> pending_bytes f then (FC_Bursty, Transient, Active, False)
          else (FC_Healthy, Transient, Active, False))"

definition classify_flow ::
  "WorkerFairnessConfig \<Rightarrow> PressureState \<Rightarrow> nat \<Rightarrow> FlowFairnessState \<Rightarrow> FlowFairnessState" where
  "classify_flow cfg ps now f =
    (let (pc, sts, scs, standing) = derive_flow_classification cfg ps now f;
         f = f\<lparr>pressure_class := pc, standing_state := sts, scheduler_state := scs\<rparr>;
         f = (if scs = Idle then f\<lparr>deficit_bytes := 0\<rparr> else f)
     in if standing then f\<lparr>penalty_score := sat_add U16_MAX (penalty_score f) 1\<rparr>
        else f\<lparr>penalty_score := penalty_score f - 1\<rparr>)"

definition clamp_deficit_bytes :: "WorkerFairnessConfig \<Rightarrow> FlowFairnessState \<Rightarrow> FlowFairnessState" where
  "clamp_deficit_bytes cfg f =
    (let max_deficit = int (min (max_flow_queued_bytes cfg) 9223372036854775807)
     in f\<lparr>deficit_bytes := max 0 (min max_deficit (deficit_bytes f))\<rparr>)"

definition RPC_FLAG_QUICKACK :: nat where "RPC_FLAG_QUICKACK = 0x80000000"

definition weight_for_flags :: "WorkerFairnessConfig \<Rightarrow> nat \<Rightarrow> nat" where
  "weight_for_flags cfg flags =
    (if and flags RPC_FLAG_QUICKACK \<noteq> 0 then max (quickack_flow_weight cfg) 1
     else max (default_flow_weight cfg) 1)"

definition effective_quantum_bytes :: "WorkerFairnessConfig \<Rightarrow> PressureState \<Rightarrow> FlowFairnessState \<Rightarrow> nat" where
  "effective_quantum_bytes cfg ps f =
    (let penalized = (scheduler_state f = Penalized \<or> scheduler_state f = SheddingCandidate) in
     if penalized then max (penalized_quantum_bytes cfg) 1
     else
       let base_quantum = (case ps of
             Normal \<Rightarrow> max (base_quantum_bytes cfg) 1
           | Pressured \<Rightarrow> max (pressured_quantum_bytes cfg) 1
           | Shedding \<Rightarrow> max (pressured_quantum_bytes cfg) 1
           | Saturated \<Rightarrow> max (penalized_quantum_bytes cfg) 1);
           weighted_quantum = sat_mul U32_MAX base_quantum (max (weight_quanta f) 1)
       in max weighted_quantum 1)"

definition bucket_for :: "WorkerFairnessState \<Rightarrow> nat \<Rightarrow> nat" where
  "bucket_for s conn_id = conn_id mod max (length (bucket_queued_bytes s)) 1"

section \<open>Shared steps\<close>

definition evaluate_pressure :: "nat \<Rightarrow> bool \<Rightarrow> WorkerFairnessState \<Rightarrow> WorkerFairnessState" where
  "evaluate_pressure now force s =
     s\<lparr>pressure := maybe_evaluate now (cf_pressure (config s)) (max_total_queued_bytes (config s))
         \<lparr>sg_active_flows = length (flows s), sg_total_queued_bytes = total_queued_bytes s,
          sg_standing_flows = standing_flow_count s, sg_backpressured_flows = backpressured_flow_count s\<rparr>
         force (pressure s)\<rparr>"

definition apply_flow_membership_delta ::
  "bool \<times> bool \<Rightarrow> bool \<times> bool \<Rightarrow> WorkerFairnessState \<Rightarrow> WorkerFairnessState" where
  "apply_flow_membership_delta earlier after s =
    (let s = (if fst earlier \<noteq> fst after then
                s\<lparr>standing_flow_count := (if fst after then sat_add U64_MAX (standing_flow_count s) 1
                                          else standing_flow_count s - 1)\<rparr> else s)
     in if snd earlier \<noteq> snd after then
          s\<lparr>backpressured_flow_count := (if snd after then sat_add U64_MAX (backpressured_flow_count s) 1
                                         else backpressured_flow_count s - 1)\<rparr> else s)"

definition enqueue_active_conn :: "nat \<Rightarrow> WorkerFairnessState \<Rightarrow> WorkerFairnessState" where
  "enqueue_active_conn conn_id s =
    (if conn_id \<notin> active_ring_members s
     then s\<lparr>active_ring_members := insert conn_id (active_ring_members s), active_ring := active_ring s @ [conn_id]\<rparr>
     else s)"

text \<open>The three statements at the head of every rejection but the first.\<close>

definition note_reject :: "nat \<Rightarrow> WorkerFairnessState \<Rightarrow> WorkerFairnessState" where
  "note_reject now s =
     s\<lparr>pressure := note_admission_reject now (cf_pressure (config s)) (pressure s),
       enqueue_rejects := sat_add U64_MAX (enqueue_rejects s) 1\<rparr>"

text \<open>\<open>v[i] = f(v[i])\<close> on a bucket vector.\<close>

definition bucket_upd :: "nat \<Rightarrow> (nat \<Rightarrow> nat) \<Rightarrow> nat list \<Rightarrow> nat list rs" where
  "bucket_upd i f v = (if i < length v then Some (v[i := f (v ! i)]) else None)"

section \<open>Operations\<close>

text \<open>\<open>enqueue_data\<close> once the flow exists; \<open>s\<close> holds the entry under \<open>conn_id\<close>.\<close>

definition enqueue_into ::
  "nat \<Rightarrow> QueuedFrame \<Rightarrow> nat \<Rightarrow> nat \<Rightarrow> nat \<Rightarrow> FlowEntry \<Rightarrow> WorkerFairnessState \<Rightarrow>
   (AdmissionDecision \<times> WorkerFairnessState) rs" where
  "enqueue_into conn_id frame frame_weight bucket now entry s =
    (let frame_bytes = queued_bytes frame;
         ff = fairness entry;
         ff = ff\<lparr>weight_quanta := max (weight_quanta ff) frame_weight\<rparr>;
         s = s\<lparr>flows := AList.update conn_id (entry\<lparr>fairness := ff\<rparr>) (flows s)\<rparr> in
     if max_flow_queued_bytes (config s) < sat_add U64_MAX (pending_bytes ff) frame_bytes
     then Some (RejectFlowCap, evaluate_pressure now True (note_reject now s))
     else if backpressure_enabled (config s) \<and> Shedding \<le> pe_state (pressure s) \<and> standing_state ff = Standing
     then Some (RejectStandingFlow, evaluate_pressure now True (note_reject now s))
     else
       let ff = ff\<lparr>pending_bytes := sat_add U64_MAX (pending_bytes ff) frame_bytes\<rparr>;
           ff = (if queue_started_at ff = None then ff\<lparr>queue_started_at := Some now\<rparr> else ff);
           q = queue entry @ [frame];
           s = s\<lparr>total_queued_bytes := sat_add U64_MAX (total_queued_bytes s) frame_bytes\<rparr> in
       do {
         b \<leftarrow> bucket_upd bucket (\<lambda>x. sat_add U64_MAX x frame_bytes) (bucket_queued_bytes s);
         let s = s\<lparr>bucket_queued_bytes := b\<rparr>;
             enqueue_active = (\<not> in_active_ring ff);
             ff = ff\<lparr>in_active_ring := True\<rparr>;
             earlier = flow_membership ff;
             ff = classify_flow (config s) (pe_state (pressure s)) now ff;
             after = flow_membership ff;
             s = s\<lparr>flows := AList.update conn_id (entry\<lparr>fairness := ff, queue := q\<rparr>) (flows s)\<rparr>;
             s = (if enqueue_active then enqueue_active_conn conn_id s else s);
             s = apply_flow_membership_delta earlier after s
         in Some (Admit, evaluate_pressure now True s) })"

definition bucket_cap :: "WorkerFairnessConfig \<Rightarrow> nat" where
  "bucket_cap cfg = max (sat_mul U64_MAX (max_total_queued_bytes cfg) (max (soft_bucket_share_pct cfg) 1) div 100)
     (max_flow_queued_bytes cfg)"

definition enqueue_data ::
  "nat \<Rightarrow> nat \<Rightarrow> bytes \<Rightarrow> nat \<Rightarrow> WorkerFairnessState \<Rightarrow> (AdmissionDecision \<times> WorkerFairnessState) rs" where
  "enqueue_data conn_id flags data now s =
    (let frame = \<lparr>qf_conn_id = conn_id, qf_flags = flags, qf_data = data, qf_enqueued_at = now\<rparr>;
         frame_bytes = queued_bytes frame in
     if backpressure_enabled (config s) \<and> pe_state (pressure s) = Saturated
     then Some (RejectSaturated, note_reject now s)
     else if max_total_queued_bytes (config s) < sat_add U64_MAX (total_queued_bytes s) frame_bytes
     then Some (RejectWorkerCap, evaluate_pressure now True (note_reject now s))
     else if map_of (flows s) conn_id = None \<and> max_active_flows (config s) \<le> length (flows s)
     then Some (RejectWorkerCap, evaluate_pressure now True (note_reject now s))
     else
       let bucket = bucket_for s conn_id;
           frame_weight = weight_for_flags (config s) flags in
       do {
         queued \<leftarrow> idx (bucket_queued_bytes s) bucket;
         if bucket_cap (config s) < sat_add U64_MAX queued frame_bytes
         then Some (RejectBucketCap, evaluate_pressure now True (note_reject now s))
         else (case map_of (flows s) conn_id of
             Some flow \<Rightarrow> enqueue_into conn_id frame frame_weight bucket now flow s
           | None \<Rightarrow> do {
               a \<leftarrow> bucket_upd bucket (\<lambda>x. sat_add U64_MAX x 1) (bucket_active_flows s);
               let entry = FlowEntry_new conn_id (cf_worker_id (config s)) bucket frame_weight
               in enqueue_into conn_id frame frame_weight bucket now entry
                    (s\<lparr>bucket_active_flows := a, flows := AList.update conn_id entry (flows s)\<rparr>) }) })"

text \<open>\<open>u64 as i64\<close>.\<close>

definition as_i64 :: "nat \<Rightarrow> int" where
  "as_i64 n = (if n < 9223372036854775808 then int n else int n - 18446744073709551616)"

text \<open>
  What a visit does to the entry of a flow in the ring: the new entry, whether it goes back into
  the ring, the frame to dispatch with the flow's class, and the grant and skip counts.
\<close>

definition visit_flow ::
  "WorkerFairnessConfig \<Rightarrow> PressureState \<Rightarrow> nat \<Rightarrow> FlowEntry \<Rightarrow>
   FlowEntry \<times> bool \<times> DispatchCandidate option \<times> nat \<times> nat" where
  "visit_flow cfg ps now flow =
    (let ff = (fairness flow)\<lparr>in_active_ring := False\<rparr> in
     case queue flow of
       [] \<Rightarrow> (flow\<lparr>fairness := ff\<lparr>scheduler_state := Idle, pending_bytes := 0, deficit_bytes := 0,
                queue_started_at := None\<rparr>\<rparr>, False, None, 0, 0)
     | front # rest \<Rightarrow>
       let ff = classify_flow cfg ps now ff;
           quantum = effective_quantum_bytes cfg ps ff;
           ff = ff\<lparr>deficit_bytes := sat_i64 (deficit_bytes ff + int quantum)\<rparr>;
           ff = clamp_deficit_bytes cfg ff;
           front_len = queued_bytes front in
       if deficit_bytes ff < as_i64 front_len then
         (flow\<lparr>fairness := ff\<lparr>consecutive_skips := sat_add 255 (consecutive_skips ff) 1, in_active_ring := True\<rparr>\<rparr>,
          True, None, 1, 1)
       else
         let drained = queued_bytes front;
             ff = ff\<lparr>pending_bytes := pending_bytes ff - drained,
                     deficit_bytes := sat_i64 (deficit_bytes ff - as_i64 drained)\<rparr>;
             ff = clamp_deficit_bytes cfg ff;
             ff = ff\<lparr>consecutive_skips := 0,
                     queue_started_at := (case rest of [] \<Rightarrow> None | f # _ \<Rightarrow> Some (qf_enqueued_at f))\<rparr>;
             ff = (if rest = [] then ff\<lparr>scheduler_state := Idle, in_active_ring := False, deficit_bytes := 0\<rparr>
                   else ff\<lparr>in_active_ring := True\<rparr>)
         in (flow\<lparr>fairness := ff, queue := rest\<rparr>, rest \<noteq> [],
             Some \<lparr>dc_frame = front, dc_pressure_state = ps, dc_flow_class = pressure_class ff\<rparr>, 1, 0))"

text \<open>One turn of the loop for the connection taken from the ring.\<close>

definition visit_conn :: "nat \<Rightarrow> nat \<Rightarrow> WorkerFairnessState \<Rightarrow> (DispatchCandidate option \<times> WorkerFairnessState) rs" where
  "visit_conn conn_id now s =
    (case map_of (flows s) conn_id of
       None \<Rightarrow> Some (None, s)
     | Some flow \<Rightarrow>
       let ps = pe_state (pressure s);
           (flow', requeue, cand, grants, skips) = visit_flow (config s) ps now flow;
           bucket = bucket_id (fairness flow);
           s = s\<lparr>flows := AList.update conn_id flow' (flows s),
                 deficit_grants := sat_add U64_MAX (deficit_grants s) grants,
                 deficit_skips := sat_add U64_MAX (deficit_skips s) skips\<rparr>;
           s = apply_flow_membership_delta (flow_membership (fairness flow)) (flow_membership (fairness flow')) s;
           drained = (case cand of Some c \<Rightarrow> queued_bytes (dc_frame c) | None \<Rightarrow> 0) in
       do {
         s \<leftarrow> (if 0 < drained then do {
                 b \<leftarrow> bucket_upd bucket (\<lambda>x. x - drained) (bucket_queued_bytes s);
                 Some (s\<lparr>total_queued_bytes := total_queued_bytes s - drained, bucket_queued_bytes := b\<rparr>) }
               else Some s);
         Some (cand, if requeue then enqueue_active_conn conn_id s else s) })"

fun decision_loop :: "nat \<Rightarrow> nat \<Rightarrow> WorkerFairnessState \<Rightarrow> (SchedulerDecision \<times> WorkerFairnessState) rs" where
  "decision_loop 0 now s = Some (SD_Idle, s)"
| "decision_loop (Suc n) now s =
    (case active_ring s of
       [] \<Rightarrow> Some (SD_Idle, s)
     | conn_id # ring \<Rightarrow>
       let s = s\<lparr>active_ring := ring\<rparr> in
       if conn_id \<notin> active_ring_members s then decision_loop n now s
       else do {
         r \<leftarrow> visit_conn conn_id now (s\<lparr>active_ring_members := active_ring_members s - {conn_id}\<rparr>);
         case r of
           (Some c, s) \<Rightarrow> Some (Dispatch c, s)
         | (None, s) \<Rightarrow> decision_loop n now s })"

definition next_decision :: "nat \<Rightarrow> WorkerFairnessState \<Rightarrow> (SchedulerDecision \<times> WorkerFairnessState) rs" where
  "next_decision now s =
    (let s = s\<lparr>scheduler_rounds := sat_add U64_MAX (scheduler_rounds s) 1\<rparr>;
         s = evaluate_pressure now False s
     in decision_loop (length (active_ring s)) now s)"

definition remove_flow :: "nat \<Rightarrow> WorkerFairnessState \<Rightarrow> WorkerFairnessState rs" where
  "remove_flow conn_id s =
    (case map_of (flows s) conn_id of
       None \<Rightarrow> Some s
     | Some entry \<Rightarrow>
       let (was_standing, was_backpressured) = flow_membership (fairness entry);
           bucket = bucket_id (fairness entry);
           s = s\<lparr>flows := AList.delete conn_id (flows s),
                 active_ring_members := active_ring_members s - {conn_id},
                 active_ring := filter (\<lambda>c. c \<noteq> conn_id) (active_ring s)\<rparr>;
           s = (if was_standing then s\<lparr>standing_flow_count := standing_flow_count s - 1\<rparr> else s);
           s = (if was_backpressured then s\<lparr>backpressured_flow_count := backpressured_flow_count s - 1\<rparr> else s) in
       do {
         a \<leftarrow> bucket_upd bucket (\<lambda>x. x - 1) (bucket_active_flows s);
         let reclaimed = fold (\<lambda>f acc. sat_add U64_MAX acc (queued_bytes f)) (queue entry) 0;
             s = s\<lparr>bucket_active_flows := a, total_queued_bytes := total_queued_bytes s - reclaimed\<rparr> in
         do { b \<leftarrow> bucket_upd bucket (\<lambda>x. x - reclaimed) (bucket_queued_bytes s);
              Some (s\<lparr>bucket_queued_bytes := b\<rparr>) } })"

definition feedback_routed :: "nat \<Rightarrow> DispatchCandidate \<Rightarrow> nat \<Rightarrow> WorkerFairnessState \<Rightarrow> WorkerFairnessState" where
  "feedback_routed conn_id cand now s =
    (let s = (case map_of (flows s) conn_id of
       None \<Rightarrow> s
     | Some flow \<Rightarrow>
       let ff = fairness flow;
           earlier = flow_membership ff;
           ff = ff\<lparr>last_drain_at := Some now,
                   recent_drain_bytes := sat_add U64_MAX (recent_drain_bytes ff) (queued_bytes (dc_frame cand)),
                   consecutive_stalls := 0\<rparr>;
           ff = (if scheduler_state ff \<noteq> Idle then ff\<lparr>scheduler_state := Active\<rparr> else ff);
           ff = classify_flow (config s) (pe_state (pressure s)) now ff
       in apply_flow_membership_delta earlier (flow_membership ff)
            (s\<lparr>flows := AList.update conn_id (flow\<lparr>fairness := ff\<rparr>) (flows s)\<rparr>))
     in evaluate_pressure now False s)"

text \<open>The block of \<open>QueueFull\<close> up to the classification, in three parts.\<close>

definition stall_flow :: "bool \<Rightarrow> FlowFairnessState \<Rightarrow> FlowFairnessState" where
  "stall_flow bp ff =
    (if bp then ff\<lparr>consecutive_stalls := sat_add 255 (consecutive_stalls ff) 1,
                   scheduler_state := Backpressured, pressure_class := FC_Backpressured\<rparr> else ff)"

definition should_shed_frame :: "WorkerFairnessConfig \<Rightarrow> PressureState \<Rightarrow> FlowFairnessState \<Rightarrow> bool" where
  "should_shed_frame cfg state ff \<longleftrightarrow>
     backpressure_enabled cfg \<and> (state = Saturated \<or> (state = Shedding \<and> standing_state ff = Standing
       \<and> max_consecutive_stalls_before_shed cfg \<le> consecutive_stalls ff))"

definition return_frame ::
  "QueuedFrame \<Rightarrow> FlowEntry \<Rightarrow> FlowFairnessState \<Rightarrow> WorkerFairnessState \<Rightarrow>
   (FlowEntry \<times> FlowFairnessState \<times> WorkerFairnessState \<times> bool) rs" where
  "return_frame frame flow ff s =
    (let frame_bytes = queued_bytes frame;
         flow = flow\<lparr>queue := frame # queue flow\<rparr>;
         ff = ff\<lparr>pending_bytes := sat_add U64_MAX (pending_bytes ff) frame_bytes,
                 queue_started_at := (case queue flow of [] \<Rightarrow> None | f # _ \<Rightarrow> Some (qf_enqueued_at f))\<rparr>;
         s = s\<lparr>total_queued_bytes := sat_add U64_MAX (total_queued_bytes s) frame_bytes\<rparr> in
     do { b \<leftarrow> bucket_upd (bucket_id ff) (\<lambda>x. sat_add U64_MAX x frame_bytes) (bucket_queued_bytes s);
          Some (flow, ff\<lparr>in_active_ring := True\<rparr>, s\<lparr>bucket_queued_bytes := b\<rparr>, \<not> in_active_ring ff) })"

definition shed_frame :: "WorkerFairnessState \<Rightarrow> WorkerFairnessState" where
  "shed_frame s = s\<lparr>shed_drops := sat_add U64_MAX (shed_drops s) 1,
                    fairness_penalties := sat_add U64_MAX (fairness_penalties s) 1\<rparr>"

definition note_stall :: "nat \<Rightarrow> WorkerFairnessState \<Rightarrow> WorkerFairnessState" where
  "note_stall now s =
    (if backpressure_enabled (config s)
     then s\<lparr>pressure := note_route_stall now (cf_pressure (config s)) (pressure s),
            downstream_stalls := sat_add U64_MAX (downstream_stalls s) 1\<rparr> else s)"

definition feedback_queue_full ::
  "nat \<Rightarrow> DispatchCandidate \<Rightarrow> nat \<Rightarrow> WorkerFairnessState \<Rightarrow> (DispatchAction \<times> WorkerFairnessState) rs" where
  "feedback_queue_full conn_id cand now s =
    (let s = note_stall now s;
         state = pe_state (pressure s) in
     case map_of (flows s) conn_id of
       None \<Rightarrow> Some (Continue, evaluate_pressure now True s)
     | Some flow \<Rightarrow>
       let earlier = flow_membership (fairness flow);
           ff = stall_flow (backpressure_enabled (config s)) (fairness flow) in
       do {
         (flow, ff, s, enqueue_active) \<leftarrow>
           (if should_shed_frame (config s) state ff then Some (flow, ff, shed_frame s, False)
            else return_frame (dc_frame cand) flow ff s);
         let ff = classify_flow (config s) state now ff;
             after = flow_membership ff;
             should_close = (backpressure_enabled (config s)
                             \<and> max_consecutive_stalls_before_close (config s) \<le> consecutive_stalls ff
                             \<and> pe_state (pressure s) = Saturated);
             s = s\<lparr>flows := AList.update conn_id (flow\<lparr>fairness := ff\<rparr>) (flows s)\<rparr>;
             s = (if enqueue_active then enqueue_active_conn conn_id s else s);
             s = apply_flow_membership_delta earlier after s in
         if should_close
         then do { s \<leftarrow> remove_flow conn_id s; Some (CloseFlow, evaluate_pressure now True s) }
         else Some (Continue, evaluate_pressure now True s) })"

definition apply_dispatch_feedback ::
  "nat \<Rightarrow> DispatchCandidate \<Rightarrow> DispatchFeedback \<Rightarrow> nat \<Rightarrow> WorkerFairnessState \<Rightarrow>
   (DispatchAction \<times> WorkerFairnessState) rs" where
  "apply_dispatch_feedback conn_id cand feedback now s =
    (case feedback of
       Routed \<Rightarrow> Some (Continue, feedback_routed conn_id cand now s)
     | QueueFull \<Rightarrow> feedback_queue_full conn_id cand now s
     | ChannelClosed \<Rightarrow> do { s \<leftarrow> remove_flow conn_id s; Some (CloseFlow, evaluate_pressure now True s) }
     | NoConn \<Rightarrow> do { s \<leftarrow> remove_flow conn_id s; Some (CloseFlow, evaluate_pressure now True s) })"

text \<open>The clock reading of \<open>set_backpressure_enabled\<close> is the argument \<open>now\<close>.\<close>

definition set_backpressure_enabled :: "bool \<Rightarrow> nat \<Rightarrow> WorkerFairnessState \<Rightarrow> WorkerFairnessState" where
  "set_backpressure_enabled enabled now s =
    (if backpressure_enabled (config s) = enabled then s
     else
       let cfg = (config s)\<lparr>backpressure_enabled := enabled\<rparr>;
           cfg = cfg\<lparr>cf_pressure := (cf_pressure cfg)\<lparr>pc_backpressure_enabled := enabled\<rparr>\<rparr>
       in evaluate_pressure now True (s\<lparr>config := cfg\<rparr>))"

section \<open>Checks kept beside the code\<close>

definition debug_check_active_ring_consistency :: "WorkerFairnessState \<Rightarrow> bool" where
  "debug_check_active_ring_consistency s \<longleftrightarrow>
     length (active_ring s) = card (active_ring_members s) \<and>
     distinct (active_ring s) \<and>
     list_all (\<lambda>c. c \<in> active_ring_members s \<and>
       (case map_of (flows s) c of None \<Rightarrow> False
        | Some flow \<Rightarrow> in_active_ring (fairness flow) \<and> queue flow \<noteq> [])) (active_ring s) \<and>
     list_all (\<lambda>(c, flow). in_active_ring (fairness flow) = (c \<in> active_ring_members s) \<and>
       (c \<in> active_ring_members s \<longrightarrow> queue flow \<noteq> [])) (flows s)"

definition debug_max_deficit_bytes :: "WorkerFairnessState \<Rightarrow> int" where
  "debug_max_deficit_bytes s =
    (case map (\<lambda>(c, flow). deficit_bytes (fairness flow)) (flows s) of [] \<Rightarrow> 0 | d # ds \<Rightarrow> fold max ds d)"

end
