(* ===== verification/Fairness_Inv.thy ===== *)
theory Fairness_Inv
  imports Fairness_Scheduler
begin

text \<open>
  The invariant of the fair scheduler and its preservation by every operation: the byte counters,
  the bucket counters and the membership counters are the sums over the flows they stand for, the
  active ring holds exactly the flows with a non-empty queue, and deficits stay within their clamp.
  Beside it, what each operation does to the queues, seen as a function from connections to the
  frames queued for them.
\<close>

section \<open>The invariant\<close>

definition qbytes :: "FlowEntry \<Rightarrow> nat" where
  "qbytes e = sum_list (map queued_bytes (queue e))"

definition max_deficit :: "WorkerFairnessConfig \<Rightarrow> int" where
  "max_deficit cfg = int (min (max_flow_queued_bytes cfg) 9223372036854775807)"

definition flow_ok :: "WorkerFairnessConfig \<Rightarrow> nat \<Rightarrow> nat \<Rightarrow> FlowEntry \<Rightarrow> bool" where
  "flow_ok cfg n c e \<longleftrightarrow>
     pending_bytes (fairness e) = qbytes e \<and> bucket_id (fairness e) = c mod n \<and>
     in_active_ring (fairness e) = (queue e \<noteq> []) \<and>
     0 \<le> deficit_bytes (fairness e) \<and> deficit_bytes (fairness e) \<le> max_deficit cfg \<and>
     (\<forall>f\<in>set (queue e). qf_conn_id f = c \<and> queued_bytes f \<le> max_flow_queued_bytes cfg)"

definition mem1 :: "FlowEntry \<Rightarrow> nat" where
  "mem1 e = of_bool (fst (flow_membership (fairness e)))"

definition mem2 :: "FlowEntry \<Rightarrow> nat" where
  "mem2 e = of_bool (snd (flow_membership (fairness e)))"

definition buckets :: "WorkerFairnessState \<Rightarrow> nat" where
  "buckets s = length (bucket_queued_bytes s)"

definition cfg_ok :: "WorkerFairnessConfig \<Rightarrow> bool" where
  "cfg_ok cfg \<longleftrightarrow> max_active_flows cfg \<le> U64_MAX \<and>
     max_total_queued_bytes cfg + max_flow_queued_bytes cfg < U64_MAX"

definition flows_ok :: "WorkerFairnessState \<Rightarrow> bool" where
  "flows_ok s \<longleftrightarrow> distinct (map fst (flows s)) \<and> length (flows s) \<le> max_active_flows (config s) \<and>
     (\<forall>c e. map_of (flows s) c = Some e \<longrightarrow> flow_ok (config s) (buckets s) c e)"

definition sums_ok :: "WorkerFairnessState \<Rightarrow> bool" where
  "sums_ok s \<longleftrightarrow> 0 < buckets s \<and> length (bucket_active_flows s) = buckets s \<and>
     total_queued_bytes s = asum (\<lambda>_. qbytes) (flows s) \<and> total_queued_bytes s \<le> U64_MAX \<and>
     (\<forall>b < buckets s. bucket_queued_bytes s ! b = asum (\<lambda>c e. if c mod buckets s = b then qbytes e else 0) (flows s)) \<and>
     (\<forall>b < buckets s. bucket_active_flows s ! b = asum (\<lambda>c e. if c mod buckets s = b then 1 else 0) (flows s)) \<and>
     standing_flow_count s = asum (\<lambda>_. mem1) (flows s) \<and>
     backpressured_flow_count s = asum (\<lambda>_. mem2) (flows s)"

text \<open>The connections in \<open>X\<close> have been taken out of the ring for the moment.\<close>

definition ring_ok :: "nat set \<Rightarrow> WorkerFairnessState \<Rightarrow> bool" where
  "ring_ok X s \<longleftrightarrow> distinct (active_ring s) \<and> set (active_ring s) = active_ring_members s \<and>
     X \<inter> active_ring_members s = {} \<and>
     (\<forall>c. c \<notin> X \<longrightarrow> (c \<in> active_ring_members s \<longleftrightarrow> (\<exists>e. map_of (flows s) c = Some e \<and> queue e \<noteq> [])))"

definition fair_inv :: "nat set \<Rightarrow> WorkerFairnessState \<Rightarrow> bool" where
  "fair_inv X s \<longleftrightarrow> cfg_ok (config s) \<and> flows_ok s \<and> sums_ok s \<and> ring_ok X s"

lemmas fair_inv_defs = fair_inv_def flows_ok_def sums_ok_def ring_ok_def buckets_def

text \<open>The queues as a function of the connection.\<close>

definition queues :: "WorkerFairnessState \<Rightarrow> nat \<Rightarrow> QueuedFrame list" where
  "queues s c = (case map_of (flows s) c of Some e \<Rightarrow> queue e | None \<Rightarrow> [])"

section \<open>Steps that leave the flows alone\<close>

text \<open>The part of the state that the invariant and the queues depend on.\<close>

definition same_core :: "WorkerFairnessState \<Rightarrow> WorkerFairnessState \<Rightarrow> bool" where
  "same_core s t \<longleftrightarrow> flows t = flows s \<and> active_ring t = active_ring s \<and>
     active_ring_members t = active_ring_members s \<and> total_queued_bytes t = total_queued_bytes s \<and>
     bucket_queued_bytes t = bucket_queued_bytes s \<and> bucket_active_flows t = bucket_active_flows s \<and>
     standing_flow_count t = standing_flow_count s \<and> backpressured_flow_count t = backpressured_flow_count s \<and>
     max_active_flows (config t) = max_active_flows (config s) \<and>
     max_total_queued_bytes (config t) = max_total_queued_bytes (config s) \<and>
     max_flow_queued_bytes (config t) = max_flow_queued_bytes (config s)"

lemma same_core_refl [simp]: "same_core s s"
  by (simp add: same_core_def)

lemma same_core_trans: "same_core s t \<Longrightarrow> same_core t u \<Longrightarrow> same_core s u"
  by (simp add: same_core_def)

lemma same_core_evaluate [simp]: "same_core s (evaluate_pressure now force t) = same_core s t"
  by (simp add: same_core_def evaluate_pressure_def)

lemma same_core_note_reject [simp]: "same_core s (note_reject now t) = same_core s t"
  by (simp add: same_core_def note_reject_def)

lemma same_core_inv: "same_core s t \<Longrightarrow> fair_inv X t = fair_inv X s"
  by (simp add: same_core_def fair_inv_defs cfg_ok_def flow_ok_def max_deficit_def)

lemma same_core_queues: "same_core s t \<Longrightarrow> queues t = queues s"
  by (simp add: same_core_def queues_def fun_eq_iff)

lemma evaluate_pressure_inv [simp]: "fair_inv X (evaluate_pressure now force s) = fair_inv X s"
  by (rule same_core_inv) simp

lemma evaluate_pressure_queues [simp]: "queues (evaluate_pressure now force s) = queues s"
  by (rule same_core_queues) simp

lemma note_reject_inv [simp]: "fair_inv X (note_reject now s) = fair_inv X s"
  by (rule same_core_inv) simp

lemma note_reject_queues [simp]: "queues (note_reject now s) = queues s"
  by (rule same_core_queues) simp

section \<open>Replacing one flow\<close>

text \<open>
  Every operation changes one flow and adjusts the counters.  \<open>replaced c m e' s t\<close> says that \<open>t\<close> is
  \<open>s\<close> with the entry of \<open>c\<close> replaced by \<open>e'\<close>, the byte counters moved from \<open>m\<close> bytes to those of \<open>e'\<close>
  and the membership counters moved from \<open>m1\<close>, \<open>m2\<close> to those of \<open>e'\<close>.
\<close>

definition replaced ::
  "nat \<Rightarrow> nat \<Rightarrow> nat \<Rightarrow> nat \<Rightarrow> FlowEntry \<Rightarrow> WorkerFairnessState \<Rightarrow> WorkerFairnessState \<Rightarrow> bool" where
  "replaced c m m1 m2 e' s t \<longleftrightarrow>
     config t = config s \<and> flows t = AList.update c e' (flows s) \<and>
     total_queued_bytes t + m = total_queued_bytes s + qbytes e' \<and>
     length (bucket_queued_bytes t) = length (bucket_queued_bytes s) \<and>
     (\<forall>b < buckets s. bucket_queued_bytes t ! b + (if b = c mod buckets s then m else 0) =
        bucket_queued_bytes s ! b + (if b = c mod buckets s then qbytes e' else 0)) \<and>
     standing_flow_count t + m1 = standing_flow_count s + mem1 e' \<and>
     backpressured_flow_count t + m2 = backpressured_flow_count s + mem2 e'"

lemma asum_indicator:
  "(\<And>k v. f k v \<le> 1) \<Longrightarrow> asum f al \<le> length al"
  "(\<And>k v. f k v \<le> 1) \<Longrightarrow> map_of al c = Some e \<Longrightarrow> asum f al + 1 \<le> length al + f c e"
proof -
  have le: "asum f al \<le> length al" if f: "\<And>k v. f k v \<le> 1" for al
  proof (induction al)
    case (Cons x al)
    then show ?case using f [of "fst x" "snd x"] by (cases x) auto
  qed simp
  show "(\<And>k v. f k v \<le> 1) \<Longrightarrow> asum f al \<le> length al" by (rule le)
  show "(\<And>k v. f k v \<le> 1) \<Longrightarrow> map_of al c = Some e \<Longrightarrow> asum f al + 1 \<le> length al + f c e"
  proof (induction al)
    case (Cons x al)
    obtain k v where x: "x = (k, v)" by fastforce
    have f: "f k v \<le> 1" "asum f al \<le> length al" using Cons.prems(1) le by auto
    show ?case
    proof (cases "k = c")
      case True
      then show ?thesis using Cons.prems(2) f x by simp
    next
      case False
      then have "asum f al + 1 \<le> length al + f c e" using Cons x by simp
      then show ?thesis using f x by simp
    qed
  qed simp
qed

lemma replaced_sums:
  assumes inv: "sums_ok s" and e: "map_of (flows s) c = Some e"
    and r: "replaced c (qbytes e) (mem1 e) (mem2 e) e' s t"
    and a: "bucket_active_flows t = bucket_active_flows s" and u: "total_queued_bytes t \<le> U64_MAX"
  shows "sums_ok t"
proof -
  note upd = asum_update_old [OF e, of _ e']
  have n: "buckets t = buckets s" using r by (simp add: replaced_def buckets_def)
  have "bucket_queued_bytes t ! b = asum (\<lambda>c e. if c mod buckets s = b then qbytes e else 0) (flows t)"
    if "b < buckets s" for b
    using that inv r upd [of "\<lambda>c e. if c mod buckets s = b then qbytes e else 0"]
    by (auto simp: sums_ok_def replaced_def split: if_splits)
  moreover have "bucket_active_flows t ! b = asum (\<lambda>c e. if c mod buckets s = b then 1 else 0) (flows t)"
    if "b < buckets s" for b
    using that inv r a upd [of "\<lambda>c e. if c mod buckets s = b then 1 else 0"]
    by (auto simp: sums_ok_def replaced_def)
  moreover have "total_queued_bytes t = asum (\<lambda>_. qbytes) (flows t)"
      "standing_flow_count t = asum (\<lambda>_. mem1) (flows t)" "backpressured_flow_count t = asum (\<lambda>_. mem2) (flows t)"
    using inv r upd [of "\<lambda>_. qbytes"] upd [of "\<lambda>_. mem1"] upd [of "\<lambda>_. mem2"]
    by (auto simp: sums_ok_def replaced_def)
  ultimately show ?thesis
    using inv a u n by (simp add: sums_ok_def)
qed

lemma replaced_flows:
  assumes "flows_ok s" "replaced c m m1 m2 e' s t" "flow_ok (config s) (buckets s) c e'" "map_of (flows s) c \<noteq> None"
  shows "flows_ok t"
proof -
  have "c \<in> keys (flows s)" using assms(4) map_of_keys by metis
  moreover have "buckets t = buckets s" using assms(2) by (simp add: replaced_def buckets_def)
  ultimately show ?thesis
    using assms by (auto simp: flows_ok_def replaced_def alist_simps)
qed

lemma replaced_queues: "replaced c m m1 m2 e' s t \<Longrightarrow> queues t = (queues s)(c := queue e')"
  by (auto simp: replaced_def queues_def alist_simps fun_eq_iff)

lemma replaced_ring:
  assumes "ring_ok {c} s" "flows t = AList.update c e' (flows s)"
    and "active_ring t = (if queue e' \<noteq> [] then active_ring s @ [c] else active_ring s)"
    and "active_ring_members t = (if queue e' \<noteq> [] then insert c (active_ring_members s) else active_ring_members s)"
  shows "ring_ok {} t"
proof -
  have "c \<notin> active_ring_members s" "c \<notin> set (active_ring s)" using assms(1) by (auto simp: ring_ok_def)
  then show ?thesis
    using assms by (auto simp: ring_ok_def alist_simps)
qed

lemma replaced_ring_same:
  assumes "ring_ok {} s" "map_of (flows s) c = Some e" "flows t = AList.update c e' (flows s)"
    and "(queue e' = []) = (queue e = [])"
    and "active_ring t = active_ring s" "active_ring_members t = active_ring_members s"
  shows "ring_ok {} t"
  using assms by (auto simp: ring_ok_def alist_simps)

section \<open>Counters\<close>

lemma delta_fields [simp]:
  "config (apply_flow_membership_delta a b s) = config s"
  "flows (apply_flow_membership_delta a b s) = flows s"
  "active_ring (apply_flow_membership_delta a b s) = active_ring s"
  "active_ring_members (apply_flow_membership_delta a b s) = active_ring_members s"
  "total_queued_bytes (apply_flow_membership_delta a b s) = total_queued_bytes s"
  "bucket_queued_bytes (apply_flow_membership_delta a b s) = bucket_queued_bytes s"
  "bucket_active_flows (apply_flow_membership_delta a b s) = bucket_active_flows s"
  "pressure (apply_flow_membership_delta a b s) = pressure s"
  by (simp_all add: apply_flow_membership_delta_def Let_def)

lemma delta_counts:
  assumes "of_bool (fst a) \<le> standing_flow_count s" "standing_flow_count s + 1 \<le> U64_MAX + of_bool (fst a)"
    and "of_bool (snd a) \<le> backpressured_flow_count s" "backpressured_flow_count s + 1 \<le> U64_MAX + of_bool (snd a)"
  shows "standing_flow_count (apply_flow_membership_delta a b s) + of_bool (fst a) = standing_flow_count s + of_bool (fst b)"
    and "backpressured_flow_count (apply_flow_membership_delta a b s) + of_bool (snd a) = backpressured_flow_count s + of_bool (snd b)"
  using assms by (auto simp: apply_flow_membership_delta_def Let_def sat_add_def)

lemma counts_bound:
  assumes "fair_inv X s" "map_of (flows s) c = Some e"
  shows "mem1 e \<le> standing_flow_count s" "standing_flow_count s + 1 \<le> U64_MAX + mem1 e"
    "mem2 e \<le> backpressured_flow_count s" "backpressured_flow_count s + 1 \<le> U64_MAX + mem2 e"
proof -
  have len: "length (flows s) \<le> U64_MAX" using assms(1) by (auto simp: fair_inv_defs cfg_ok_def)
  have m: "mem1 v \<le> 1" "mem2 v \<le> 1" for k :: nat and v by (simp_all add: mem1_def mem2_def)
  have c: "standing_flow_count s = asum (\<lambda>_. mem1) (flows s)" "backpressured_flow_count s = asum (\<lambda>_. mem2) (flows s)"
    using assms(1) by (simp_all add: fair_inv_def sums_ok_def)
  show "mem1 e \<le> standing_flow_count s" "mem2 e \<le> backpressured_flow_count s"
    unfolding c by (rule asum_member [OF assms(2)])+
  show "standing_flow_count s + 1 \<le> U64_MAX + mem1 e" "backpressured_flow_count s + 1 \<le> U64_MAX + mem2 e"
    unfolding c
    using asum_indicator(2) [where f = "\<lambda>_. mem1", OF m(1) assms(2)]
      asum_indicator(2) [where f = "\<lambda>_. mem2", OF m(2) assms(2)] len by simp_all
qed

lemma flow_bytes_le:
  assumes "fair_inv X s" "map_of (flows s) c = Some e"
  shows "qbytes e \<le> total_queued_bytes s" "qbytes e \<le> bucket_queued_bytes s ! (c mod buckets s)"
    "c mod buckets s < buckets s" "1 \<le> bucket_active_flows s ! (c mod buckets s)"
proof -
  have s: "sums_ok s" using assms(1) by (simp add: fair_inv_def)
  show l: "c mod buckets s < buckets s" using s by (simp add: sums_ok_def)
  show "qbytes e \<le> total_queued_bytes s"
    using s asum_member [OF assms(2), of "\<lambda>_. qbytes"] by (simp add: sums_ok_def)
  show "qbytes e \<le> bucket_queued_bytes s ! (c mod buckets s)" "1 \<le> bucket_active_flows s ! (c mod buckets s)"
    using s l asum_member [OF assms(2), of "\<lambda>c' e. if c' mod buckets s = c mod buckets s then qbytes e else 0"]
      asum_member [OF assms(2), of "\<lambda>c' e. if c' mod buckets s = c mod buckets s then 1 else 0"]
    by (simp_all add: sums_ok_def)
qed

lemma bucket_le_total:
  assumes "fair_inv X s" "b < buckets s"
  shows "bucket_queued_bytes s ! b \<le> total_queued_bytes s"
  using assms by (auto simp: fair_inv_def sums_ok_def intro!: asum_mono)

section \<open>Classification changes no queue\<close>

lemma classify_fields [simp]:
  "pending_bytes (classify_flow cfg ps now f) = pending_bytes f"
  "bucket_id (classify_flow cfg ps now f) = bucket_id f"
  "in_active_ring (classify_flow cfg ps now f) = in_active_ring f"
  "weight_quanta (classify_flow cfg ps now f) = weight_quanta f"
  "queue_started_at (classify_flow cfg ps now f) = queue_started_at f"
  "consecutive_stalls (classify_flow cfg ps now f) = consecutive_stalls f"
  "consecutive_skips (classify_flow cfg ps now f) = consecutive_skips f"
  by (simp_all add: classify_flow_def Let_def split: prod.split)

lemma classify_deficit:
  "deficit_bytes (classify_flow cfg ps now f) = (if pending_bytes f = 0 then 0 else deficit_bytes f)"
  by (simp add: classify_flow_def derive_flow_classification_def Let_def split: prod.split)

lemma clamp_deficit_range:
  "0 \<le> deficit_bytes (clamp_deficit_bytes cfg f)" "deficit_bytes (clamp_deficit_bytes cfg f) \<le> max_deficit cfg"
  by (auto simp: clamp_deficit_bytes_def max_deficit_def Let_def)

section \<open>Assembling the invariant\<close>

lemma replaced_inv_same:
  assumes "fair_inv {} s" "map_of (flows s) c = Some e" "replaced c (qbytes e) (mem1 e) (mem2 e) e' s t"
    and "bucket_active_flows t = bucket_active_flows s" "total_queued_bytes t \<le> U64_MAX"
    and "flow_ok (config s) (buckets s) c e'" "(queue e' = []) = (queue e = [])"
    and "active_ring t = active_ring s" "active_ring_members t = active_ring_members s"
  shows "fair_inv {} t"
  using assms replaced_sums [OF _ assms(2,3)] replaced_flows [OF _ assms(3)] replaced_ring_same [OF _ assms(2), of t e']
  by (auto simp: fair_inv_def replaced_def)

lemma replaced_inv_requeue:
  assumes "fair_inv {c} s" "map_of (flows s) c = Some e" "replaced c (qbytes e) (mem1 e) (mem2 e) e' s t"
    and "bucket_active_flows t = bucket_active_flows s" "total_queued_bytes t \<le> U64_MAX"
    and "flow_ok (config s) (buckets s) c e'"
    and "active_ring t = (if queue e' \<noteq> [] then active_ring s @ [c] else active_ring s)"
    and "active_ring_members t = (if queue e' \<noteq> [] then insert c (active_ring_members s) else active_ring_members s)"
  shows "fair_inv {} t"
  using assms replaced_sums [OF _ assms(2,3)] replaced_flows [OF _ assms(3)] replaced_ring [of c s t e']
  by (auto simp: fair_inv_def replaced_def)

text \<open>A flow outside the ring may be treated as taken out.\<close>

lemma fair_inv_out:
  assumes "fair_inv {} s" "map_of (flows s) c = Some e" "queue e = []"
  shows "fair_inv {c} s" "c \<notin> active_ring_members s"
  using assms by (auto simp: fair_inv_def ring_ok_def)

lemma fair_inv_in:
  assumes "fair_inv {} s" "map_of (flows s) c = Some e" "queue e \<noteq> []"
  shows "c \<in> active_ring_members s"
  using assms by (auto simp: fair_inv_def ring_ok_def)

lemma fair_inv_flow:
  "fair_inv X s \<Longrightarrow> map_of (flows s) c = Some e \<Longrightarrow> flow_ok (config s) (buckets s) c e"
  by (simp add: fair_inv_def flows_ok_def)

lemma enqueue_active_fields [simp]:
  "config (enqueue_active_conn c s) = config s" "flows (enqueue_active_conn c s) = flows s"
  "total_queued_bytes (enqueue_active_conn c s) = total_queued_bytes s"
  "bucket_queued_bytes (enqueue_active_conn c s) = bucket_queued_bytes s"
  "bucket_active_flows (enqueue_active_conn c s) = bucket_active_flows s"
  "standing_flow_count (enqueue_active_conn c s) = standing_flow_count s"
  "backpressured_flow_count (enqueue_active_conn c s) = backpressured_flow_count s"
  "pressure (enqueue_active_conn c s) = pressure s"
  by (simp_all add: enqueue_active_conn_def)

lemma enqueue_active_ring:
  "c \<notin> active_ring_members s \<Longrightarrow> active_ring (enqueue_active_conn c s) = active_ring s @ [c]"
  "c \<notin> active_ring_members s \<Longrightarrow> active_ring_members (enqueue_active_conn c s) = insert c (active_ring_members s)"
  by (simp_all add: enqueue_active_conn_def)

lemma bucket_upd_Some: "i < length v \<Longrightarrow> bucket_upd i f v = Some (v[i := f (v ! i)])"
  by (simp add: bucket_upd_def)

text \<open>The membership counters follow \<open>apply_flow_membership_delta\<close>.\<close>

lemma replacedI:
  assumes inv: "fair_inv X s" and e: "map_of (flows s) c = Some e"
    and t: "config t = config s" "flows t = AList.update c e' (flows s)"
      "total_queued_bytes t + qbytes e = total_queued_bytes s + qbytes e'"
      "bucket_queued_bytes t = (bucket_queued_bytes s)[c mod buckets s := x]"
      "x + qbytes e = bucket_queued_bytes s ! (c mod buckets s) + qbytes e'"
      "standing_flow_count t = standing_flow_count s" "backpressured_flow_count t = backpressured_flow_count s"
  shows "replaced c (qbytes e) (mem1 e) (mem2 e) e' s
    (apply_flow_membership_delta (flow_membership (fairness e)) (flow_membership (fairness e')) t)"
proof -
  note b = counts_bound [OF inv e]
  have l: "c mod buckets s < length (bucket_queued_bytes s)"
    using flow_bytes_le(3) [OF inv e] by (simp add: buckets_def)
  have "bucket_queued_bytes t ! i + (if i = c mod buckets s then qbytes e else 0) =
      bucket_queued_bytes s ! i + (if i = c mod buckets s then qbytes e' else 0)" if "i < buckets s" for i
    using that l t by (auto simp: nth_list_update buckets_def)
  then show ?thesis
    using t b delta_counts [of "flow_membership (fairness e)" t "flow_membership (fairness e')"]
    by (simp add: replaced_def mem1_def mem2_def)
qed

section \<open>Admission\<close>

lemma qbytes_append: "qbytes (e\<lparr>queue := queue e @ [f]\<rparr>) = qbytes e + queued_bytes f"
  by (simp add: qbytes_def)

lemma evaluate_fields [simp]:
  "config (evaluate_pressure now force s) = config s" "flows (evaluate_pressure now force s) = flows s"
  "active_ring (evaluate_pressure now force s) = active_ring s"
  "active_ring_members (evaluate_pressure now force s) = active_ring_members s"
  "total_queued_bytes (evaluate_pressure now force s) = total_queued_bytes s"
  "bucket_queued_bytes (evaluate_pressure now force s) = bucket_queued_bytes s"
  "bucket_active_flows (evaluate_pressure now force s) = bucket_active_flows s"
  "standing_flow_count (evaluate_pressure now force s) = standing_flow_count s"
  "backpressured_flow_count (evaluate_pressure now force s) = backpressured_flow_count s"
  by (simp_all add: evaluate_pressure_def)

lemma note_reject_fields [simp]:
  "config (note_reject now s) = config s" "flows (note_reject now s) = flows s"
  "active_ring (note_reject now s) = active_ring s"
  "active_ring_members (note_reject now s) = active_ring_members s"
  "total_queued_bytes (note_reject now s) = total_queued_bytes s"
  "bucket_queued_bytes (note_reject now s) = bucket_queued_bytes s"
  "bucket_active_flows (note_reject now s) = bucket_active_flows s"
  by (simp_all add: note_reject_def)

lemma membership_upd [simp]:
  "flow_membership (f\<lparr>in_active_ring := a\<rparr>) = flow_membership f"
  "flow_membership (f\<lparr>pending_bytes := b\<rparr>) = flow_membership f"
  "flow_membership (f\<lparr>weight_quanta := b\<rparr>) = flow_membership f"
  "flow_membership (f\<lparr>queue_started_at := d\<rparr>) = flow_membership f"
  "flow_membership (f\<lparr>deficit_bytes := x\<rparr>) = flow_membership f"
  "flow_membership (f\<lparr>consecutive_skips := b\<rparr>) = flow_membership f"
  by (simp_all add: flow_membership_def)

lemma delta_same [simp]: "apply_flow_membership_delta m m s = s"
  by (simp add: apply_flow_membership_delta_def)

text \<open>The flow's weight may change without touching the rest.\<close>

lemma weight_only:
  assumes inv: "fair_inv {} s" and e: "map_of (flows s) c = Some e"
    and e0: "e0 = e\<lparr>fairness := (fairness e)\<lparr>weight_quanta := w\<rparr>\<rparr>"
  defines "t \<equiv> s\<lparr>flows := AList.update c e0 (flows s)\<rparr>"
  shows "fair_inv {} t" "queues t = queues s"
proof -
  have m: "flow_membership (fairness e0) = flow_membership (fairness e)" and q: "queue e0 = queue e" and b: "qbytes e0 = qbytes e"
    by (simp_all add: e0 flow_membership_def qbytes_def)
  have r: "replaced c (qbytes e) (mem1 e) (mem2 e) e0 s t"
    using replacedI [OF inv e, of t e0 "bucket_queued_bytes s ! (c mod buckets s)"] m b by (simp add: t_def)
  show "fair_inv {} t"
    using inv fair_inv_flow [OF inv e] q b
    by (intro replaced_inv_same [OF inv e r]) (auto simp: t_def e0 flow_ok_def fair_inv_def sums_ok_def)
  show "queues t = queues s"
    using replaced_queues [OF r] e q by (auto simp: queues_def)
qed

lemma enqueue_into_spec:
  assumes inv: "fair_inv {} s" and e: "map_of (flows s) c = Some e"
    and f: "qf_conn_id f = c" "total_queued_bytes s + queued_bytes f \<le> max_total_queued_bytes (config s)"
  obtains d t where "enqueue_into c f w (c mod buckets s) now e s = Some (d, t)" "fair_inv {} t"
    "queues t = (if d = Admit then (queues s)(c := queues s c @ [f]) else queues s)"
    "length (flows t) = length (flows s)" "config t = config s"
    "d = Admit \<Longrightarrow> sum_list (map queued_bytes (queues t c)) \<le> max_flow_queued_bytes (config s)"
    "total_queued_bytes t = total_queued_bytes s + (if d = Admit then queued_bytes f else 0)"
    "bucket_queued_bytes t = (bucket_queued_bytes s)[c mod buckets s :=
       bucket_queued_bytes s ! (c mod buckets s) + (if d = Admit then queued_bytes f else 0)]"
proof -
  define e0 where "e0 = e\<lparr>fairness := (fairness e)\<lparr>weight_quanta := max (weight_quanta (fairness e)) w\<rparr>\<rparr>"
  define s1 where "s1 = s\<lparr>flows := AList.update c e0 (flows s)\<rparr>"
  note w = weight_only [OF inv e e0_def, folded s1_def]
  have cs: "config s1 = config s" "pressure s1 = pressure s" "total_queued_bytes s1 = total_queued_bytes s"
      "bucket_queued_bytes s1 = bucket_queued_bytes s" "length (flows s1) = length (flows s)"
    using e by (auto simp: s1_def length_update map_of_keys [symmetric])
  note ok = fair_inv_flow [OF inv e]
  have cfg: "max_total_queued_bytes (config s) \<le> U64_MAX" using inv by (auto simp: fair_inv_def cfg_ok_def)
  note le = flow_bytes_le [OF inv e]
  have lb: "c mod buckets s < length (bucket_queued_bytes s)" using le(3) by (simp add: buckets_def)
  have qb: "qbytes e + queued_bytes f \<le> U64_MAX" using le(1) f(2) cfg by simp
  have bb: "bucket_queued_bytes s ! (c mod buckets s) + queued_bytes f \<le> U64_MAX"
    using bucket_le_total [OF inv le(3)] f(2) cfg by simp
  have pend: "pending_bytes (fairness e) = qbytes e" using ok by (simp add: flow_ok_def)
  consider (cap) "max_flow_queued_bytes (config s) < qbytes e + queued_bytes f"
    | (standing) "\<not> max_flow_queued_bytes (config s) < qbytes e + queued_bytes f"
        "backpressure_enabled (config s) \<and> Shedding \<le> pe_state (pressure s) \<and> standing_state (fairness e) = Standing"
    | (admit) "\<not> max_flow_queued_bytes (config s) < qbytes e + queued_bytes f"
        "\<not> (backpressure_enabled (config s) \<and> Shedding \<le> pe_state (pressure s) \<and> standing_state (fairness e) = Standing)"
    by blast
  then show thesis
  proof cases
    case cap
    then have x: "enqueue_into c f w (c mod buckets s) now e s = Some (RejectFlowCap, evaluate_pressure now True (note_reject now s1))"
      using qb pend by (simp add: enqueue_into_def Let_def s1_def e0_def)
    show thesis
      by (rule that [OF x]) (use w cs in simp_all)
  next
    case standing
    then have x: "enqueue_into c f w (c mod buckets s) now e s = Some (RejectStandingFlow, evaluate_pressure now True (note_reject now s1))"
      using qb pend by (simp add: enqueue_into_def Let_def s1_def e0_def)
    show thesis
      by (rule that [OF x]) (use w cs in simp_all)
  next
    case admit
    let ?b = "bucket_queued_bytes s ! (c mod buckets s)"
    define ff1 where "ff1 = (let a = (fairness e0)\<lparr>pending_bytes := qbytes e + queued_bytes f\<rparr>
        in if queue_started_at a = None then a\<lparr>queue_started_at := Some now\<rparr> else a)"
    define ff2 where "ff2 = classify_flow (config s) (pe_state (pressure s)) now (ff1\<lparr>in_active_ring := True\<rparr>)"
    define e2 where "e2 = e\<lparr>fairness := ff2, queue := queue e @ [f]\<rparr>"
    define u where "u = s1\<lparr>total_queued_bytes := total_queued_bytes s + queued_bytes f,
        bucket_queued_bytes := (bucket_queued_bytes s)[c mod buckets s := ?b + queued_bytes f],
        flows := AList.update c e2 (flows s)\<rparr>"
    define v where "v = (if in_active_ring (fairness e) then u else enqueue_active_conn c u)"
    define t where "t = apply_flow_membership_delta (flow_membership (fairness e)) (flow_membership ff2) v"
    have ff1: "in_active_ring ff1 = in_active_ring (fairness e)" "flow_membership (ff1\<lparr>in_active_ring := True\<rparr>) = flow_membership (fairness e)"
        "pending_bytes ff1 = qbytes e + queued_bytes f" "bucket_id ff1 = bucket_id (fairness e)" "deficit_bytes ff1 = deficit_bytes (fairness e)"
      by (simp_all add: ff1_def e0_def Let_def flow_membership_def)
    have x: "enqueue_into c f w (c mod buckets s) now e s = Some (Admit, evaluate_pressure now True t)"
      using admit qb pend bb lb f(2) cfg ff1(1,2)
      by (simp add: enqueue_into_def Let_def bucket_upd_Some t_def v_def u_def s1_def e2_def ff2_def ff1_def e0_def)
    have ok2: "flow_ok (config s) (buckets s) c e2"
      using ok admit f(1) ff1 by (auto simp: flow_ok_def e2_def ff2_def classify_deficit qbytes_def max_deficit_def)
    have q2: "qbytes e2 = qbytes e + queued_bytes f" by (simp add: e2_def qbytes_def)
    have r: "replaced c (qbytes e) (mem1 e) (mem2 e) e2 s t"
      using replacedI [OF inv e, of v e2 "?b + queued_bytes f"] q2 by (simp add: t_def v_def u_def e2_def s1_def)
    have tot: "total_queued_bytes t \<le> U64_MAX" using f(2) cfg by (simp add: t_def v_def u_def s1_def)
    have it: "fair_inv {} t"
    proof (cases "queue e = []")
      case True
      then have "\<not> in_active_ring (fairness e)" using ok by (simp add: flow_ok_def)
      then show ?thesis
        using fair_inv_out [OF inv e True] tot ok2
        by (intro replaced_inv_requeue [OF _ e r]) (auto simp: t_def v_def u_def s1_def e2_def enqueue_active_ring)
    next
      case False
      then have "in_active_ring (fairness e)" using ok by (simp add: flow_ok_def)
      then show ?thesis
        using False tot ok2 by (intro replaced_inv_same [OF inv e r]) (auto simp: t_def v_def u_def s1_def e2_def)
    qed
    have qt: "queues t = (queues s)(c := queues s c @ [f])"
      using replaced_queues [OF r] e by (simp add: e2_def queues_def)
    show thesis
    proof (rule that [OF x])
      show "fair_inv {} (evaluate_pressure now True t)" using it by simp
      show "length (flows (evaluate_pressure now True t)) = length (flows s)"
        using e by (auto simp: t_def v_def u_def length_update map_of_keys [symmetric])
      show "sum_list (map queued_bytes (queues (evaluate_pressure now True t) c)) \<le> max_flow_queued_bytes (config s)"
        using admit e by (simp add: qt queues_def qbytes_def)
    qed (simp_all add: qt, simp_all add: t_def v_def u_def s1_def)
  qed
qed

lemma new_flow_entry:
  "qbytes (FlowEntry_new c wid b w) = 0" "mem1 (FlowEntry_new c wid b w) = 0" "mem2 (FlowEntry_new c wid b w) = 0"
  "queue (FlowEntry_new c wid b w) = []" "flow_ok cfg n c (FlowEntry_new c wid (c mod n) w)"
  by (simp_all add: FlowEntry_new_def FlowFairnessState_new_def qbytes_def mem1_def mem2_def flow_membership_def
      scheduler_state_is_backpressured_def flow_ok_def max_deficit_def)

lemma insert_flow_inv:
  assumes inv: "fair_inv {} s" and n: "map_of (flows s) c = None" and l: "length (flows s) < max_active_flows (config s)"
    and b: "b = c mod buckets s"
    and t_def: "t = s\<lparr>bucket_active_flows := (bucket_active_flows s)[b := bucket_active_flows s ! b + 1],
       flows := AList.update c (FlowEntry_new c wid b w) (flows s)\<rparr>"
  shows "fair_inv {} t" "queues t = queues s"
proof -
  let ?e = "FlowEntry_new c wid b w"
  have k: "c \<notin> keys (flows s)" using n map_of_keys by metis
  have bb: "buckets t = buckets s" by (simp add: t_def buckets_def)
  have "flows_ok t"
    using inv l k bb new_flow_entry(5) [of "config s" "buckets s" c wid w] b
    by (auto simp: fair_inv_def flows_ok_def t_def alist_simps)
  moreover have "sums_ok t"
    using inv k bb b unfolding sums_ok_def fair_inv_def t_def
    by (auto simp: asum_update_new new_flow_entry nth_list_update buckets_def)
  moreover have "ring_ok {} t"
    using inv n by (auto simp: fair_inv_def ring_ok_def t_def alist_simps new_flow_entry)
  ultimately show "fair_inv {} t" using inv by (simp add: fair_inv_def t_def)
  show "queues t = queues s"
    using n by (auto simp: queues_def t_def alist_simps new_flow_entry fun_eq_iff)
qed

text \<open>What an admission decision means for the state after it.\<close>

definition admitted_within_caps :: "nat \<Rightarrow> bytes \<Rightarrow> WorkerFairnessState \<Rightarrow> WorkerFairnessState \<Rightarrow> bool" where
  "admitted_within_caps c data s t \<longleftrightarrow>
     total_queued_bytes t = total_queued_bytes s + length data \<and>
     total_queued_bytes t \<le> max_total_queued_bytes (config s) \<and>
     sum_list (map queued_bytes (queues t c)) \<le> max_flow_queued_bytes (config s) \<and>
     bucket_queued_bytes t ! (c mod buckets s) \<le> bucket_cap (config s)"

lemma enqueue_data_spec:
  assumes inv: "fair_inv {} s"
    and f_def: "f = \<lparr>qf_conn_id = c, qf_flags = flags, qf_data = data, qf_enqueued_at = now\<rparr>"
  obtains d t where "enqueue_data c flags data now s = Some (d, t)" "fair_inv {} t" "config t = config s"
    "queues t = (if d = Admit then (queues s)(c := queues s c @ [f]) else queues s)"
    "d = Admit \<Longrightarrow> admitted_within_caps c data s t"
    "d \<noteq> Admit \<Longrightarrow> total_queued_bytes t = total_queued_bytes s"
proof -
  have fb: "queued_bytes f = length data" by (simp add: f_def queued_bytes_def)
  have sm: "sums_ok s" and cfg: "max_total_queued_bytes (config s) < U64_MAX"
    using inv by (simp_all add: fair_inv_def cfg_ok_def)
  have n0: "0 < buckets s" using sm by (simp add: sums_ok_def)
  have bf: "bucket_for s c = c mod buckets s" using n0 by (simp add: bucket_for_def buckets_def max_absorb1 Suc_le_eq)
  have lb: "c mod buckets s < length (bucket_queued_bytes s)" "c mod buckets s < length (bucket_active_flows s)"
    using n0 sm by (simp_all add: sums_ok_def buckets_def)
  let ?b = "bucket_queued_bytes s ! (c mod buckets s)"
  consider (sat) "backpressure_enabled (config s) \<and> pe_state (pressure s) = Saturated"
    | (cap) "max_total_queued_bytes (config s) < sat_add U64_MAX (total_queued_bytes s) (length data)
          \<or> (map_of (flows s) c = None \<and> max_active_flows (config s) \<le> length (flows s))
          \<or> bucket_cap (config s) < sat_add U64_MAX ?b (length data)"
        "\<not> (backpressure_enabled (config s) \<and> pe_state (pressure s) = Saturated)"
    | (go) "\<not> (backpressure_enabled (config s) \<and> pe_state (pressure s) = Saturated)"
        "\<not> max_total_queued_bytes (config s) < sat_add U64_MAX (total_queued_bytes s) (length data)"
        "\<not> (map_of (flows s) c = None \<and> max_active_flows (config s) \<le> length (flows s))"
        "\<not> bucket_cap (config s) < sat_add U64_MAX ?b (length data)"
    by blast
  then show thesis
  proof cases
    case sat
    then have "enqueue_data c flags data now s = Some (RejectSaturated, note_reject now s)"
      by (simp add: enqueue_data_def Let_def)
    then show thesis using that inv by auto
  next
    case cap
    then have "enqueue_data c flags data now s =
        Some (if max_total_queued_bytes (config s) < sat_add U64_MAX (total_queued_bytes s) (length data)
                \<or> (map_of (flows s) c = None \<and> max_active_flows (config s) \<le> length (flows s))
              then RejectWorkerCap else RejectBucketCap, evaluate_pressure now True (note_reject now s))"
      using fb bf lb by (auto simp: enqueue_data_def Let_def f_def [symmetric])
    then show thesis by (rule that) (use inv in \<open>auto split: if_splits\<close>)
  next
    case go
    have tot: "total_queued_bytes s + queued_bytes f \<le> max_total_queued_bytes (config s)"
      using go(2) cfg fb by (auto simp: sat_add_def)
    have bt: "?b \<le> total_queued_bytes s" using n0 by (intro bucket_le_total [OF inv]) simp
    then have bc: "?b + queued_bytes f \<le> bucket_cap (config s)"
      using go(4) fb tot cfg by (auto simp: sat_add_def)
    have fc: "qf_conn_id f = c" by (simp add: f_def)
    have ent: "\<exists>e u. map_of (flows u) c = Some e \<and> fair_inv {} u \<and> queues u = queues s \<and> config u = config s \<and>
        total_queued_bytes u = total_queued_bytes s \<and> bucket_queued_bytes u = bucket_queued_bytes s \<and>
        enqueue_data c flags data now s = enqueue_into c f (weight_for_flags (config s) flags) (c mod buckets s) now e u"
    proof (cases "map_of (flows s) c")
      case (Some e)
      then have "enqueue_data c flags data now s = enqueue_into c f (weight_for_flags (config s) flags) (c mod buckets s) now e s"
        using go bf lb fb by (auto simp: enqueue_data_def Let_def f_def [symmetric])
      then show ?thesis using Some inv by blast
    next
      case None
      let ?e = "FlowEntry_new c (cf_worker_id (config s)) (c mod buckets s) (weight_for_flags (config s) flags)"
      let ?u = "s\<lparr>bucket_active_flows := (bucket_active_flows s)[c mod buckets s := bucket_active_flows s ! (c mod buckets s) + 1],
           flows := AList.update c ?e (flows s)\<rparr>"
      have l: "length (flows s) < max_active_flows (config s)" using go(3) None by simp
      have "bucket_active_flows s ! (c mod buckets s) \<le> length (flows s)"
        using sm n0 asum_indicator(1) [of "\<lambda>c' e. if c' mod buckets s = c mod buckets s then 1 else 0" "flows s"]
        by (simp add: sums_ok_def)
      then have "bucket_active_flows s ! (c mod buckets s) + 1 \<le> U64_MAX"
        using l inv by (simp add: fair_inv_def cfg_ok_def)
      then have "enqueue_data c flags data now s = enqueue_into c f (weight_for_flags (config s) flags) (c mod buckets s) now ?e ?u"
        using go bf lb fb None by (auto simp: enqueue_data_def Let_def f_def [symmetric] bucket_upd_Some)
      moreover have "map_of (flows ?u) c = Some ?e" by (simp add: alist_simps)
      ultimately show ?thesis
        using insert_flow_inv [OF inv None l refl refl, of "cf_worker_id (config s)" "weight_for_flags (config s) flags"]
        by (intro exI [of _ ?e] exI [of _ ?u]) simp
    qed
    then obtain e u where u: "map_of (flows u) c = Some e" "fair_inv {} u" "queues u = queues s" "config u = config s"
        "total_queued_bytes u = total_queued_bytes s" "bucket_queued_bytes u = bucket_queued_bytes s"
        "enqueue_data c flags data now s = enqueue_into c f (weight_for_flags (config s) flags) (c mod buckets s) now e u"
      by blast
    have bu: "buckets u = buckets s" using u(6) by (simp add: buckets_def)
    show thesis
    proof (rule enqueue_into_spec [OF u(2,1) fc, of "weight_for_flags (config s) flags" now])
      show "total_queued_bytes u + queued_bytes f \<le> max_total_queued_bytes (config u)" using tot u by simp
    next
      fix d t
      assume t: "enqueue_into c f (weight_for_flags (config s) flags) (c mod buckets u) now e u = Some (d, t)" "fair_inv {} t"
        "queues t = (if d = Admit then (queues u)(c := queues u c @ [f]) else queues u)" "config t = config u"
        "d = Admit \<Longrightarrow> sum_list (map queued_bytes (queues t c)) \<le> max_flow_queued_bytes (config u)"
        "total_queued_bytes t = total_queued_bytes u + (if d = Admit then queued_bytes f else 0)"
        "bucket_queued_bytes t = (bucket_queued_bytes u)[c mod buckets u :=
          bucket_queued_bytes u ! (c mod buckets u) + (if d = Admit then queued_bytes f else 0)]"
      have "admitted_within_caps c data s t" if "d = Admit"
        using that t u bu tot bc lb fb by (simp add: admitted_within_caps_def)
      then show thesis using t u bu by (intro that [of d t]) auto
    qed
  qed
qed

section \<open>The scheduling round\<close>

lemma delta_standing:
  "standing_flow_count (apply_flow_membership_delta a b s) =
    (if fst a \<noteq> fst b then (if fst b then sat_add U64_MAX (standing_flow_count s) 1 else standing_flow_count s - 1)
     else standing_flow_count s)"
  "backpressured_flow_count (apply_flow_membership_delta a b s) =
    (if snd a \<noteq> snd b then (if snd b then sat_add U64_MAX (backpressured_flow_count s) 1 else backpressured_flow_count s - 1)
     else backpressured_flow_count s)"
  by (simp_all add: apply_flow_membership_delta_def Let_def)

lemma replaced_cong:
  assumes "replaced c m m1 m2 e' s t" "config u = config t" "flows u = flows t"
    "total_queued_bytes u = total_queued_bytes t" "bucket_queued_bytes u = bucket_queued_bytes t"
    "standing_flow_count u = standing_flow_count t" "backpressured_flow_count u = backpressured_flow_count t"
  shows "replaced c m m1 m2 e' s u"
  using assms unfolding replaced_def by presburger

lemma clamp_fields [simp]:
  "pending_bytes (clamp_deficit_bytes cfg f) = pending_bytes f" "bucket_id (clamp_deficit_bytes cfg f) = bucket_id f"
  "scheduler_state (clamp_deficit_bytes cfg f) = scheduler_state f"
  "flow_membership (clamp_deficit_bytes cfg f) = flow_membership f"
  by (simp_all add: clamp_deficit_bytes_def Let_def)

text \<open>The deficit a visit compares with the front frame.\<close>

definition granted :: "WorkerFairnessConfig \<Rightarrow> PressureState \<Rightarrow> nat \<Rightarrow> FlowEntry \<Rightarrow> FlowFairnessState" where
  "granted cfg ps now e =
    (let ff = classify_flow cfg ps now ((fairness e)\<lparr>in_active_ring := False\<rparr>)
     in clamp_deficit_bytes cfg (ff\<lparr>deficit_bytes := sat_i64 (deficit_bytes ff + int (effective_quantum_bytes cfg ps ff))\<rparr>))"

lemma granted_fields:
  "pending_bytes (granted cfg ps now e) = pending_bytes (fairness e)"
  "bucket_id (granted cfg ps now e) = bucket_id (fairness e)"
  "0 \<le> deficit_bytes (granted cfg ps now e)" "deficit_bytes (granted cfg ps now e) \<le> max_deficit cfg"
  using clamp_deficit_range by (simp_all add: granted_def Let_def)

lemma visit_skip:
  assumes "queue e = front # rest" "deficit_bytes (granted cfg ps now e) < as_i64 (queued_bytes front)"
  shows "visit_flow cfg ps now e = (e\<lparr>fairness := (granted cfg ps now e)
      \<lparr>consecutive_skips := sat_add 255 (consecutive_skips (granted cfg ps now e)) 1, in_active_ring := True\<rparr>\<rparr>, True, None, 1, 1)"
  using assms by (simp add: visit_flow_def granted_def Let_def)

lemma visit_dispatch:
  assumes "queue e = front # rest" "\<not> deficit_bytes (granted cfg ps now e) < as_i64 (queued_bytes front)"
    and ok: "flow_ok cfg n c e"
  obtains e' d where "visit_flow cfg ps now e = (e', rest \<noteq> [], Some d, 1, 0)" "dc_frame d = front" "queue e' = rest"
    "flow_ok cfg n c e'"
proof -
  define g where "g = granted cfg ps now e"
  define h where "h = (clamp_deficit_bytes cfg (g\<lparr>pending_bytes := pending_bytes g - queued_bytes front,
      deficit_bytes := sat_i64 (deficit_bytes g - as_i64 (queued_bytes front))\<rparr>))
      \<lparr>consecutive_skips := 0, queue_started_at := (case rest of [] \<Rightarrow> None | f # _ \<Rightarrow> Some (qf_enqueued_at f))\<rparr>"
  define k where "k = (if rest = [] then h\<lparr>scheduler_state := Idle, in_active_ring := False, deficit_bytes := 0\<rparr>
      else h\<lparr>in_active_ring := True\<rparr>)"
  have v: "visit_flow cfg ps now e = (e\<lparr>fairness := k, queue := rest\<rparr>, rest \<noteq> [],
      Some \<lparr>dc_frame = front, dc_pressure_state = ps, dc_flow_class = pressure_class k\<rparr>, 1, 0)"
    using assms(1,2) by (simp add: visit_flow_def granted_def Let_def k_def h_def g_def split: list.split)
  have "qbytes e = queued_bytes front + qbytes (e\<lparr>fairness := k, queue := rest\<rparr>)"
    using assms(1) by (simp add: qbytes_def)
  moreover have "pending_bytes k = pending_bytes (fairness e) - queued_bytes front" "bucket_id k = bucket_id (fairness e)"
      "in_active_ring k = (rest \<noteq> [])" "0 \<le> deficit_bytes k" "deficit_bytes k \<le> max_deficit cfg"
    using clamp_deficit_range by (simp_all add: k_def h_def g_def granted_fields) (simp_all add: max_deficit_def)
  ultimately have "flow_ok cfg n c (e\<lparr>fairness := k, queue := rest\<rparr>)"
    using ok assms(1) by (simp add: flow_ok_def)
  then show thesis by (intro that [OF v]) simp_all
qed

lemma visit_conn_spec:
  assumes inv: "fair_inv {c} s" and e: "map_of (flows s) c = Some e" and q: "queue e = front # rest"
  obtains (skip) t where "visit_conn c now s = Some (None, t)" "fair_inv {} t" "config t = config s"
      "queues t = queues s" "active_ring t = active_ring s @ [c]" "pressure t = pressure s"
      "deficit_bytes (granted (config s) (pe_state (pressure s)) now e) < as_i64 (queued_bytes front)"
      "\<exists>k. flows t = AList.update c (e\<lparr>fairness := (granted (config s) (pe_state (pressure s)) now e)
         \<lparr>consecutive_skips := k, in_active_ring := True\<rparr>\<rparr>) (flows s)"
  | (dispatch) d t where "visit_conn c now s = Some (Some d, t)" "fair_inv {} t" "config t = config s"
      "dc_frame d = front" "queues t = (queues s)(c := rest)"
proof -
  let ?g = "granted (config s) (pe_state (pressure s)) now e"
  note ok = fair_inv_flow [OF inv e]
  have out: "c \<notin> active_ring_members s" using inv by (auto simp: fair_inv_def ring_ok_def)
  note le = flow_bytes_le [OF inv e]
  have lb: "c mod buckets s < length (bucket_queued_bytes s)" using le(3) by (simp add: buckets_def)
  have bid: "bucket_id (fairness e) = c mod buckets s" using ok by (simp add: flow_ok_def)
  have tot: "total_queued_bytes s \<le> U64_MAX" using inv by (simp add: fair_inv_def sums_ok_def)
  show thesis
  proof (cases "deficit_bytes ?g < as_i64 (queued_bytes front)")
    case True
    define e' where "e' = e\<lparr>fairness := ?g\<lparr>consecutive_skips := sat_add 255 (consecutive_skips ?g) 1, in_active_ring := True\<rparr>\<rparr>"
    define u where "u = s\<lparr>flows := AList.update c e' (flows s),
        deficit_grants := sat_add U64_MAX (deficit_grants s) 1, deficit_skips := sat_add U64_MAX (deficit_skips s) 1\<rparr>"
    define v where "v = apply_flow_membership_delta (flow_membership (fairness e)) (flow_membership (fairness e')) u"
    have x: "visit_conn c now s = Some (None, enqueue_active_conn c v)"
      using e visit_skip [OF q True] by (simp add: visit_conn_def Let_def v_def u_def e'_def)
    have "qbytes e' = qbytes e" by (simp add: e'_def qbytes_def)
    then have r: "replaced c (qbytes e) (mem1 e) (mem2 e) e' s (enqueue_active_conn c v)"
      using replacedI [OF inv e, of u e' "bucket_queued_bytes s ! (c mod buckets s)"]
      by (simp add: v_def u_def replaced_def)
    have "flow_ok (config s) (buckets s) c e'"
      using ok q by (simp add: flow_ok_def e'_def granted_fields qbytes_def)
    then have "fair_inv {} (enqueue_active_conn c v)"
      using out q tot by (intro replaced_inv_requeue [OF inv e r]) (auto simp: v_def u_def e'_def enqueue_active_ring)
    moreover have "queues (enqueue_active_conn c v) = queues s"
      using replaced_queues [OF r] e by (auto simp: e'_def queues_def)
    ultimately show thesis
      using True out by (intro skip [OF x]) (auto simp: v_def u_def e'_def enqueue_active_ring)
  next
    case False
    obtain e' d where v: "visit_flow (config s) (pe_state (pressure s)) now e = (e', rest \<noteq> [], Some d, 1, 0)"
        "dc_frame d = front" "queue e' = rest" "flow_ok (config s) (buckets s) c e'"
      using visit_dispatch [OF q False ok] by blast
    let ?b = "bucket_queued_bytes s ! (c mod buckets s)" and ?k = "queued_bytes front"
    have qb: "qbytes e = ?k + qbytes e'" using q v(3) by (simp add: qbytes_def)
    define u where "u = apply_flow_membership_delta (flow_membership (fairness e)) (flow_membership (fairness e'))
      (s\<lparr>flows := AList.update c e' (flows s), deficit_grants := sat_add U64_MAX (deficit_grants s) 1,
         deficit_skips := sat_add U64_MAX (deficit_skips s) 0\<rparr>)"
    define w where "w = (if 0 < ?k then u\<lparr>total_queued_bytes := total_queued_bytes s - ?k,
        bucket_queued_bytes := (bucket_queued_bytes s)[c mod buckets s := ?b - ?k]\<rparr> else u)"
    define t where "t = (if rest \<noteq> [] then enqueue_active_conn c w else w)"
    have x: "visit_conn c now s = Some (Some d, t)"
      using e v lb by (simp add: visit_conn_def Let_def bid bucket_upd_Some t_def w_def u_def)
    define z where "z = s\<lparr>flows := AList.update c e' (flows s), total_queued_bytes := total_queued_bytes s - ?k,
        bucket_queued_bytes := (bucket_queued_bytes s)[c mod buckets s := ?b - ?k]\<rparr>"
    have rz: "replaced c (qbytes e) (mem1 e) (mem2 e) e' s
        (apply_flow_membership_delta (flow_membership (fairness e)) (flow_membership (fairness e')) z)"
      using le(1,2) qb by (intro replacedI [OF inv e, of _ e' "?b - ?k"]) (simp_all add: z_def)
    have r: "replaced c (qbytes e) (mem1 e) (mem2 e) e' s t"
      by (rule replaced_cong [OF rz]) (simp_all add: t_def w_def u_def z_def delta_standing)
    have "fair_inv {} t"
      using out tot v qb
      by (intro replaced_inv_requeue [OF inv e r]) (auto simp: t_def w_def u_def enqueue_active_ring)
    then show thesis
      using v replaced_queues [OF r] by (intro dispatch [OF x]) (auto simp: t_def w_def u_def)
  qed
qed

lemma ring_pop:
  assumes "fair_inv {} s" "active_ring s = c # ring"
  shows "c \<in> active_ring_members s"
    "fair_inv {c} (s\<lparr>active_ring := ring, active_ring_members := active_ring_members s - {c}\<rparr>)"
    "\<exists>e front rest. map_of (flows s) c = Some e \<and> queue e = front # rest"
proof -
  show m: "c \<in> active_ring_members s" using assms by (auto simp: fair_inv_def ring_ok_def)
  then obtain e where "map_of (flows s) c = Some e" "queue e \<noteq> []"
    using assms by (auto simp: fair_inv_def ring_ok_def)
  then show "\<exists>e front rest. map_of (flows s) c = Some e \<and> queue e = front # rest"
    by (auto simp: neq_Nil_conv)
  show "fair_inv {c} (s\<lparr>active_ring := ring, active_ring_members := active_ring_members s - {c}\<rparr>)"
    using assms m by (auto simp: fair_inv_defs)
qed

text \<open>What a decision does to the queues: nothing, or it takes the front of one of them.\<close>

definition decided :: "SchedulerDecision \<Rightarrow> (nat \<Rightarrow> QueuedFrame list) \<Rightarrow> (nat \<Rightarrow> QueuedFrame list) \<Rightarrow> bool" where
  "decided d q q' \<longleftrightarrow>
    (case d of SD_Idle \<Rightarrow> q' = q | Dispatch k \<Rightarrow> \<exists>c rest. q c = dc_frame k # rest \<and> q' = q(c := rest))"

lemma decision_loop_spec:
  assumes "fair_inv {} s"
  obtains d t where "decision_loop n now s = Some (d, t)" "fair_inv {} t" "config t = config s"
    "decided d (queues s) (queues t)"
proof -
  have "\<exists>d t. decision_loop n now s = Some (d, t) \<and> fair_inv {} t \<and> config t = config s \<and> decided d (queues s) (queues t)"
    using assms
  proof (induction n arbitrary: s)
    case 0
    then show ?case by (simp add: decided_def)
  next
    case (Suc n)
    show ?case
    proof (cases "active_ring s")
      case Nil
      then show ?thesis using Suc.prems by (simp add: decided_def)
    next
      case (Cons c ring)
      define s0 where "s0 = s\<lparr>active_ring := ring, active_ring_members := active_ring_members s - {c}\<rparr>"
      note p = ring_pop [OF Suc.prems Cons, folded s0_def]
      obtain e front rest where e: "map_of (flows s0) c = Some e" "queue e = front # rest"
        using p(3) by (auto simp: s0_def)
      have q0: "queues s0 = queues s" and c0: "config s0 = config s" by (simp_all add: s0_def queues_def fun_eq_iff)
      have st: "decision_loop (Suc n) now s = (case visit_conn c now s0 of None \<Rightarrow> None
          | Some (Some k, t) \<Rightarrow> Some (Dispatch k, t) | Some (None, t) \<Rightarrow> decision_loop n now t)"
        using Cons p(1) by (simp add: s0_def Let_def split: option.split)
      show ?thesis
      proof (rule visit_conn_spec [OF p(2) e, of now])
        fix t assume t: "visit_conn c now s0 = Some (None, t)" "fair_inv {} t" "config t = config s0" "queues t = queues s0"
        then show ?thesis using Suc.IH [OF t(2)] st q0 c0 by simp
      next
        fix d t assume t: "visit_conn c now s0 = Some (Some d, t)" "fair_inv {} t" "config t = config s0"
          "dc_frame d = front" "queues t = (queues s0)(c := rest)"
        have "queues s c = front # rest" using e q0 by (metis option.simps(5) queues_def)
        then show ?thesis using st t q0 c0 by (auto simp: decided_def)
      qed
    qed
  qed
  then show thesis using that by blast
qed

lemma next_decision_spec:
  assumes "fair_inv {} s"
  obtains d t where "next_decision now s = Some (d, t)" "fair_inv {} t" "config t = config s"
    "decided d (queues s) (queues t)"
proof -
  define u where "u = evaluate_pressure now False (s\<lparr>scheduler_rounds := sat_add U64_MAX (scheduler_rounds s) 1\<rparr>)"
  have c: "same_core s u" by (simp add: u_def) (simp add: same_core_def)
  have "fair_inv {} u" "queues u = queues s" "config u = config s"
    using assms same_core_inv [OF c] same_core_queues [OF c] by (simp_all add: u_def)
  then show thesis
    using that decision_loop_spec [of u "length (active_ring u)" now] by (metis next_decision_def u_def)
qed

section \<open>Removal and feedback\<close>

lemma reclaimed_eq:
  "sum_list (map queued_bytes fs) + a \<le> U64_MAX \<Longrightarrow>
   fold (\<lambda>f acc. sat_add U64_MAX acc (queued_bytes f)) fs a = a + sum_list (map queued_bytes fs)"
  by (induction fs arbitrary: a) (auto simp: sat_add_def)

lemma remove_flow_spec:
  assumes inv: "fair_inv {} s"
  obtains t where "remove_flow c s = Some t" "fair_inv {} t" "queues t = (queues s)(c := [])" "config t = config s"
proof (cases "map_of (flows s) c")
  case None
  then show thesis using inv by (intro that [of s]) (auto simp: remove_flow_def queues_def fun_eq_iff)
next
  case (Some e)
  note ok = fair_inv_flow [OF inv Some]
  note le = flow_bytes_le [OF inv Some]
  note cb = counts_bound [OF inv Some]
  let ?k = "c mod buckets s"
  have sm: "sums_ok s" and fl: "flows_ok s" and rg: "ring_ok {} s" and cf: "cfg_ok (config s)"
    using inv by (simp_all add: fair_inv_def)
  have bid: "bucket_id (fairness e) = ?k" using ok by (simp add: flow_ok_def)
  have lb: "?k < length (bucket_queued_bytes s)" "?k < length (bucket_active_flows s)"
    using le(3) sm by (simp_all add: sums_ok_def buckets_def)
  have rc: "fold (\<lambda>f acc. sat_add U64_MAX acc (queued_bytes f)) (queue e) 0 = qbytes e"
    using reclaimed_eq [of "queue e" 0] le(1) sm by (simp add: qbytes_def sums_ok_def)
  define t where "t = s\<lparr>flows := AList.delete c (flows s), active_ring_members := active_ring_members s - {c},
      active_ring := filter (\<lambda>x. x \<noteq> c) (active_ring s),
      standing_flow_count := standing_flow_count s - mem1 e, backpressured_flow_count := backpressured_flow_count s - mem2 e,
      bucket_active_flows := (bucket_active_flows s)[?k := bucket_active_flows s ! ?k - 1],
      total_queued_bytes := total_queued_bytes s - qbytes e,
      bucket_queued_bytes := (bucket_queued_bytes s)[?k := bucket_queued_bytes s ! ?k - qbytes e]\<rparr>"
  have x: "remove_flow c s = Some t"
    using Some bid lb rc
    by (cases "flow_membership (fairness e)") (simp add: remove_flow_def Let_def bucket_upd_Some t_def mem1_def mem2_def)
  have ds: "distinct (map fst (flows s))" using fl by (simp add: flows_ok_def)
  note del = asum_delete [OF ds Some]
  have bt: "buckets t = buckets s" by (simp add: t_def buckets_def)
  have "flows_ok t"
    using fl bt AList.distinct_delete [OF ds, of c] length_delete_le [of c "flows s"]
    by (auto simp: flows_ok_def t_def map_of_delete split: if_splits)
  moreover have "ring_ok {} t"
    using rg by (auto simp: ring_ok_def t_def map_of_delete)
  moreover have "sums_ok t"
  proof -
    have lt: "length (bucket_queued_bytes s) = buckets s" "length (bucket_active_flows s) = buckets s"
      using sm by (simp_all add: sums_ok_def buckets_def)
    have "bucket_queued_bytes t ! b = asum (\<lambda>c e. if c mod buckets s = b then qbytes e else 0) (flows t)" if "b < buckets s" for b
      using that sm lt del [of "\<lambda>c e. if c mod buckets s = b then qbytes e else 0"]
      by (auto simp: t_def nth_list_update sums_ok_def)
    moreover have "bucket_active_flows t ! b = asum (\<lambda>c e. if c mod buckets s = b then 1 else 0) (flows t)" if "b < buckets s" for b
      using that sm lt del [of "\<lambda>c e. if c mod buckets s = b then 1 else 0"]
      by (auto simp: t_def nth_list_update sums_ok_def)
    moreover have "total_queued_bytes t = asum (\<lambda>_. qbytes) (flows t)" "standing_flow_count t = asum (\<lambda>_. mem1) (flows t)"
        "backpressured_flow_count t = asum (\<lambda>_. mem2) (flows t)"
      using sm del [of "\<lambda>_. qbytes"] del [of "\<lambda>_. mem1"] del [of "\<lambda>_. mem2"] by (simp_all add: t_def sums_ok_def)
    moreover have "total_queued_bytes t \<le> U64_MAX" "length (bucket_active_flows t) = buckets t" "0 < buckets t"
    proof -
      have "total_queued_bytes t \<le> total_queued_bytes s" by (simp add: t_def)
      then show "total_queued_bytes t \<le> U64_MAX" using sm by (simp add: sums_ok_def)
      show "length (bucket_active_flows t) = buckets t" "0 < buckets t" using sm bt lt by (simp_all add: sums_ok_def) (simp add: t_def)
    qed
    ultimately show ?thesis by (simp add: sums_ok_def bt)
  qed
  ultimately have "fair_inv {} t" using cf by (simp add: fair_inv_def t_def)
  then show thesis
    by (intro that [OF x]) (auto simp: t_def queues_def map_of_delete fun_eq_iff)
qed

lemma feedback_routed_spec:
  assumes inv: "fair_inv {} s"
  shows "fair_inv {} (feedback_routed c k now s)" "queues (feedback_routed c k now s) = queues s"
    "config (feedback_routed c k now s) = config s"
proof -
  have "fair_inv {} (feedback_routed c k now s) \<and> queues (feedback_routed c k now s) = queues s
      \<and> config (feedback_routed c k now s) = config s"
  proof (cases "map_of (flows s) c")
    case None
    then show ?thesis using inv by (simp add: feedback_routed_def)
  next
    case (Some e)
    define ff where "ff = (let a = (fairness e)\<lparr>last_drain_at := Some now,
        recent_drain_bytes := sat_add U64_MAX (recent_drain_bytes (fairness e)) (queued_bytes (dc_frame k)), consecutive_stalls := 0\<rparr>
        in classify_flow (config s) (pe_state (pressure s)) now (if scheduler_state a \<noteq> Idle then a\<lparr>scheduler_state := Active\<rparr> else a))"
    define e' where "e' = e\<lparr>fairness := ff\<rparr>"
    define u where "u = s\<lparr>flows := AList.update c e' (flows s)\<rparr>"
    define t where "t = apply_flow_membership_delta (flow_membership (fairness e)) (flow_membership (fairness e')) u"
    have x: "feedback_routed c k now s = evaluate_pressure now False t"
      using Some by (simp add: feedback_routed_def Let_def t_def u_def e'_def ff_def)
    have f: "pending_bytes ff = pending_bytes (fairness e)" "bucket_id ff = bucket_id (fairness e)"
        "in_active_ring ff = in_active_ring (fairness e)"
        "deficit_bytes ff = (if pending_bytes (fairness e) = 0 then 0 else deficit_bytes (fairness e))"
      by (simp_all add: ff_def Let_def classify_deficit)
    have "qbytes e' = qbytes e" by (simp add: e'_def qbytes_def)
    then have r: "replaced c (qbytes e) (mem1 e) (mem2 e) e' s t"
      unfolding t_def by (intro replacedI [OF inv Some, of _ _ "bucket_queued_bytes s ! (c mod buckets s)"]) (simp_all add: u_def)
    have "flow_ok (config s) (buckets s) c e'"
      using fair_inv_flow [OF inv Some] f by (auto simp: flow_ok_def e'_def qbytes_def max_deficit_def)
    then have "fair_inv {} t"
      using inv by (intro replaced_inv_same [OF inv Some r]) (auto simp: t_def u_def e'_def fair_inv_def sums_ok_def)
    moreover have "queues t = queues s" using replaced_queues [OF r] Some by (auto simp: e'_def queues_def)
    ultimately show ?thesis unfolding x by (simp add: t_def u_def)
  qed
  then show "fair_inv {} (feedback_routed c k now s)" "queues (feedback_routed c k now s) = queues s"
    "config (feedback_routed c k now s) = config s" by blast+
qed

text \<open>The queues after a full downstream queue: the frame is back in front, dropped, or the flow is gone.\<close>

definition returned :: "nat \<Rightarrow> QueuedFrame \<Rightarrow> (nat \<Rightarrow> QueuedFrame list) \<Rightarrow> (nat \<Rightarrow> QueuedFrame list) \<Rightarrow> bool" where
  "returned c f q q' \<longleftrightarrow> q' = q(c := f # q c) \<or> q' = q \<or> q' = q(c := [])"

lemma feedback_queue_full_spec:
  assumes inv: "fair_inv {} s"
    and k: "qf_conn_id (dc_frame k) = c" "queued_bytes (dc_frame k) \<le> max_flow_queued_bytes (config s)"
      "total_queued_bytes s + queued_bytes (dc_frame k) \<le> U64_MAX"
  obtains a t where "feedback_queue_full c k now s = Some (a, t)" "fair_inv {} t" "config t = config s"
    "returned c (dc_frame k) (queues s) (queues t)"
proof -
  define s1 where "s1 = note_stall now s"
  have core: "same_core s s1" by (simp add: s1_def note_stall_def same_core_def)
  have c1: "config s1 = config s" "flows s1 = flows s" by (simp_all add: s1_def note_stall_def)
  have i1: "fair_inv {} s1" "queues s1 = queues s" using inv same_core_inv [OF core] same_core_queues [OF core] by simp_all
  show thesis
  proof (cases "map_of (flows s) c")
    case None
    then have "feedback_queue_full c k now s = Some (Continue, evaluate_pressure now True s1)"
      using c1 by (simp add: feedback_queue_full_def Let_def s1_def)
    then show thesis by (rule that) (use i1 c1 in \<open>simp_all add: returned_def\<close>)
  next
    case (Some e)
    have e1: "map_of (flows s1) c = Some e" using Some c1 by simp
    note ok = fair_inv_flow [OF i1(1) e1, unfolded c1]
    note le = flow_bytes_le [OF i1(1) e1]
    let ?f = "dc_frame k" and ?bp = "backpressure_enabled (config s)" and ?st = "pe_state (pressure s1)"
    let ?n = "queued_bytes ?f" and ?b = "bucket_queued_bytes s1 ! (c mod buckets s1)"
    have bk: "buckets s1 = buckets s" "total_queued_bytes s1 = total_queued_bytes s" by (simp_all add: s1_def note_stall_def buckets_def)
    have lb: "c mod buckets s1 < length (bucket_queued_bytes s1)" using le(3) by (simp add: buckets_def)
    have bb: "?b + ?n \<le> U64_MAX" using bucket_le_total [OF i1(1) le(3)] k(3) bk by simp
    have pend: "pending_bytes (fairness e) = qbytes e" "bucket_id (fairness e) = c mod buckets s1"
        "in_active_ring (fairness e) = (queue e \<noteq> [])"
      using ok bk by (simp_all add: flow_ok_def)
    have pn: "qbytes e + ?n \<le> U64_MAX" using le(1) k(3) bk by simp
    define ff1 where "ff1 = stall_flow ?bp (fairness e)"
    have ff1: "pending_bytes ff1 = qbytes e" "bucket_id ff1 = c mod buckets s1" "in_active_ring ff1 = (queue e \<noteq> [])"
        "deficit_bytes ff1 = deficit_bytes (fairness e)"
      using pend by (simp_all add: ff1_def stall_flow_def)
    define shed where "shed = should_shed_frame (config s) ?st ff1"
    define ff2 where "ff2 = (if shed then ff1 else ff1\<lparr>pending_bytes := qbytes e + ?n,
        queue_started_at := Some (qf_enqueued_at ?f), in_active_ring := True\<rparr>)"
    define ff where "ff = classify_flow (config s) ?st now ff2"
    define e' where "e' = (if shed then e\<lparr>fairness := ff\<rparr> else e\<lparr>queue := ?f # queue e, fairness := ff\<rparr>)"
    define s2 where "s2 = (if shed then shed_frame s1 else s1\<lparr>total_queued_bytes := total_queued_bytes s1 + ?n,
          bucket_queued_bytes := (bucket_queued_bytes s1)[c mod buckets s1 := ?b + ?n]\<rparr>)"
    define u where "u = (let v = s2\<lparr>flows := AList.update c e' (flows s2)\<rparr>
        in if \<not> shed \<and> queue e = [] then enqueue_active_conn c v else v)"
    define t where "t = apply_flow_membership_delta (flow_membership (fairness e)) (flow_membership ff) u"
    define close where "close = (?bp \<and> max_consecutive_stalls_before_close (config s) \<le> consecutive_stalls ff \<and> ?st = Saturated)"
    have x: "feedback_queue_full c k now s =
        (if close then do { z \<leftarrow> remove_flow c t; Some (CloseFlow, evaluate_pressure now True z) }
         else Some (Continue, evaluate_pressure now True t))"
    proof -
      have rf: "return_frame ?f e ff1 s1 = Some (e\<lparr>queue := ?f # queue e\<rparr>, ff2, s2, queue e = [])" if "\<not> shed"
        using that ff1 pn k(3) bk bb lb by (simp add: return_frame_def Let_def bucket_upd_Some ff2_def s2_def)
      have c2: "config s2 = config s" "pressure s2 = pressure s1" "config s1 = config s"
        using c1 by (simp_all add: s2_def shed_frame_def)
      show ?thesis
        using rf c2 by (cases shed)
          (simp_all add: feedback_queue_full_def s1_def [symmetric] e1 ff1_def [symmetric] shed_def [symmetric] Let_def
            t_def u_def close_def ff_def e'_def, auto simp: ff2_def s2_def shed_frame_def)
    qed
    have ok': "flow_ok (config s1) (buckets s1) c e'"
      using ok k ff1 bk c1 by (auto simp: flow_ok_def e'_def ff_def ff2_def classify_deficit qbytes_def max_deficit_def)
    have fe: "fairness e' = ff" by (simp add: e'_def)
    have qb: "qbytes e' = qbytes e + (if shed then 0 else ?n)" by (simp add: e'_def qbytes_def)
    have r: "replaced c (qbytes e) (mem1 e) (mem2 e) e' s1 t"
      unfolding t_def fe [symmetric]
      using qb by (intro replacedI [OF i1(1) e1, of _ _ "?b + (if shed then 0 else ?n)"]) (simp_all add: u_def s2_def shed_frame_def Let_def)
    have tu: "total_queued_bytes t \<le> U64_MAX"
      using k(3) bk by (simp add: t_def u_def s2_def shed_frame_def Let_def)
    have it: "fair_inv {} t"
    proof (cases "\<not> shed \<and> queue e = []")
      case True
      then show ?thesis
        using fair_inv_out [OF i1(1) e1] tu ok'
        by (intro replaced_inv_requeue [OF _ e1 r]) (auto simp: t_def u_def s2_def shed_frame_def e'_def Let_def enqueue_active_ring)
    next
      case False
      then show ?thesis
        using tu ok' by (intro replaced_inv_same [OF i1(1) e1 r]) (auto simp: t_def u_def s2_def shed_frame_def e'_def Let_def)
    qed
    have qt: "queues t = (if shed then queues s else (queues s)(c := ?f # queues s c))"
      using replaced_queues [OF r] Some i1(2) by (auto simp: e'_def queues_def)
    have ct: "config t = config s" using r c1 by (simp add: replaced_def)
    show thesis
    proof (cases close)
      case True
      obtain z where z: "remove_flow c t = Some z" "fair_inv {} z" "queues z = (queues t)(c := [])" "config z = config t"
        by (rule remove_flow_spec [OF it])
      have x': "feedback_queue_full c k now s = Some (CloseFlow, evaluate_pressure now True z)"
        using x True z by simp
      show thesis by (rule that [OF x']) (use z qt ct in \<open>auto simp: returned_def\<close>)
    next
      case False
      then have x': "feedback_queue_full c k now s = Some (Continue, evaluate_pressure now True t)" using x by simp
      show thesis by (rule that [OF x']) (use it qt ct in \<open>auto simp: returned_def\<close>)
    qed
  qed
qed

end
