(* ===== verification/Flow_Fifo.thy ===== *)
theory Flow_Fifo
  imports Main "HOL-Library.Sublist"
begin

text \<open>
  An interface for a store of frames with one queue per connection and at most one frame handed
  out at a time, and what every client may rely on: along any sequence of operations the frames
  delivered for a connection, the one in hand and the ones still queued are, in this order, a
  subsequence of the frames admitted for it.  So nothing is reordered, duplicated or made up.
\<close>

datatype 'f flow_event =
    EAdmit 'f
  | ETake 'f
  | EReturn 'f
  | EDeliver 'f
  | EDrop 'f
  | EClear nat
  | EQuiet

fun event_path :: "('s \<Rightarrow> 'f flow_event \<Rightarrow> 's \<Rightarrow> bool) \<Rightarrow> 's \<Rightarrow> 'f flow_event list \<Rightarrow> 's \<Rightarrow> bool" where
  "event_path ev s [] t \<longleftrightarrow> s = t"
| "event_path ev s (e # es) t \<longleftrightarrow> (\<exists>u. ev s e u \<and> event_path ev u es t)"

fun admitted_by :: "('f \<Rightarrow> nat) \<Rightarrow> nat \<Rightarrow> 'f flow_event list \<Rightarrow> 'f list" where
  "admitted_by conn c [] = []"
| "admitted_by conn c (EAdmit f # es) = (if conn f = c then f # admitted_by conn c es else admitted_by conn c es)"
| "admitted_by conn c (_ # es) = admitted_by conn c es"

fun delivered_by :: "('f \<Rightarrow> nat) \<Rightarrow> nat \<Rightarrow> 'f flow_event list \<Rightarrow> 'f list" where
  "delivered_by conn c [] = []"
| "delivered_by conn c (EDeliver f # es) = (if conn f = c then f # delivered_by conn c es else delivered_by conn c es)"
| "delivered_by conn c (_ # es) = delivered_by conn c es"

locale flow_queues =
  fixes good :: "'s \<Rightarrow> bool" and content :: "'s \<Rightarrow> nat \<Rightarrow> 'f list" and held :: "'s \<Rightarrow> 'f option"
    and conn_of :: "'f \<Rightarrow> nat" and ev :: "'s \<Rightarrow> 'f flow_event \<Rightarrow> 's \<Rightarrow> bool"
  assumes good_step: "good s \<Longrightarrow> ev s e t \<Longrightarrow> good t"
    and admit: "good s \<Longrightarrow> ev s (EAdmit f) t \<Longrightarrow>
      held t = held s \<and> content t = (content s)(conn_of f := content s (conn_of f) @ [f])"
    and take_front: "good s \<Longrightarrow> ev s (ETake f) t \<Longrightarrow>
      held s = None \<and> held t = Some f \<and>
      (\<exists>rest. content s (conn_of f) = f # rest \<and> content t = (content s)(conn_of f := rest))"
    and give_back: "good s \<Longrightarrow> ev s (EReturn f) t \<Longrightarrow>
      held s = Some f \<and> held t = None \<and> content t = (content s)(conn_of f := f # content s (conn_of f))"
    and deliver: "good s \<Longrightarrow> ev s (EDeliver f) t \<Longrightarrow> held s = Some f \<and> held t = None \<and> content t = content s"
    and lose: "good s \<Longrightarrow> ev s (EDrop f) t \<Longrightarrow>
      held s = Some f \<and> held t = None \<and> (content t = content s \<or> content t = (content s)(conn_of f := []))"
    and clear: "good s \<Longrightarrow> ev s (EClear c) t \<Longrightarrow> held t = held s \<and> content t = (content s)(c := [])"
    and quiet: "good s \<Longrightarrow> ev s EQuiet t \<Longrightarrow> held t = held s \<and> content t = content s"
begin

definition in_hand :: "'s \<Rightarrow> nat \<Rightarrow> 'f list" where
  "in_hand s c = (case held s of Some f \<Rightarrow> if conn_of f = c then [f] else [] | None \<Rightarrow> [])"

lemma subseq_mid: "subseq (d @ h @ q) a \<Longrightarrow> subseq q' q \<Longrightarrow> subseq h' h \<Longrightarrow> subseq (d @ h' @ q') a"
  by (meson list_emb_append_mono subseq_order.dual_order.refl subseq_order.order_trans)

lemma one_event:
  assumes "good s" "ev s e t" "subseq (d @ in_hand s c @ content s c) a"
  shows "subseq ((d @ delivered_by conn_of c [e]) @ in_hand t c @ content t c) (a @ admitted_by conn_of c [e])"
proof (cases e)
  case (EAdmit f)
  note l = admit [OF assms(1,2) [unfolded EAdmit]]
  have h: "in_hand t c = in_hand s c" using l by (simp add: in_hand_def)
  have "subseq ((d @ in_hand s c @ content s c) @ [f]) (a @ [f])"
    using assms(3) by (intro list_emb_append_mono) auto
  then show ?thesis using l h assms(3) EAdmit by (auto intro: subseq_order.order_trans)
next
  case (ETake f)
  note l = take_front [OF assms(1,2) [unfolded ETake]]
  show ?thesis using l assms(3) ETake by (auto simp: in_hand_def split: if_splits)
next
  case (EReturn f)
  note l = give_back [OF assms(1,2) [unfolded EReturn]]
  show ?thesis using l assms(3) EReturn by (auto simp: in_hand_def split: if_splits)
next
  case (EDeliver f)
  note l = deliver [OF assms(1,2) [unfolded EDeliver]]
  show ?thesis using l assms(3) EDeliver by (auto simp: in_hand_def split: if_splits)
next
  case (EDrop f)
  note l = lose [OF assms(1,2) [unfolded EDrop]]
  have "subseq (content t c) (content s c)" "in_hand t c = []" using l by (auto simp: in_hand_def)
  then show ?thesis using subseq_mid [OF assms(3), of "content t c" "in_hand t c"] EDrop by simp
next
  case (EClear c')
  note l = clear [OF assms(1,2) [unfolded EClear]]
  have "subseq (content t c) (content s c)" "in_hand t c = in_hand s c" using l by (auto simp: in_hand_def)
  then show ?thesis using subseq_mid [OF assms(3), of "content t c" "in_hand t c"] EClear by simp
next
  case EQuiet
  note l = quiet [OF assms(1,2) [unfolded EQuiet]]
  show ?thesis using l assms(3) EQuiet by (simp add: in_hand_def)
qed

lemma events_Cons:
  "admitted_by conn_of c (e # es) = admitted_by conn_of c [e] @ admitted_by conn_of c es"
  "delivered_by conn_of c (e # es) = delivered_by conn_of c [e] @ delivered_by conn_of c es"
  by (cases e; simp)+

lemma path_fifo:
  assumes "good s" "event_path ev s es t" "subseq (d @ in_hand s c @ content s c) a"
  shows "good t \<and> subseq ((d @ delivered_by conn_of c es) @ in_hand t c @ content t c) (a @ admitted_by conn_of c es)"
  using assms
proof (induction es arbitrary: s d a)
  case (Cons e es)
  then obtain u where u: "ev s e u" "event_path ev u es t" by auto
  have "good u" using good_step Cons.prems(1) u(1) .
  from Cons.IH [OF this u(2) one_event [OF Cons.prems(1) u(1) Cons.prems(3)]] show ?case
    by (simp add: events_Cons [of c e es])
qed simp

end

end
