(* ===== verification/Fairness_Run.thy ===== *)
theory Fairness_Run
  imports Fairness_Inv Flow_Fifo
begin

text \<open>
  The scheduler in use.  The reader of a worker (\<open>src/transport/middle_proxy/reader.rs\<close>,
  \<open>drain_fairness_scheduler\<close>) takes one candidate at a time, routes it and reports back; \<open>fair_sys\<close>
  is the worker's state with the candidate in hand, \<open>fair_event\<close> one call on it.
\<close>

section \<open>The worker and its candidate\<close>

record fair_sys =
  worker :: WorkerFairnessState
  in_flight :: "DispatchCandidate option"

definition mk_frame :: "nat \<Rightarrow> nat \<Rightarrow> bytes \<Rightarrow> nat \<Rightarrow> QueuedFrame" where
  "mk_frame c flags data now = \<lparr>qf_conn_id = c, qf_flags = flags, qf_data = data, qf_enqueued_at = now\<rparr>"

inductive fair_event :: "fair_sys \<Rightarrow> QueuedFrame flow_event \<Rightarrow> fair_sys \<Rightarrow> bool" where
  admit: "enqueue_data c flags data now (worker x) = Some (Admit, t) \<Longrightarrow>
    fair_event x (EAdmit (mk_frame c flags data now)) (x\<lparr>worker := t\<rparr>)"
| reject: "enqueue_data c flags data now (worker x) = Some (d, t) \<Longrightarrow> d \<noteq> Admit \<Longrightarrow>
    fair_event x EQuiet (x\<lparr>worker := t\<rparr>)"
| dispatch: "in_flight x = None \<Longrightarrow> next_decision now (worker x) = Some (Dispatch k, t) \<Longrightarrow>
    fair_event x (ETake (dc_frame k)) \<lparr>worker = t, in_flight = Some k\<rparr>"
| idle: "in_flight x = None \<Longrightarrow> next_decision now (worker x) = Some (SD_Idle, t) \<Longrightarrow>
    fair_event x EQuiet \<lparr>worker = t, in_flight = None\<rparr>"
| routed: "in_flight x = Some k \<Longrightarrow>
    apply_dispatch_feedback (qf_conn_id (dc_frame k)) k Routed now (worker x) = Some (a, t) \<Longrightarrow>
    fair_event x (EDeliver (dc_frame k)) \<lparr>worker = t, in_flight = None\<rparr>"
| returned: "in_flight x = Some k \<Longrightarrow>
    apply_dispatch_feedback (qf_conn_id (dc_frame k)) k fb now (worker x) = Some (a, t) \<Longrightarrow> fb \<noteq> Routed \<Longrightarrow>
    queues t (qf_conn_id (dc_frame k)) = dc_frame k # queues (worker x) (qf_conn_id (dc_frame k)) \<Longrightarrow>
    fair_event x (EReturn (dc_frame k)) \<lparr>worker = t, in_flight = None\<rparr>"
| dropped: "in_flight x = Some k \<Longrightarrow>
    apply_dispatch_feedback (qf_conn_id (dc_frame k)) k fb now (worker x) = Some (a, t) \<Longrightarrow> fb \<noteq> Routed \<Longrightarrow>
    queues t (qf_conn_id (dc_frame k)) \<noteq> dc_frame k # queues (worker x) (qf_conn_id (dc_frame k)) \<Longrightarrow>
    fair_event x (EDrop (dc_frame k)) \<lparr>worker = t, in_flight = None\<rparr>"
| remove: "remove_flow c (worker x) = Some t \<Longrightarrow> fair_event x (EClear c) (x\<lparr>worker := t\<rparr>)"
| switch: "fair_event x EQuiet (x\<lparr>worker := set_backpressure_enabled b now (worker x)\<rparr>)"

inductive_cases admitE: "fair_event x (EAdmit f) y"
inductive_cases takeE: "fair_event x (ETake f) y"
inductive_cases returnE: "fair_event x (EReturn f) y"
inductive_cases deliverE: "fair_event x (EDeliver f) y"
inductive_cases dropE: "fair_event x (EDrop f) y"
inductive_cases clearE: "fair_event x (EClear c) y"
inductive_cases quietE: "fair_event x EQuiet y"

definition fair_start :: "WorkerFairnessConfig \<Rightarrow> nat \<Rightarrow> fair_sys" where
  "fair_start cfg now = \<lparr>worker = WorkerFairnessState_new cfg now, in_flight = None\<rparr>"

section \<open>Invariant of the system\<close>

definition flight_bytes :: "fair_sys \<Rightarrow> nat" where
  "flight_bytes x = (case in_flight x of Some k \<Rightarrow> queued_bytes (dc_frame k) | None \<Rightarrow> 0)"

definition sys_inv :: "fair_sys \<Rightarrow> bool" where
  "sys_inv x \<longleftrightarrow> fair_inv {} (worker x) \<and>
     flight_bytes x \<le> max_flow_queued_bytes (config (worker x)) \<and>
     total_queued_bytes (worker x) + flight_bytes x \<le>
       max_total_queued_bytes (config (worker x)) + max_flow_queued_bytes (config (worker x))"

text \<open>The total is the sum of the queues, so it follows what happens to them.\<close>

definition frames_bytes :: "QueuedFrame list \<Rightarrow> nat" where
  "frames_bytes q = sum_list (map queued_bytes q)"

lemma asum_sum:
  "distinct (map fst al) \<Longrightarrow> asum f al = (\<Sum>k\<in>keys al. f k (the (map_of al k)))"
proof (induction al)
  case (Cons x al)
  obtain k v where x: "x = (k, v)" by fastforce
  have "k \<notin> keys al" using Cons.prems x by auto
  then have "(\<Sum>j\<in>keys al. f j (the (map_of (x # al) j))) = (\<Sum>j\<in>keys al. f j (the (map_of al j)))"
    using x by (intro sum.cong) auto
  then show ?case using Cons x \<open>k \<notin> keys al\<close> by simp
qed simp

lemma total_as_sum:
  assumes "fair_inv X s" "finite K" "keys (flows s) \<subseteq> K"
  shows "total_queued_bytes s = (\<Sum>c\<in>K. frames_bytes (queues s c))"
proof -
  have d: "distinct (map fst (flows s))" and t: "total_queued_bytes s = asum (\<lambda>_. qbytes) (flows s)"
    using assms(1) by (simp_all add: fair_inv_def flows_ok_def sums_ok_def)
  have "frames_bytes (queues s c) = qbytes (the (map_of (flows s) c))" if "c \<in> keys (flows s)" for c
  proof -
    have "map_of (flows s) c \<noteq> None" using that by (simp only: map_of_keys not_not)
    then obtain e where "map_of (flows s) c = Some e" by blast
    then show ?thesis by (simp add: queues_def qbytes_def frames_bytes_def)
  qed
  then have "total_queued_bytes s = (\<Sum>c\<in>keys (flows s). frames_bytes (queues s c))"
    unfolding t asum_sum [OF d] by (intro sum.cong) simp_all
  also have "\<dots> = (\<Sum>c\<in>K. frames_bytes (queues s c))"
  proof (rule sum.mono_neutral_left [OF assms(2,3)])
    have "frames_bytes (queues s c) = 0" if "c \<notin> keys (flows s)" for c
      using that map_of_keys [of "flows s" c] by (simp add: queues_def frames_bytes_def)
    then show "\<forall>c\<in>K - keys (flows s). frames_bytes (queues s c) = 0" by simp
  qed
  finally show ?thesis .
qed

lemma total_of_queues:
  assumes "fair_inv {} s" "fair_inv {} t" "queues t = (queues s)(c := q)"
  shows "total_queued_bytes t + frames_bytes (queues s c) = total_queued_bytes s + frames_bytes q"
proof -
  define K where "K = insert c (keys (flows s) \<union> keys (flows t))"
  have K: "finite K" "keys (flows s) \<subseteq> K" "keys (flows t) \<subseteq> K" "c \<in> K" by (auto simp: K_def)
  have "(\<Sum>j\<in>K. frames_bytes (queues t j)) = frames_bytes q + (\<Sum>j\<in>K - {c}. frames_bytes (queues s j))"
    using K assms(3) by (simp add: sum.remove)
  moreover have "(\<Sum>j\<in>K. frames_bytes (queues s j)) = frames_bytes (queues s c) + (\<Sum>j\<in>K - {c}. frames_bytes (queues s j))"
    using K by (simp add: sum.remove)
  ultimately show ?thesis
    using total_as_sum [OF assms(1) K(1,2)] total_as_sum [OF assms(2) K(1,3)] by simp
qed

lemma total_same_queues: "fair_inv {} s \<Longrightarrow> fair_inv {} t \<Longrightarrow> queues t = queues s \<Longrightarrow> total_queued_bytes t = total_queued_bytes s"
  using total_of_queues [of s t undefined "queues s undefined"] by simp

lemma queue_frame:
  assumes "fair_inv {} s" "queues s c = f # rest"
  shows "qf_conn_id f = c" "queued_bytes f \<le> max_flow_queued_bytes (config s)"
proof -
  obtain e where "map_of (flows s) c = Some e" "queue e = f # rest"
    using assms(2) by (auto simp: queues_def split: option.splits)
  then show "qf_conn_id f = c" "queued_bytes f \<le> max_flow_queued_bytes (config s)"
    using fair_inv_flow [OF assms(1)] by (auto simp: flow_ok_def)
qed

text \<open>Feedback on the candidate in hand: no panic, the invariant, and what becomes of the frame.\<close>

lemma feedback_spec:
  assumes "sys_inv x" "in_flight x = Some k" "qf_conn_id (dc_frame k) = c"
  obtains a t where "apply_dispatch_feedback c k fb now (worker x) = Some (a, t)" "fair_inv {} t"
    "config t = config (worker x)"
    "fb = Routed \<Longrightarrow> queues t = queues (worker x)"
    "fb \<noteq> Routed \<Longrightarrow> returned c (dc_frame k) (queues (worker x)) (queues t)"
proof -
  have inv: "fair_inv {} (worker x)" and b: "queued_bytes (dc_frame k) \<le> max_flow_queued_bytes (config (worker x))"
      "total_queued_bytes (worker x) + queued_bytes (dc_frame k) \<le> U64_MAX"
    using assms(1,2) by (auto simp: sys_inv_def flight_bytes_def fair_inv_def cfg_ok_def)
  show thesis
  proof (cases fb)
    case Routed
    then show thesis
      using feedback_routed_spec [OF inv, of c k now] that by (simp add: apply_dispatch_feedback_def)
  next
    case QueueFull
    obtain a t where t: "feedback_queue_full c k now (worker x) = Some (a, t)" "fair_inv {} t" "config t = config (worker x)"
        "returned c (dc_frame k) (queues (worker x)) (queues t)"
      by (rule feedback_queue_full_spec [OF inv assms(3) b])
    have e: "apply_dispatch_feedback c k fb now (worker x) = Some (a, t)"
      using QueueFull t by (simp add: apply_dispatch_feedback_def)
    show thesis by (rule that [OF e]) (use t QueueFull in simp_all)
  next
    case ChannelClosed
    obtain t where t: "remove_flow c (worker x) = Some t" "fair_inv {} t" "queues t = (queues (worker x))(c := [])"
        "config t = config (worker x)" by (rule remove_flow_spec [OF inv])
    have e: "apply_dispatch_feedback c k fb now (worker x) = Some (CloseFlow, evaluate_pressure now True t)"
      using ChannelClosed t by (simp add: apply_dispatch_feedback_def)
    show thesis by (rule that [OF e]) (use t ChannelClosed in \<open>simp_all add: returned_def\<close>)
  next
    case NoConn
    obtain t where t: "remove_flow c (worker x) = Some t" "fair_inv {} t" "queues t = (queues (worker x))(c := [])"
        "config t = config (worker x)" by (rule remove_flow_spec [OF inv])
    have e: "apply_dispatch_feedback c k fb now (worker x) = Some (CloseFlow, evaluate_pressure now True t)"
      using NoConn t by (simp add: apply_dispatch_feedback_def)
    show thesis by (rule that [OF e]) (use t NoConn in \<open>simp_all add: returned_def\<close>)
  qed
qed

lemma set_backpressure_core: "same_core s (set_backpressure_enabled b now s)"
  by (simp add: set_backpressure_enabled_def Let_def same_core_def)

section \<open>One lemma per call\<close>

lemma enqueue_sys:
  assumes "sys_inv x" "enqueue_data c flags data now (worker x) = Some (d, t)"
  shows "sys_inv (x\<lparr>worker := t\<rparr>)"
    "queues t = (if d = Admit then (queues (worker x))(c := queues (worker x) c @ [mk_frame c flags data now]) else queues (worker x))"
proof -
  have inv: "fair_inv {} (worker x)" using assms(1) by (simp add: sys_inv_def)
  have t: "fair_inv {} t" "config t = config (worker x)" "d = Admit \<Longrightarrow> admitted_within_caps c data (worker x) t"
      "d \<noteq> Admit \<Longrightarrow> total_queued_bytes t = total_queued_bytes (worker x)"
      "queues t = (if d = Admit then (queues (worker x))(c := queues (worker x) c @ [mk_frame c flags data now]) else queues (worker x))"
    using assms(2) by (rule_tac enqueue_data_spec [OF inv refl, of c flags data now]; simp add: mk_frame_def)+
  show "sys_inv (x\<lparr>worker := t\<rparr>)"
    using assms(1) t by (cases "d = Admit") (auto simp: sys_inv_def flight_bytes_def admitted_within_caps_def)
  show "queues t = (if d = Admit then (queues (worker x))(c := queues (worker x) c @ [mk_frame c flags data now]) else queues (worker x))"
    by (rule t(5))
qed

lemma decision_sys:
  assumes "sys_inv x" "in_flight x = None" "next_decision now (worker x) = Some (d, t)"
  shows "sys_inv \<lparr>worker = t, in_flight = (case d of Dispatch k \<Rightarrow> Some k | SD_Idle \<Rightarrow> None)\<rparr>"
    "d = SD_Idle \<Longrightarrow> queues t = queues (worker x)"
    "d = Dispatch k \<Longrightarrow> \<exists>rest. queues (worker x) (qf_conn_id (dc_frame k)) = dc_frame k # rest \<and>
       queues t = (queues (worker x))(qf_conn_id (dc_frame k) := rest)"
proof -
  have inv: "fair_inv {} (worker x)" using assms(1) by (simp add: sys_inv_def)
  have t: "fair_inv {} t" "config t = config (worker x)" "decided d (queues (worker x)) (queues t)"
    using assms(3) by (rule_tac next_decision_spec [OF inv, of now]; simp)+
  show "d = SD_Idle \<Longrightarrow> queues t = queues (worker x)" using t(3) by (simp add: decided_def)
  show D: "\<exists>rest. queues (worker x) (qf_conn_id (dc_frame k)) = dc_frame k # rest \<and>
       queues t = (queues (worker x))(qf_conn_id (dc_frame k) := rest)" if "d = Dispatch k" for k
    using t(3) that queue_frame(1) [OF inv] by (auto simp: decided_def)
  show "sys_inv \<lparr>worker = t, in_flight = (case d of Dispatch k \<Rightarrow> Some k | SD_Idle \<Rightarrow> None)\<rparr>"
  proof (cases d)
    case SD_Idle
    then show ?thesis
      using assms(1,2) t total_same_queues [OF inv t(1)] by (simp add: sys_inv_def flight_bytes_def decided_def)
  next
    case (Dispatch k)
    obtain rest where r: "queues (worker x) (qf_conn_id (dc_frame k)) = dc_frame k # rest"
        "queues t = (queues (worker x))(qf_conn_id (dc_frame k) := rest)" using D [OF Dispatch] by blast
    have "total_queued_bytes t + queued_bytes (dc_frame k) = total_queued_bytes (worker x)"
      using total_of_queues [OF inv t(1) r(2)] r(1) by (simp add: frames_bytes_def)
    then show ?thesis
      using Dispatch assms(1,2) t queue_frame(2) [OF inv r(1)] by (simp add: sys_inv_def flight_bytes_def)
  qed
qed

lemma feedback_sys:
  assumes "sys_inv x" "in_flight x = Some k"
    "apply_dispatch_feedback (qf_conn_id (dc_frame k)) k fb now (worker x) = Some (a, t)"
  shows "sys_inv \<lparr>worker = t, in_flight = None\<rparr>" "fb = Routed \<Longrightarrow> queues t = queues (worker x)"
    "fb \<noteq> Routed \<Longrightarrow> returned (qf_conn_id (dc_frame k)) (dc_frame k) (queues (worker x)) (queues t)"
proof -
  let ?c = "qf_conn_id (dc_frame k)"
  have inv: "fair_inv {} (worker x)" using assms(1) by (simp add: sys_inv_def)
  have t: "fair_inv {} t" "config t = config (worker x)" "fb = Routed \<Longrightarrow> queues t = queues (worker x)"
      "fb \<noteq> Routed \<Longrightarrow> returned ?c (dc_frame k) (queues (worker x)) (queues t)"
    using assms(3) by (rule_tac feedback_spec [OF assms(1,2) refl, of fb now]; simp)+
  then show "fb = Routed \<Longrightarrow> queues t = queues (worker x)"
      "fb \<noteq> Routed \<Longrightarrow> returned ?c (dc_frame k) (queues (worker x)) (queues t)" by blast+
  have "total_queued_bytes t \<le> total_queued_bytes (worker x) + queued_bytes (dc_frame k)"
  proof (cases "queues t = queues (worker x)")
    case True
    then show ?thesis using total_same_queues [OF inv t(1)] by simp
  next
    case False
    then consider "queues t = (queues (worker x))(?c := dc_frame k # queues (worker x) ?c)" | "queues t = (queues (worker x))(?c := [])"
      using t(3,4) by (cases "fb = Routed") (auto simp: returned_def)
    then show ?thesis
      by cases (drule total_of_queues [OF inv t(1)], simp add: frames_bytes_def)+
  qed
  then show "sys_inv \<lparr>worker = t, in_flight = None\<rparr>"
    using assms(1,2) t by (simp add: sys_inv_def flight_bytes_def)
qed

lemma remove_sys:
  assumes "sys_inv x" "remove_flow c (worker x) = Some t"
  shows "sys_inv (x\<lparr>worker := t\<rparr>)" "queues t = (queues (worker x))(c := [])"
proof -
  have inv: "fair_inv {} (worker x)" using assms(1) by (simp add: sys_inv_def)
  have t: "fair_inv {} t" "config t = config (worker x)" "queues t = (queues (worker x))(c := [])"
    using assms(2) by (rule_tac remove_flow_spec [OF inv, of c]; simp)+
  then show "queues t = (queues (worker x))(c := [])" by blast
  have "total_queued_bytes t \<le> total_queued_bytes (worker x)"
    using total_of_queues [OF inv t(1,3)] by (simp add: frames_bytes_def)
  then show "sys_inv (x\<lparr>worker := t\<rparr>)"
    using assms(1) t by (simp add: sys_inv_def flight_bytes_def)
qed

lemma switch_sys:
  "sys_inv x \<Longrightarrow> sys_inv (x\<lparr>worker := set_backpressure_enabled b now (worker x)\<rparr>)"
  "queues (set_backpressure_enabled b now s) = queues s"
  using same_core_inv [OF set_backpressure_core [of "worker x" b now], of "{}"] set_backpressure_core [of "worker x" b now]
    same_core_queues [OF set_backpressure_core [of s b now]]
  by (simp_all add: sys_inv_def flight_bytes_def same_core_def)

lemma event_sys_inv: "sys_inv x \<Longrightarrow> fair_event x e y \<Longrightarrow> sys_inv y"
  by (erule fair_event.cases)
    (auto dest: enqueue_sys(1) decision_sys(1) feedback_sys(1) remove_sys(1) intro: switch_sys(1) split: SchedulerDecision.splits)

section \<open>Every run\<close>

lemma feedback_returned:
  assumes "sys_inv x" "in_flight x = Some k"
    "apply_dispatch_feedback (qf_conn_id (dc_frame k)) k fb now (worker x) = Some (a, t)" "fb \<noteq> Routed"
  shows "queues t (qf_conn_id (dc_frame k)) = dc_frame k # queues (worker x) (qf_conn_id (dc_frame k)) \<Longrightarrow>
      queues t = (queues (worker x))(qf_conn_id (dc_frame k) := dc_frame k # queues (worker x) (qf_conn_id (dc_frame k)))"
    "queues t (qf_conn_id (dc_frame k)) \<noteq> dc_frame k # queues (worker x) (qf_conn_id (dc_frame k)) \<Longrightarrow>
      queues t = queues (worker x) \<or> queues t = (queues (worker x))(qf_conn_id (dc_frame k) := [])"
  using feedback_sys(3) [OF assms] by (auto simp: returned_def)

interpretation fq: flow_queues sys_inv "\<lambda>x. queues (worker x)" "\<lambda>x. map_option dc_frame (in_flight x)"
  qf_conn_id fair_event
proof
  fix x y :: fair_sys and e f c
  assume inv: "sys_inv x"
  show "fair_event x e y \<Longrightarrow> sys_inv y" using inv by (rule event_sys_inv)
  show "fair_event x (EAdmit f) y \<Longrightarrow> map_option dc_frame (in_flight y) = map_option dc_frame (in_flight x) \<and>
      queues (worker y) = (queues (worker x))(qf_conn_id f := queues (worker x) (qf_conn_id f) @ [f])"
    by (erule admitE) (use enqueue_sys(2) [OF inv] in \<open>auto simp: mk_frame_def\<close>)
  show "fair_event x (ETake f) y \<Longrightarrow> map_option dc_frame (in_flight x) = None \<and> map_option dc_frame (in_flight y) = Some f \<and>
      (\<exists>rest. queues (worker x) (qf_conn_id f) = f # rest \<and> queues (worker y) = (queues (worker x))(qf_conn_id f := rest))"
    by (erule takeE) (use decision_sys(3) [OF inv] in auto)
  show "fair_event x (EReturn f) y \<Longrightarrow> map_option dc_frame (in_flight x) = Some f \<and> map_option dc_frame (in_flight y) = None \<and>
      queues (worker y) = (queues (worker x))(qf_conn_id f := f # queues (worker x) (qf_conn_id f))"
    by (erule returnE) (auto intro: feedback_returned(1) [OF inv])
  show "fair_event x (EDeliver f) y \<Longrightarrow> map_option dc_frame (in_flight x) = Some f \<and> map_option dc_frame (in_flight y) = None \<and>
      queues (worker y) = queues (worker x)"
    by (erule deliverE) (use feedback_sys(2) [OF inv] in auto)
  show "fair_event x (EDrop f) y \<Longrightarrow> map_option dc_frame (in_flight x) = Some f \<and> map_option dc_frame (in_flight y) = None \<and>
      (queues (worker y) = queues (worker x) \<or> queues (worker y) = (queues (worker x))(qf_conn_id f := []))"
    by (erule dropE) (use feedback_returned(2) [OF inv] in auto)
  show "fair_event x (EClear c) y \<Longrightarrow> map_option dc_frame (in_flight y) = map_option dc_frame (in_flight x) \<and>
      queues (worker y) = (queues (worker x))(c := [])"
    by (erule clearE) (use remove_sys(2) [OF inv] in auto)
  show "fair_event x EQuiet y \<Longrightarrow> map_option dc_frame (in_flight y) = map_option dc_frame (in_flight x) \<and>
      queues (worker y) = queues (worker x)"
    by (erule quietE) (use enqueue_sys(2) [OF inv] decision_sys(2) [OF inv] switch_sys(2) in auto)
qed

lemma start_inv:
  assumes "cfg_ok cfg"
  shows "sys_inv (fair_start cfg now)" "queues (worker (fair_start cfg now)) c = []" "in_flight (fair_start cfg now) = None"
  using assms
  by (simp_all add: sys_inv_def fair_start_def flight_bytes_def WorkerFairnessState_new_def Let_def fair_inv_defs
      cfg_ok_def queues_def)

lemma path_inv:
  assumes "cfg_ok cfg" "event_path fair_event (fair_start cfg now) es x"
  shows "sys_inv x"
    "subseq (delivered_by qf_conn_id c es @ fq.in_hand x c @ queues (worker x) c) (admitted_by qf_conn_id c es)"
  using fq.path_fifo [where d = "[]" and c = c and a = "[]", OF start_inv(1) [OF assms(1)] assms(2)] start_inv(2,3) [OF assms(1)]
  by (auto simp: fq.in_hand_def)

lemma ring_consistent:
  assumes "fair_inv {} s"
  shows "debug_check_active_ring_consistency s"
proof -
  have r: "distinct (active_ring s)" "set (active_ring s) = active_ring_members s"
      "\<And>c. (c \<in> active_ring_members s) = (\<exists>e. map_of (flows s) c = Some e \<and> queue e \<noteq> [])"
    using assms by (auto simp: fair_inv_def ring_ok_def)
  have "length (active_ring s) = card (active_ring_members s)"
    using r distinct_card by metis
  moreover have "\<forall>c\<in>set (active_ring s). c \<in> active_ring_members s \<and>
       (case map_of (flows s) c of None \<Rightarrow> False | Some flow \<Rightarrow> in_active_ring (fairness flow) \<and> queue flow \<noteq> [])"
    using r fair_inv_flow [OF assms] by (fastforce simp: flow_ok_def)
  moreover have "in_active_ring (fairness e) = (c \<in> active_ring_members s) \<and> (c \<in> active_ring_members s \<longrightarrow> queue e \<noteq> [])"
    if "(c, e) \<in> set (flows s)" for c e
  proof -
    have "map_of (flows s) c = Some e" using that assms by (simp add: fair_inv_def flows_ok_def)
    then show ?thesis using r(3) fair_inv_flow [OF assms] by (auto simp: flow_ok_def)
  qed
  ultimately show ?thesis
    using r(1) by (auto simp: debug_check_active_ring_consistency_def list_all_iff)
qed

end
