(* ===== verification/Fairness_Live.thy ===== *)
theory Fairness_Live
  imports Fairness_Run
begin

text \<open>
  What the scheduler promises to the reader of a worker: order, balanced books, no panic, caps on
  admission, progress of the round, and hysteresis of the pressure state.
\<close>

section \<open>Progress of the round\<close>

definition deficit_of :: "WorkerFairnessState \<Rightarrow> nat \<Rightarrow> int" where
  "deficit_of s c = (case map_of (flows s) c of Some e \<Rightarrow> deficit_bytes (fairness e) | None \<Rightarrow> 0)"

text \<open>A flow that is passed over has gained at least one byte of deficit and still lacks some.\<close>

lemma granted_skip:
  assumes "flow_ok cfg n c e" "cfg_ok cfg" "queue e = front # rest"
    "deficit_bytes (granted cfg ps now e) < as_i64 (queued_bytes front)"
  shows "deficit_bytes (fairness e) + 1 \<le> deficit_bytes (granted cfg ps now e)"
    "deficit_bytes (granted cfg ps now e) < int (queued_bytes front)"
proof -
  let ?f = "classify_flow cfg ps now ((fairness e)\<lparr>in_active_ring := False\<rparr>)"
  have q: "1 \<le> effective_quantum_bytes cfg ps ?f" by (simp add: effective_quantum_bytes_def Let_def)
  have g0: "0 \<le> deficit_bytes (granted cfg ps now e)" by (rule granted_fields)
  show lt: "deficit_bytes (granted cfg ps now e) < int (queued_bytes front)"
    using assms(4) by (auto simp: as_i64_def split: if_splits)
  have fl: "int (queued_bytes front) \<le> max_deficit cfg"
    using assms g0 by (auto simp: as_i64_def max_deficit_def flow_ok_def cfg_ok_def split: if_splits)
  have "pending_bytes (fairness e) \<noteq> 0"
    using assms(1,3) lt g0 by (auto simp: flow_ok_def qbytes_def)
  then have d: "deficit_bytes (granted cfg ps now e) =
      max 0 (min (max_deficit cfg) (sat_i64 (deficit_bytes (fairness e) + int (effective_quantum_bytes cfg ps ?f))))"
    by (simp add: granted_def Let_def clamp_deficit_bytes_def max_deficit_def classify_deficit)
  have "max_deficit cfg \<le> I64_MAX" by (simp add: max_deficit_def)
  moreover have "0 \<le> deficit_bytes (fairness e)" using assms(1) by (simp add: flow_ok_def)
  ultimately show "deficit_bytes (fairness e) + 1 \<le> deficit_bytes (granted cfg ps now e)"
    using q lt fl d by (auto simp: sat_i64_def max_def min_def split: if_splits)
qed

lemma loop_idle:
  assumes "fair_inv {} s" "decision_loop n now s = Some (SD_Idle, t)" "n \<le> length (active_ring s)"
  shows "active_ring t = drop n (active_ring s) @ take n (active_ring s) \<and>
    (\<forall>c. deficit_of s c \<le> deficit_of t c) \<and>
    (\<forall>c\<in>set (take n (active_ring s)). deficit_of s c + 1 \<le> deficit_of t c \<and> deficit_of s c + 1 < int (queued_bytes (hd (queues s c))))"
  using assms
proof (induction n arbitrary: s)
  case (Suc n)
  obtain c ring where R: "active_ring s = c # ring" using Suc.prems(3) by (cases "active_ring s") auto
  define s0 where "s0 = s\<lparr>active_ring := ring, active_ring_members := active_ring_members s - {c}\<rparr>"
  note p = ring_pop [OF Suc.prems(1) R, folded s0_def]
  obtain e front rest where e: "map_of (flows s0) c = Some e" "queue e = front # rest"
    using p(3) by (auto simp: s0_def)
  have d0: "deficit_of s0 = deficit_of s" and q0: "queues s0 = queues s"
    by (simp_all add: s0_def deficit_of_def queues_def fun_eq_iff)
  have hq: "queues s c = front # rest" using e q0 by (metis option.simps(5) queues_def)
  have st: "decision_loop (Suc n) now s = (case visit_conn c now s0 of None \<Rightarrow> None
      | Some (Some k, t) \<Rightarrow> Some (Dispatch k, t) | Some (None, t) \<Rightarrow> decision_loop n now t)"
    using R p(1) by (simp add: s0_def Let_def split: option.split)
  show ?case
  proof (rule visit_conn_spec [OF p(2) e, of now])
    fix u
    let ?g = "granted (config s0) (pe_state (pressure s0)) now e"
    assume u: "visit_conn c now s0 = Some (None, u)" "fair_inv {} u" "queues u = queues s0"
      "active_ring u = active_ring s0 @ [c]" "deficit_bytes ?g < as_i64 (queued_bytes front)"
      "\<exists>k. flows u = AList.update c (e\<lparr>fairness := ?g\<lparr>consecutive_skips := k, in_active_ring := True\<rparr>\<rparr>) (flows s0)"
    have cf: "cfg_ok (config s0)" using p(2) by (simp add: fair_inv_def)
    note g = granted_skip [OF fair_inv_flow [OF p(2) e(1)] cf e(2) u(5)]
    have du: "deficit_of u = (deficit_of s)(c := deficit_bytes ?g)"
      using u(6) by (auto simp: fun_eq_iff deficit_of_def s0_def update_conv')
    have sc: "deficit_of s c = deficit_bytes (fairness e)" using e d0 by (simp add: deficit_of_def flip: d0)
    have L: "decision_loop n now u = Some (SD_Idle, t)" using Suc.prems(2) st u(1) by simp
    have ru: "active_ring u = ring @ [c]" using u(4) by (simp add: s0_def)
    have ln: "n \<le> length ring" using Suc.prems(3) R by simp
    note ih = Suc.IH [OF u(2) L]
    have a: "active_ring t = drop n ring @ [c] @ take n ring" using ih ln ru by simp
    have m: "\<forall>c. deficit_of u c \<le> deficit_of t c" using ih ln ru by simp
    have i: "\<forall>c\<in>set (take n ring). deficit_of u c + 1 \<le> deficit_of t c \<and> deficit_of u c + 1 < int (queued_bytes (hd (queues s c)))"
      using ih ln ru u(3) q0 by simp
    have cn: "c \<notin> set ring" using Suc.prems(1) R by (auto simp: fair_inv_def ring_ok_def)
    have "deficit_of u c = deficit_bytes ?g" "\<And>c'. c' \<noteq> c \<Longrightarrow> deficit_of u c' = deficit_of s c'" by (simp_all add: du)
    moreover have "\<And>c'. c' \<in> set (take n ring) \<Longrightarrow> c' \<noteq> c" using cn by (meson in_set_takeD)
    ultimately have "\<forall>c'\<in>set (take n ring). deficit_of s c' + 1 \<le> deficit_of t c' \<and> deficit_of s c' + 1 < int (queued_bytes (hd (queues s c')))"
        "deficit_of s c + 1 \<le> deficit_of t c" "\<forall>c'. deficit_of s c' \<le> deficit_of t c'"
      using i m g sc by (fastforce, smt (verit, best), smt (verit, best))
    then show ?case using a R hq g sc by simp
  next
    fix d u assume "visit_conn c now s0 = Some (Some d, u)"
    then show ?case using st Suc.prems(2) by simp
  qed
qed simp


text \<open>Decisions at the given instants until one of them dispatches.\<close>

fun next_dispatch :: "nat list \<Rightarrow> WorkerFairnessState \<Rightarrow> (SchedulerDecision \<times> WorkerFairnessState) rs" where
  "next_dispatch [] s = Some (SD_Idle, s)"
| "next_dispatch (now # ts) s = do {
     (d, t) \<leftarrow> next_decision now s;
     case d of Dispatch k \<Rightarrow> Some (d, t) | SD_Idle \<Rightarrow> next_dispatch ts t }"

lemma decision_idle:
  assumes "fair_inv {} s" "next_decision now s = Some (SD_Idle, t)" "queues s c \<noteq> []"
  shows "deficit_of s c + 1 \<le> deficit_of t c" "deficit_of s c + 1 < int (queued_bytes (hd (queues s c)))"
proof -
  define u where "u = evaluate_pressure now False (s\<lparr>scheduler_rounds := sat_add U64_MAX (scheduler_rounds s) 1\<rparr>)"
  have c: "same_core s u" by (simp add: u_def) (simp add: same_core_def)
  have iu: "fair_inv {} u" and qu: "queues u = queues s"
    using assms(1) same_core_inv [OF c] same_core_queues [OF c] by simp_all
  have du: "deficit_of u = deficit_of s" by (simp add: fun_eq_iff deficit_of_def u_def)
  obtain e where "map_of (flows u) c = Some e" "queue e \<noteq> []"
    using assms(3) qu by (metis option.case_eq_if option.collapse queues_def)
  then have "c \<in> set (active_ring u)" using iu by (auto simp: fair_inv_def ring_ok_def)
  moreover have "decision_loop (length (active_ring u)) now u = Some (SD_Idle, t)"
    using assms(2) by (simp add: next_decision_def u_def)
  ultimately show "deficit_of s c + 1 \<le> deficit_of t c" "deficit_of s c + 1 < int (queued_bytes (hd (queues s c)))"
    using loop_idle [OF iu] qu du by auto
qed

lemma dispatch_within:
  assumes "fair_inv {} s" "queues s c \<noteq> []" "int k \<le> deficit_of s c"
    "k \<le> queued_bytes (hd (queues s c))" "queued_bytes (hd (queues s c)) < k + length ts"
  shows "\<exists>d t. next_dispatch ts s = Some (Dispatch d, t)"
  using assms
proof (induction ts arbitrary: s k)
  case (Cons now ts)
  show ?case
  proof (rule next_decision_spec [OF Cons.prems(1), of now])
    fix d t assume t: "next_decision now s = Some (d, t)" "fair_inv {} t" "decided d (queues s) (queues t)"
    show ?case
    proof (cases d)
      case SD_Idle
      then have q: "queues t = queues s" using t(3) by (simp add: decided_def)
      note g = decision_idle [OF Cons.prems(1) t(1) [unfolded SD_Idle] Cons.prems(2)]
      have "\<exists>d t'. next_dispatch ts t = Some (Dispatch d, t')"
        using Cons.prems g by (intro Cons.IH [OF t(2), of "Suc k"]) (simp_all add: q)
      then show ?thesis using t(1) SD_Idle by simp
    qed (use t in simp)
  qed
qed simp

section \<open>Hysteresis of the pressure state\<close>

text \<open>Forced evaluations at the given instants and signals; the second component lists the targets.\<close>

fun evaluations :: "PressureConfig \<Rightarrow> nat \<Rightarrow> (nat \<times> PressureSignals) list \<Rightarrow> PressureEvaluator \<Rightarrow>
  PressureEvaluator \<times> PressureState list" where
  "evaluations cfg mx [] e = (e, [])"
| "evaluations cfg mx ((now, sg) # ins) e =
    (let target = derive_target_state cfg mx sg ((rotate_window_if_needed now cfg e)\<lparr>rounds_since_eval := 0\<rparr>);
         (e', ts) = evaluations cfg mx ins (maybe_evaluate now cfg mx sg True e)
     in (e', target # ts))"

lemma rotate_state [simp]:
  "pe_state (rotate_window_if_needed now cfg e) = pe_state e"
  "candidate_state (rotate_window_if_needed now cfg e) = candidate_state e"
  "candidate_hits (rotate_window_if_needed now cfg e) = candidate_hits e"
  by (simp_all add: rotate_window_if_needed_def)

lemma evaluate_step:
  assumes "pc_backpressure_enabled cfg" "transition_hysteresis_rounds cfg \<le> 255"
    "derive_target_state cfg mx sg ((rotate_window_if_needed now cfg e)\<lparr>rounds_since_eval := 0\<rparr>) = T"
  shows "pe_state e = T \<Longrightarrow> pe_state (maybe_evaluate now cfg mx sg True e) = T"
    "pe_state e \<noteq> T \<Longrightarrow> hits = (if candidate_state e = T then candidate_hits e + 1 else 1) \<Longrightarrow>
       max (transition_hysteresis_rounds cfg) 1 \<le> hits \<Longrightarrow>
       pe_state (maybe_evaluate now cfg mx sg True e) = T"
    "pe_state e \<noteq> T \<Longrightarrow> hits = (if candidate_state e = T then candidate_hits e + 1 else 1) \<Longrightarrow>
       hits < max (transition_hysteresis_rounds cfg) 1 \<Longrightarrow>
       pe_state (maybe_evaluate now cfg mx sg True e) = pe_state e \<and>
       candidate_state (maybe_evaluate now cfg mx sg True e) = T \<and>
       candidate_hits (maybe_evaluate now cfg mx sg True e) = hits"
  using assms by (auto simp: maybe_evaluate_def Let_def sat_add_def split: if_splits)

lemma evaluations_steady:
  assumes "pc_backpressure_enabled cfg" "transition_hysteresis_rounds cfg \<le> 255"
    "set (snd (evaluations cfg mx ins e)) \<subseteq> {T}"
  shows "pe_state e = T \<Longrightarrow> pe_state (fst (evaluations cfg mx ins e)) = T"
    "pe_state e \<noteq> T \<Longrightarrow> hits = (if candidate_state e = T then candidate_hits e else 0) \<Longrightarrow>
      hits < max (transition_hysteresis_rounds cfg) 1 \<Longrightarrow>
      pe_state (fst (evaluations cfg mx ins e)) =
        (if max (transition_hysteresis_rounds cfg) 1 \<le> hits + length ins then T else pe_state e)"
proof -
  have stay: "pe_state (fst (evaluations cfg mx ins e)) = T"
    if "pe_state e = T" "set (snd (evaluations cfg mx ins e)) \<subseteq> {T}" for e ins
    using that assms(1,2)
    by (induction cfg mx ins e rule: evaluations.induct) (auto simp: Let_def split_beta evaluate_step(1))
  then show "pe_state e = T \<Longrightarrow> pe_state (fst (evaluations cfg mx ins e)) = T"
    using assms(3) by blast
  show "pe_state e \<noteq> T \<Longrightarrow> hits = (if candidate_state e = T then candidate_hits e else 0) \<Longrightarrow>
      hits < max (transition_hysteresis_rounds cfg) 1 \<Longrightarrow>
      pe_state (fst (evaluations cfg mx ins e)) =
        (if max (transition_hysteresis_rounds cfg) 1 \<le> hits + length ins then T else pe_state e)"
    using assms(3)
  proof (induction ins arbitrary: e hits)
    case (Cons i ins)
    obtain now sg where i: "i = (now, sg)" by fastforce
    define e' where "e' = maybe_evaluate now cfg mx sg True e"
    have ev: "fst (evaluations cfg mx (i # ins) e) = fst (evaluations cfg mx ins e')"
      and tg: "derive_target_state cfg mx sg ((rotate_window_if_needed now cfg e)\<lparr>rounds_since_eval := 0\<rparr>) = T"
      and ts: "set (snd (evaluations cfg mx ins e')) \<subseteq> {T}"
      using Cons.prems(4) by (auto simp: i e'_def Let_def split_beta)
    note st = evaluate_step [OF assms(1,2) tg, folded e'_def]
    have hits: "Suc hits = (if candidate_state e = T then candidate_hits e + 1 else 1)" using Cons.prems(2) by simp
    show ?case
    proof (cases "max (transition_hysteresis_rounds cfg) 1 \<le> Suc hits")
      case True
      then have "pe_state e' = T" using st(2) [OF Cons.prems(1) hits] by simp
      then have "pe_state (fst (evaluations cfg mx ins e')) = T" by (rule stay [OF _ ts])
      then show ?thesis using True ev by simp
    next
      case False
      then have "pe_state e' = pe_state e \<and> candidate_state e' = T \<and> candidate_hits e' = Suc hits"
        using st(3) [OF Cons.prems(1) hits] by simp
      then show ?thesis using Cons.IH [of e' "Suc hits"] Cons.prems(1) ts False ev by simp
    qed
  qed (auto split: if_splits)
qed

section \<open>A worker in use\<close>

definition demo_cfg :: WorkerFairnessConfig where
  "demo_cfg = \<lparr>cf_worker_id = 0, backpressure_enabled = True, max_active_flows = 4, max_total_queued_bytes = 16,
     max_flow_queued_bytes = 8, base_quantum_bytes = 4, pressured_quantum_bytes = 2,
     penalized_quantum_bytes = 1, standing_queue_min_age = 250, standing_queue_min_backlog_bytes = 6,
     standing_stall_threshold = 3, max_consecutive_stalls_before_shed = 4,
     max_consecutive_stalls_before_close = 16, soft_bucket_count = 1, soft_bucket_share_pct = 25,
     default_flow_weight = 1, quickack_flow_weight = 4, cf_pressure = PressureConfig_default\<rparr>"

lemma demo_cfg_ok: "cfg_ok demo_cfg" by (simp add: cfg_ok_def demo_cfg_def)

lemmas demo_eval = fair_start_def WorkerFairnessState_new_def demo_cfg_def PressureConfig_default_def PressureEvaluator_new_def
  enqueue_data_def enqueue_into_def note_reject_def evaluate_pressure_def maybe_evaluate_def derive_target_state_def
  rotate_window_if_needed_def bucket_for_def bucket_cap_def bucket_upd_def idx_def weight_for_flags_def FlowEntry_new_def
  FlowFairnessState_new_def classify_flow_def derive_flow_classification_def flow_membership_def enqueue_active_conn_def
  apply_flow_membership_delta_def scheduler_state_is_backpressured_def queued_bytes_def
  next_decision_def visit_conn_def visit_flow_def effective_quantum_bytes_def clamp_deficit_bytes_def as_i64_def
  mk_frame_def Let_def sat_add_def sat_mul_def sat_i64_def
  apply_dispatch_feedback_def feedback_routed_def



definition demo_flow :: FlowEntry where
  "demo_flow = \<lparr>fairness = (FlowFairnessState_new 3 0 0 1)\<lparr>pending_bytes := 1, queue_started_at := Some 0,
     scheduler_state := Active, in_active_ring := True\<rparr>, queue = [mk_frame 3 0 [7] 0]\<rparr>"

definition demo_busy :: WorkerFairnessState where
  "demo_busy = (WorkerFairnessState_new demo_cfg 0)\<lparr>flows := [(3, demo_flow)], active_ring := [3],
     active_ring_members := {3}, total_queued_bytes := 1, bucket_queued_bytes := [1], bucket_active_flows := [1]\<rparr>"

lemma demo_admit: "enqueue_data 3 0 [7] 0 (WorkerFairnessState_new demo_cfg 0) = Some (Admit, demo_busy)"
  by (simp add: demo_eval demo_busy_def demo_flow_def)

lemma demo_busy_inv: "sys_inv \<lparr>worker = demo_busy, in_flight = None\<rparr>" "queues demo_busy 3 = [mk_frame 3 0 [7] 0]"
  using enqueue_sys(1) [OF start_inv(1) [OF demo_cfg_ok], of 3 0 "[7]" 0 0 Admit demo_busy] demo_admit
  by (simp_all add: fair_start_def) (simp add: demo_busy_def demo_flow_def queues_def)

lemma demo_take: "\<exists>k t. next_decision 1 demo_busy = Some (Dispatch k, t) \<and> dc_frame k = mk_frame 3 0 [7] 0"
proof -
  have inv: "fair_inv {} demo_busy" using demo_busy_inv(1) by (simp add: sys_inv_def)
  show ?thesis
  proof (rule next_decision_spec [OF inv, of 1])
    fix d t assume t: "next_decision 1 demo_busy = Some (d, t)" "decided d (queues demo_busy) (queues t)"
    have q: "queues demo_busy c = (if c = 3 then [mk_frame 3 0 [7] 0] else [])" for c
      using demo_busy_inv(2) by (simp add: demo_busy_def queues_def)
    have "0 \<le> deficit_of demo_busy 3" by (simp add: deficit_of_def demo_busy_def demo_flow_def FlowFairnessState_new_def)
    then have "d \<noteq> SD_Idle"
      using decision_idle(2) [OF inv, of 1 t 3] t(1) by (auto simp: q queued_bytes_def mk_frame_def)
    then show ?thesis using t q by (cases d) (auto simp: decided_def split: if_splits)
  qed
qed

lemma demo_start:
  "fair_event (fair_start demo_cfg 0) (EAdmit (mk_frame 3 0 [7] 0)) ((fair_start demo_cfg 0)\<lparr>worker := demo_busy\<rparr>)"
  using demo_admit by (intro fair_event.admit) (simp add: fair_start_def)

lemma demo_path:
  "\<exists>x. event_path fair_event (fair_start demo_cfg 0) [EAdmit (mk_frame 3 0 [7] 0), ETake (mk_frame 3 0 [7] 0)] x \<and>
     in_flight x \<noteq> None"
proof -
  obtain k t where k: "next_decision 1 demo_busy = Some (Dispatch k, t)" "dc_frame k = mk_frame 3 0 [7] 0"
    using demo_take by blast
  note demo_start
  moreover have "fair_event ((fair_start demo_cfg 0)\<lparr>worker := demo_busy\<rparr>) (ETake (dc_frame k)) \<lparr>worker = t, in_flight = Some k\<rparr>"
    using k by (intro fair_event.dispatch [where now = 1]) (simp_all add: fair_start_def)
  ultimately have "event_path fair_event (fair_start demo_cfg 0) [EAdmit (mk_frame 3 0 [7] 0), ETake (mk_frame 3 0 [7] 0)]
      \<lparr>worker = t, in_flight = Some k\<rparr>" using k(2) by auto
  then show ?thesis by (intro exI [of _ "\<lparr>worker = t, in_flight = Some k\<rparr>"]) simp
qed

section \<open>What the reader relies on\<close>

text \<open>C9.
  The scheduler keeps every connection's frames in order.  After any sequence of calls on a worker,
  the frames delivered for a connection, then the one in hand, then those still queued form a
  subsequence of the frames admitted for that connection: frames may be shed or lost with a closed
  flow, but none is reordered, duplicated or invented.
\<close>

theorem scheduler_fifo:
  assumes "cfg_ok cfg" "event_path fair_event (fair_start cfg now) es x"
  shows "subseq (delivered_by qf_conn_id c es
      @ (case in_flight x of Some k \<Rightarrow> if qf_conn_id (dc_frame k) = c then [dc_frame k] else [] | None \<Rightarrow> [])
      @ queues (worker x) c) (admitted_by qf_conn_id c es)"
proof -
  have "fq.in_hand x c = (case in_flight x of Some k \<Rightarrow> if qf_conn_id (dc_frame k) = c then [dc_frame k] else [] | None \<Rightarrow> [])"
    by (simp add: fq.in_hand_def split: option.split)
  with path_inv(2) [OF assms, of c] show ?thesis by simp
qed

theorem scheduler_fifo_witness:
  "\<exists>x. event_path fair_event (fair_start demo_cfg 0) [EAdmit (mk_frame 3 0 [7] 0), ETake (mk_frame 3 0 [7] 0)] x \<and>
     in_flight x \<noteq> None \<and>
     subseq ((case in_flight x of Some k \<Rightarrow> if qf_conn_id (dc_frame k) = 3 then [dc_frame k] else [] | None \<Rightarrow> [])
       @ queues (worker x) 3) [mk_frame 3 0 [7] 0]"
  using demo_path scheduler_fifo [OF demo_cfg_ok, of 0 "[EAdmit (mk_frame 3 0 [7] 0), ETake (mk_frame 3 0 [7] 0)]" _ 3]
  by (fastforce simp: mk_frame_def)

text \<open>C10.
  The scheduler's books always balance.  After any sequence of calls the total and each bucket's
  byte counter are the sums of the queued frames, each bucket's flow counter and the two membership
  counters are numbers of flows, the active ring passes its consistency check (it lists exactly the
  flows with queued frames, once each), every deficit is between zero and the flow cap, and queued
  bytes with the frame in hand exceed the worker cap by at most one flow cap.
\<close>

theorem scheduler_invariant:
  assumes "cfg_ok cfg" "event_path fair_event (fair_start cfg now) es x"
  shows "let s = worker x; n = length (bucket_queued_bytes s) in
    total_queued_bytes s = asum (\<lambda>_. qbytes) (flows s) \<and>
    (\<forall>b<n. bucket_queued_bytes s ! b = asum (\<lambda>c e. if c mod n = b then qbytes e else 0) (flows s)) \<and>
    (\<forall>b<n. bucket_active_flows s ! b = asum (\<lambda>c e. if c mod n = b then 1 else 0) (flows s)) \<and>
    standing_flow_count s = asum (\<lambda>_ e. of_bool (standing_state (fairness e) = Standing)) (flows s) \<and>
    backpressured_flow_count s =
      asum (\<lambda>_ e. of_bool (scheduler_state_is_backpressured (scheduler_state (fairness e)))) (flows s) \<and>
    length (flows s) \<le> max_active_flows (config s) \<and>
    debug_check_active_ring_consistency s \<and>
    list_all (\<lambda>(c, e). 0 \<le> deficit_bytes (fairness e) \<and> deficit_bytes (fairness e) \<le> int (max_flow_queued_bytes (config s))) (flows s) \<and>
    total_queued_bytes s + flight_bytes x \<le> max_total_queued_bytes (config s) + max_flow_queued_bytes (config s)"
proof -
  have i: "sys_inv x" by (rule path_inv(1) [OF assms])
  then have inv: "fair_inv {} (worker x)" by (simp add: sys_inv_def)
  then have s: "sums_ok (worker x)" and f: "flows_ok (worker x)" by (simp_all add: fair_inv_def)
  have d: "0 \<le> deficit_bytes (fairness e) \<and> deficit_bytes (fairness e) \<le> int (max_flow_queued_bytes (config (worker x)))"
    if "(c, e) \<in> set (flows (worker x))" for c e
  proof -
    have "map_of (flows (worker x)) c = Some e" using that f by (simp add: flows_ok_def)
    then show ?thesis using fair_inv_flow [OF inv] by (fastforce simp: flow_ok_def max_deficit_def)
  qed
  have m: "mem1 = (\<lambda>e. of_bool (standing_state (fairness e) = Standing))"
      "mem2 = (\<lambda>e. of_bool (scheduler_state_is_backpressured (scheduler_state (fairness e))))"
    by (simp_all add: fun_eq_iff mem1_def mem2_def flow_membership_def)
  show ?thesis
    using s f i d ring_consistent [OF inv] unfolding Let_def sums_ok_def flows_ok_def sys_inv_def buckets_def m
    by (auto simp: list_all_iff)
qed

theorem scheduler_invariant_witness:
  "\<exists>x. event_path fair_event (fair_start demo_cfg 0) [EAdmit (mk_frame 3 0 [7] 0), ETake (mk_frame 3 0 [7] 0)] x \<and>
     debug_check_active_ring_consistency (worker x) \<and>
     total_queued_bytes (worker x) = asum (\<lambda>_. qbytes) (flows (worker x))"
  using demo_path scheduler_invariant [OF demo_cfg_ok, of 0 "[EAdmit (mk_frame 3 0 [7] 0), ETake (mk_frame 3 0 [7] 0)]"]
  unfolding Let_def by blast

text \<open>C27.
  No call on a worker panics: in every state a sequence of calls can reach, admission of any frame,
  the next decision, removal of any flow and feedback on the candidate in hand return.  In
  particular the bucket vectors are never indexed out of range.
\<close>

theorem scheduler_never_panics:
  assumes "cfg_ok cfg" "event_path fair_event (fair_start cfg now0) es x"
  shows "enqueue_data c flags data now (worker x) \<noteq> None \<and> next_decision now (worker x) \<noteq> None \<and>
    remove_flow c (worker x) \<noteq> None \<and>
    (\<forall>k. in_flight x = Some k \<longrightarrow> apply_dispatch_feedback (qf_conn_id (dc_frame k)) k fb now (worker x) \<noteq> None)"
proof (intro conjI allI impI)
  have i: "sys_inv x" by (rule path_inv(1) [OF assms])
  then have inv: "fair_inv {} (worker x)" by (simp add: sys_inv_def)
  show "enqueue_data c flags data now (worker x) \<noteq> None"
    by (rule enqueue_data_spec [OF inv refl, of c flags data now]) simp
  show "next_decision now (worker x) \<noteq> None" by (rule next_decision_spec [OF inv, of now]) simp
  show "remove_flow c (worker x) \<noteq> None" by (rule remove_flow_spec [OF inv, of c]) simp
  show "apply_dispatch_feedback (qf_conn_id (dc_frame k)) k fb now (worker x) \<noteq> None" if "in_flight x = Some k" for k
    by (rule feedback_spec [OF i that refl, of fb now]) simp
qed

theorem scheduler_never_panics_witness:
  "\<exists>x. event_path fair_event (fair_start demo_cfg 0) [EAdmit (mk_frame 3 0 [7] 0), ETake (mk_frame 3 0 [7] 0)] x \<and>
     (\<exists>k. in_flight x = Some k \<and> apply_dispatch_feedback (qf_conn_id (dc_frame k)) k QueueFull 2 (worker x) \<noteq> None)"
  using demo_path scheduler_never_panics [OF demo_cfg_ok, of 0 "[EAdmit (mk_frame 3 0 [7] 0), ETake (mk_frame 3 0 [7] 0)]"]
  by blast

text \<open>C26.
  Admission respects the caps and is all or nothing.  An admitted frame is appended to its flow's
  queue and leaves the worker, the flow and the soft bucket within their byte caps; a rejected frame
  changes no queue and no byte count.
\<close>

theorem admission_within_caps:
  assumes "cfg_ok cfg" "event_path fair_event (fair_start cfg now0) es x"
    "enqueue_data c flags data now (worker x) = Some (d, t)"
  shows "if d = Admit then
      queues t = (queues (worker x))(c := queues (worker x) c @ [mk_frame c flags data now]) \<and>
      total_queued_bytes t = total_queued_bytes (worker x) + length data \<and>
      total_queued_bytes t \<le> max_total_queued_bytes (config (worker x)) \<and>
      frames_bytes (queues t c) \<le> max_flow_queued_bytes (config (worker x)) \<and>
      bucket_queued_bytes t ! (c mod buckets (worker x)) \<le> bucket_cap (config (worker x))
    else queues t = queues (worker x) \<and> total_queued_bytes t = total_queued_bytes (worker x)"
proof -
  have i: "sys_inv x" by (rule path_inv(1) [OF assms(1,2)])
  then have inv: "fair_inv {} (worker x)" by (simp add: sys_inv_def)
  show ?thesis
    by (rule enqueue_data_spec [OF inv refl, of c flags data now])
      (use assms(3) in \<open>auto simp: admitted_within_caps_def frames_bytes_def mk_frame_def\<close>)
qed

theorem admission_within_caps_witness:
  "queues demo_busy 3 = [mk_frame 3 0 [7] 0] \<and> total_queued_bytes demo_busy = 1 \<and> (1 :: nat) \<le> 16"
  using admission_within_caps [OF demo_cfg_ok, of 0 "[]" "fair_start demo_cfg 0" 3 0 "[7]" 0 Admit demo_busy] demo_admit
  by (simp add: fair_start_def) (simp add: WorkerFairnessState_new_def Let_def queues_def)

text \<open>C11.
  A waiting frame is not waited on forever.  If some connection of a worker has a frame queued,
  then at the latest after as many decisions as its front frame has bytes, and one more, a decision
  dispatches a frame.
\<close>

theorem scheduler_progress:
  assumes "cfg_ok cfg" "event_path fair_event (fair_start cfg now) es x" "queues (worker x) c \<noteq> []"
    "queued_bytes (hd (queues (worker x) c)) < length ts"
  shows "\<exists>k t. next_dispatch ts (worker x) = Some (Dispatch k, t)"
proof -
  have inv: "fair_inv {} (worker x)" using path_inv(1) [OF assms(1,2)] by (simp add: sys_inv_def)
  have "0 \<le> deficit_of (worker x) c"
    using fair_inv_flow [OF inv] by (auto simp: deficit_of_def flow_ok_def split: option.splits)
  then show ?thesis using assms(3,4) by (intro dispatch_within [OF inv, of c 0]) simp_all
qed

theorem scheduler_progress_witness:
  "\<exists>k t. next_dispatch [1, 2] (worker ((fair_start demo_cfg 0)\<lparr>worker := demo_busy\<rparr>)) = Some (Dispatch k, t)"
proof (rule scheduler_progress [OF demo_cfg_ok, where c = 3])
  show "event_path fair_event (fair_start demo_cfg 0) [EAdmit (mk_frame 3 0 [7] 0)] ((fair_start demo_cfg 0)\<lparr>worker := demo_busy\<rparr>)"
    using demo_start by simp
qed (simp_all add: demo_busy_inv(2) queued_bytes_def mk_frame_def)

text \<open>C28.
  The pressure state has hysteresis.  From a state with no vote for the target, evaluations that
  all yield the same target leave the state alone until the configured number of them has been
  made, and from then on it is the target.
\<close>

theorem pressure_hysteresis:
  assumes "pc_backpressure_enabled cfg" "transition_hysteresis_rounds cfg \<le> 255"
    "set (snd (evaluations cfg mx ins e)) \<subseteq> {target}" "candidate_state e \<noteq> target" "pe_state e \<noteq> target"
  shows "pe_state (fst (evaluations cfg mx ins e)) =
    (if max (transition_hysteresis_rounds cfg) 1 \<le> length ins then target else pe_state e)"
  using evaluations_steady(2) [OF assms(1-3) assms(5) refl] assms(4) by simp

theorem pressure_hysteresis_witness:
  "let full = \<lparr>sg_active_flows = 2, sg_total_queued_bytes = 16, sg_standing_flows = 0, sg_backpressured_flows = 0\<rparr>;
       e = PressureEvaluator_new 0 in
   pe_state (fst (evaluations PressureConfig_default 16 [(10, full), (20, full)] e)) = Normal \<and>
   pe_state (fst (evaluations PressureConfig_default 16 [(10, full), (20, full), (30, full)] e)) = Saturated"
proof -
  let ?full = "\<lparr>sg_active_flows = 2, sg_total_queued_bytes = 16, sg_standing_flows = 0, sg_backpressured_flows = 0\<rparr>"
  have t: "derive_target_state PressureConfig_default 16 ?full e = Saturated" for e
    by (simp add: derive_target_state_def PressureConfig_default_def Let_def sat_mul_def)
  note h = pressure_hysteresis [of PressureConfig_default 16 _ "PressureEvaluator_new 0" Saturated]
  have "pe_state (fst (evaluations PressureConfig_default 16 [(10, ?full), (20, ?full)] (PressureEvaluator_new 0))) = Normal"
    by (subst h) (simp_all add: t Let_def split_beta, simp_all add: PressureConfig_default_def PressureEvaluator_new_def)
  moreover have "pe_state (fst (evaluations PressureConfig_default 16 [(10, ?full), (20, ?full), (30, ?full)] (PressureEvaluator_new 0))) = Saturated"
    by (subst h) (simp_all add: t Let_def split_beta, simp_all add: PressureConfig_default_def PressureEvaluator_new_def)
  ultimately show ?thesis by (simp add: Let_def)
qed

end
