(* ===== verification/Tls_Stream.thy ===== *)
theory Tls_Stream
  imports Tls_Base Async_Io
begin

text \<open>
  The FakeTLS stream wrappers (\<open>src/stream/tls_stream.rs\<close>, with the buffers of
  \<open>src/stream/state.rs\<close>): a reader that takes application-data records apart and a writer that
  wraps bytes into them, as polled state machines over an arbitrary stream.

  The reader's scratch vector only carries bytes between two statements of \<open>poll_read_body\<close> and
  is not part of the state.
\<close>

section \<open>Buffers (\<open>stream/state.rs\<close>)\<close>

record HeaderBuffer =
  hb_data :: bytes
  hb_filled :: nat

definition HeaderBuffer_new :: "nat \<Rightarrow> HeaderBuffer" where
  "HeaderBuffer_new N = \<lparr>hb_data = replicate N 0, hb_filled = 0\<rparr>"

definition hb_advance :: "nat \<Rightarrow> HeaderBuffer \<Rightarrow> HeaderBuffer" where
  "hb_advance n h = h\<lparr>hb_filled := min (hb_filled h + n) (length (hb_data h))\<rparr>"

definition hb_is_complete :: "HeaderBuffer \<Rightarrow> bool" where
  "hb_is_complete h \<longleftrightarrow> length (hb_data h) \<le> hb_filled h"

definition hb_remaining :: "HeaderBuffer \<Rightarrow> nat" where
  "hb_remaining h = length (hb_data h) - hb_filled h"

definition hb_as_slice :: "HeaderBuffer \<Rightarrow> bytes" where
  "hb_as_slice h = take (hb_filled h) (hb_data h)"

definition hb_as_array :: "HeaderBuffer \<Rightarrow> bytes rs" where
  "hb_as_array h = (if hb_is_complete h then Some (hb_data h) else None)"

text \<open>A read of \<open>d\<close> into \<open>unfilled_mut\<close>.\<close>

definition hb_fill :: "bytes \<Rightarrow> HeaderBuffer \<Rightarrow> HeaderBuffer" where
  "hb_fill d h = h\<lparr>hb_data := take (hb_filled h) (hb_data h) @ d @ drop (hb_filled h + length d) (hb_data h)\<rparr>"

record YieldBuffer =
  yb_data :: bytes
  yb_position :: nat

definition YieldBuffer_new :: "bytes \<Rightarrow> YieldBuffer" where
  "YieldBuffer_new d = \<lparr>yb_data = d, yb_position = 0\<rparr>"

definition yb_is_empty :: "YieldBuffer \<Rightarrow> bool" where
  "yb_is_empty y \<longleftrightarrow> length (yb_data y) \<le> yb_position y"

definition yb_remaining :: "YieldBuffer \<Rightarrow> nat" where
  "yb_remaining y = length (yb_data y) - yb_position y"

definition yb_as_slice :: "YieldBuffer \<Rightarrow> bytes" where
  "yb_as_slice y = drop (yb_position y) (yb_data y)"

text \<open>The bytes copied to a destination of length \<open>n\<close>, and the buffer after it.\<close>

definition yb_copy_to :: "nat \<Rightarrow> YieldBuffer \<Rightarrow> bytes \<times> YieldBuffer" where
  "yb_copy_to n y =
    (let available = drop (yb_position y) (yb_data y);
         to_copy = min (length available) n
     in (take to_copy available, y\<lparr>yb_position := yb_position y + to_copy\<rparr>))"

section \<open>Record header\<close>

definition TLS_HEADER_SIZE :: nat where "TLS_HEADER_SIZE = 5"
definition MAX_TLS_PAYLOAD :: nat where "MAX_TLS_PAYLOAD = MAX_TLS_CIPHERTEXT_SIZE"

record TlsRecordHeader =
  th_record_type :: byte
  th_version :: bytes
  th_length :: nat

definition TlsRecordHeader_parse :: "bytes \<Rightarrow> TlsRecordHeader option" where
  "TlsRecordHeader_parse header =
     Some \<lparr>th_record_type = header ! 0, th_version = [header ! 1, header ! 2],
           th_length = be16 (header ! 3) (header ! 4)\<rparr>"

definition th_validate :: "TlsRecordHeader \<Rightarrow> ErrorKind + unit" where
  "th_validate h =
    (let len = th_length h; t = th_record_type h in
     if th_version h \<noteq> [0x03, 0x01] \<and> th_version h \<noteq> TLS_VERSION then Inl InvalidData
     else if t \<noteq> TLS_RECORD_HANDSHAKE \<and> th_version h \<noteq> TLS_VERSION then Inl InvalidData
     else if t = TLS_RECORD_APPLICATION then
       (if len = 0 \<or> MAX_TLS_CIPHERTEXT_SIZE < len then Inl InvalidData else Inr ())
     else if t = TLS_RECORD_CHANGE_CIPHER then (if len \<noteq> 1 then Inl InvalidData else Inr ())
     else if t = TLS_RECORD_ALERT then (if len \<noteq> 2 then Inl InvalidData else Inr ())
     else if t = TLS_RECORD_HANDSHAKE then
       (if \<not> (4 \<le> len \<and> len \<le> MAX_TLS_PLAINTEXT_SIZE) then Inl InvalidData else Inr ())
     else Inl InvalidData)"

definition th_to_bytes :: "TlsRecordHeader \<Rightarrow> bytes" where
  "th_to_bytes h =
     [th_record_type h, th_version h ! 0, th_version h ! 1, of_nat (th_length h div 256), of_nat (th_length h)]"

section \<open>The reader\<close>

datatype TlsReaderState =
    R_Idle
  | ReadingHeader HeaderBuffer
  | ReadingBody byte nat bytes
  | R_Yielding YieldBuffer
  | R_Poisoned "ErrorKind option"

record 'u FakeTlsReader =
  r_upstream :: 'u
  r_state :: TlsReaderState

definition FakeTlsReader_new :: "'u \<Rightarrow> 'u FakeTlsReader" where
  "FakeTlsReader_new u = \<lparr>r_upstream = u, r_state = R_Idle\<rparr>"

definition into_inner_with_pending_plaintext :: "'u FakeTlsReader \<Rightarrow> 'u \<times> bytes" where
  "into_inner_with_pending_plaintext r =
    (r_upstream r,
     case r_state r of
       R_Yielding y \<Rightarrow> yb_as_slice y
     | ReadingBody t len b \<Rightarrow> if t = TLS_RECORD_APPLICATION then b else []
     | _ \<Rightarrow> [])"

definition reader_is_poisoned :: "'u FakeTlsReader \<Rightarrow> bool" where
  "reader_is_poisoned r \<longleftrightarrow> (case r_state r of R_Poisoned _ \<Rightarrow> True | _ \<Rightarrow> False)"

definition reader_poison :: "ErrorKind \<Rightarrow> 'u FakeTlsReader \<Rightarrow> 'u FakeTlsReader" where
  "reader_poison e r = r\<lparr>r_state := R_Poisoned (Some e)\<rparr>"

definition reader_take_poison_error :: "'u FakeTlsReader \<Rightarrow> ErrorKind \<times> 'u FakeTlsReader" where
  "reader_take_poison_error r =
    (case r_state r of
       R_Poisoned e \<Rightarrow> (case e of Some k \<Rightarrow> k | None \<Rightarrow> Other, r\<lparr>r_state := R_Poisoned None\<rparr>)
     | _ \<Rightarrow> (Other, r))"

datatype HeaderPollResult = H_Pending | H_Eof | H_Complete TlsRecordHeader | H_Error ErrorKind

datatype BodyPollResult = B_Pending | B_Complete bytes | B_Error ErrorKind

text \<open>The outer \<^term>\<open>None\<close> also stands for the assertion of \<open>as_array\<close>.\<close>

function poll_read_header ::
  "'u reader \<Rightarrow> 'u \<Rightarrow> HeaderBuffer \<Rightarrow> (HeaderPollResult \<times> 'u \<times> HeaderBuffer) option" where
  "poll_read_header rd u h =
    (if hb_is_complete h then
       (case hb_as_array h of
          None \<Rightarrow> None
        | Some header_bytes \<Rightarrow>
          Some (case TlsRecordHeader_parse header_bytes of Some p \<Rightarrow> H_Complete p | None \<Rightarrow> H_Error InvalidData, u, h))
     else case rd u (hb_remaining h) of
       None \<Rightarrow> None
     | Some (Pending, v) \<Rightarrow> Some (H_Pending, v, h)
     | Some (Ready_Err e, v) \<Rightarrow> Some (H_Error e, v, h)
     | Some (Ready_Ok d, v) \<Rightarrow>
         if length d = 0 then Some (if hb_as_slice h = [] then H_Eof else H_Error UnexpectedEof, v, h)
         else poll_read_header rd v (hb_advance (length d) (hb_fill d h)))"
  by pat_completeness auto
termination
  by (relation "measure (\<lambda>(rd, u, h). length (hb_data h) - hb_filled h)")
    (auto simp: hb_is_complete_def hb_advance_def hb_fill_def hb_remaining_def neq_Nil_conv)

function poll_read_body ::
  "'u reader \<Rightarrow> 'u \<Rightarrow> bytes \<Rightarrow> nat \<Rightarrow> (BodyPollResult \<times> 'u \<times> bytes) option" where
  "poll_read_body rd u buffer target_len =
    (if length buffer < target_len then
       let chunk_len = min (target_len - length buffer) 8192 in
       case rd u chunk_len of
         None \<Rightarrow> None
       | Some (Pending, v) \<Rightarrow> Some (B_Pending, v, buffer)
       | Some (Ready_Err e, v) \<Rightarrow> Some (B_Error e, v, buffer)
       | Some (Ready_Ok d, v) \<Rightarrow>
           if length d = 0 then Some (B_Error UnexpectedEof, v, buffer)
           else poll_read_body rd v (buffer @ d) target_len
     else Some (B_Complete buffer, u, []))"
  by pat_completeness auto
termination
  by (relation "measure (\<lambda>(rd, u, b, n). n - length b)") (auto simp: neq_Nil_conv)

declare poll_read_header.simps [simp del] poll_read_body.simps [simp del]

text \<open>One turn of the loop of \<open>poll_read\<close>: \<^term>\<open>Inl\<close> returns, \<^term>\<open>Inr\<close> goes round again.\<close>

definition tls_read_step ::
  "'u reader \<Rightarrow> nat \<Rightarrow> 'u FakeTlsReader \<Rightarrow> ((bytes poll \<times> 'u FakeTlsReader) + 'u FakeTlsReader) option" where
  "tls_read_step rd n r =
    (case r_state r of
       R_Poisoned e \<Rightarrow>
         Some (Inl (Ready_Err (case e of Some k \<Rightarrow> k | None \<Rightarrow> Other), r\<lparr>r_state := R_Poisoned None\<rparr>))
     | R_Yielding y \<Rightarrow>
         if n = 0 then Some (Inl (Ready_Ok [], r))
         else let (copied, y') = yb_copy_to (min (yb_remaining y) n) y
              in Some (Inl (Ready_Ok copied, r\<lparr>r_state := if yb_is_empty y' then R_Idle else R_Yielding y'\<rparr>))
     | R_Idle \<Rightarrow>
         if n = 0 then Some (Inl (Ready_Ok [], r))
         else Some (Inr (r\<lparr>r_state := ReadingHeader (HeaderBuffer_new TLS_HEADER_SIZE)\<rparr>))
     | ReadingHeader h \<Rightarrow>
         (case poll_read_header rd (r_upstream r) h of
            None \<Rightarrow> None
          | Some (res, u, h') \<Rightarrow>
            let r = r\<lparr>r_upstream := u\<rparr> in
            (case res of
               H_Pending \<Rightarrow> Some (Inl (Pending, r\<lparr>r_state := ReadingHeader h'\<rparr>))
             | H_Eof \<Rightarrow> Some (Inl (Ready_Ok [], r\<lparr>r_state := R_Idle\<rparr>))
             | H_Error e \<Rightarrow> Some (Inl (Ready_Err e, reader_poison e r))
             | H_Complete parsed \<Rightarrow>
                 (case th_validate parsed of
                    Inl e \<Rightarrow> Some (Inl (Ready_Err e, reader_poison e r))
                  | Inr _ \<Rightarrow> Some (Inr (r\<lparr>r_state := ReadingBody (th_record_type parsed) (th_length parsed) []\<rparr>)))))
     | ReadingBody t len b \<Rightarrow>
         (case poll_read_body rd (r_upstream r) b len of
            None \<Rightarrow> None
          | Some (res, u, b') \<Rightarrow>
            let r = r\<lparr>r_upstream := u\<rparr> in
            (case res of
               B_Pending \<Rightarrow> Some (Inl (Pending, r\<lparr>r_state := ReadingBody t len b'\<rparr>))
             | B_Error e \<Rightarrow> Some (Inl (Ready_Err e, reader_poison e r))
             | B_Complete data \<Rightarrow>
                 if t = TLS_RECORD_CHANGE_CIPHER then Some (Inr (r\<lparr>r_state := R_Idle\<rparr>))
                 else if t = TLS_RECORD_APPLICATION then
                   (if data = [] then Some (Inr (r\<lparr>r_state := R_Idle\<rparr>))
                    else Some (Inr (r\<lparr>r_state := R_Yielding (YieldBuffer_new data)\<rparr>)))
                 else if t = TLS_RECORD_ALERT then Some (Inl (Ready_Ok [], r\<lparr>r_state := R_Idle\<rparr>))
                 else Some (Inl (Ready_Err InvalidData, reader_poison InvalidData r)))))"

partial_function (option) tls_poll_read ::
  "'u reader \<Rightarrow> 'u FakeTlsReader \<Rightarrow> nat \<Rightarrow> (bytes poll \<times> 'u FakeTlsReader) option" where
  "tls_poll_read rd r n = do {
     s \<leftarrow> tls_read_step rd n r;
     case s of Inl x \<Rightarrow> Some x | Inr r' \<Rightarrow> tls_poll_read rd r' n }"

text \<open>The loop of \<open>read_exact\<close>, for a reader with awaited reads.\<close>

partial_function (option) read_exact_loop ::
  "'r reader \<Rightarrow> nat \<Rightarrow> bytes \<Rightarrow> 'r \<Rightarrow> ((ErrorKind + bytes) \<times> 'r) option" where
  "read_exact_loop rd n result r =
    (if length result < n then do {
       (x, r') \<leftarrow> await_read rd r (n - length result);
       case x of
         Inl e \<Rightarrow> Some (Inl e, r')
       | Inr d \<Rightarrow> if d = [] then Some (Inl UnexpectedEof, r') else read_exact_loop rd n (result @ d) r' }
     else Some (Inr result, r))"

definition tls_read_exact ::
  "'u reader \<Rightarrow> nat \<Rightarrow> 'u FakeTlsReader \<Rightarrow> ((ErrorKind + bytes) \<times> 'u FakeTlsReader) option" where
  "tls_read_exact rd n r =
    (if reader_is_poisoned r then (let (e, r') = reader_take_poison_error r in Some (Inl e, r'))
     else read_exact_loop (tls_poll_read rd) n [] r)"

section \<open>The writer\<close>

datatype TlsRecordProfile = Chrome | Firefox | Compat | Legacy

datatype TlsWriterState = W_Idle | WritingRecord nat nat | W_Poisoned "ErrorKind option"

record 'u FakeTlsWriter =
  w_upstream :: 'u
  w_state :: TlsWriterState
  record_buffer :: bytes
  record_profile :: TlsRecordProfile
  record_index :: nat
  jitter_state :: "64 word"

definition FakeTlsWriter_with_profile :: "'u \<Rightarrow> TlsRecordProfile \<Rightarrow> 64 word \<Rightarrow> 'u FakeTlsWriter" where
  "FakeTlsWriter_with_profile u profile seed =
     \<lparr>w_upstream = u, w_state = W_Idle, record_buffer = [], record_profile = profile, record_index = 0,
      jitter_state = (if seed = 0 then 1 else seed)\<rparr>"

definition FakeTlsWriter_new :: "'u \<Rightarrow> 'u FakeTlsWriter" where
  "FakeTlsWriter_new u = FakeTlsWriter_with_profile u Legacy 1"

definition writer_has_pending :: "'u FakeTlsWriter \<Rightarrow> bool" where
  "writer_has_pending w \<longleftrightarrow>
    (case w_state w of WritingRecord position _ \<Rightarrow> position < length (record_buffer w) | _ \<Rightarrow> False)"

definition writer_poison :: "ErrorKind \<Rightarrow> 'u FakeTlsWriter \<Rightarrow> 'u FakeTlsWriter" where
  "writer_poison e w = w\<lparr>record_buffer := [], w_state := W_Poisoned (Some e)\<rparr>"

definition writer_build_record :: "bytes \<Rightarrow> 'u FakeTlsWriter \<Rightarrow> 'u FakeTlsWriter" where
  "writer_build_record data w =
    (let header = \<lparr>th_record_type = TLS_RECORD_APPLICATION, th_version = TLS_VERSION, th_length = length data mod 65536\<rparr>
     in w\<lparr>record_buffer := th_to_bytes header @ data\<rparr>)"

definition next_jitter :: "nat \<Rightarrow> 'u FakeTlsWriter \<Rightarrow> int \<times> 'u FakeTlsWriter" where
  "next_jitter radius w =
    (let j = jitter_state w;
         j = j XOR push_bit 13 j;
         j = j XOR drop_bit 7 j;
         j = j XOR push_bit 17 j;
         span = sat_add U64_MAX (sat_mul U64_MAX radius 2) 1
     in (int (unat j mod span) - int radius, w\<lparr>jitter_state := j\<rparr>))"

definition jittered_limit :: "nat \<Rightarrow> nat \<Rightarrow> 'u FakeTlsWriter \<Rightarrow> nat \<times> 'u FakeTlsWriter" where
  "jittered_limit base jitter w =
    (let (j, w) = next_jitter jitter w
     in (max 512 (min MAX_TLS_PAYLOAD (nat (min (int U64_MAX) (max 0 (int base + j))))), w))"

definition next_record_payload_limit :: "'u FakeTlsWriter \<Rightarrow> nat \<times> 'u FakeTlsWriter" where
  "next_record_payload_limit w =
    (let index = record_index w;
         w = w\<lparr>record_index := sat_add U32_MAX (record_index w) 1\<rparr>
     in case record_profile w of
          Chrome \<Rightarrow> if index < 32 then jittered_limit 1450 120 w
            else if index < 48 then jittered_limit 4096 384 w else jittered_limit 15600 640 w
        | Firefox \<Rightarrow> if index < 16 then jittered_limit 1300 160 w
            else if index < 48 then jittered_limit 8192 512 w else jittered_limit 16000 320 w
        | Compat \<Rightarrow> if index < 24 then jittered_limit 1400 96 w else jittered_limit 8192 256 w
        | Legacy \<Rightarrow> (MAX_TLS_PAYLOAD, w))"

text \<open>Both branches of \<open>recycle_record_buffer\<close> leave an empty buffer; they differ in its capacity.\<close>

definition recycle_record_buffer :: "'u FakeTlsWriter \<Rightarrow> 'u FakeTlsWriter" where
  "recycle_record_buffer w = w\<lparr>record_buffer := []\<rparr>"

datatype FlushResult = F_Complete | F_Pending | F_Error ErrorKind

function poll_flush_record_inner ::
  "'u writer_ops \<Rightarrow> 'u \<Rightarrow> bytes \<Rightarrow> nat \<Rightarrow> FlushResult \<times> 'u \<times> nat" where
  "poll_flush_record_inner ops u rec position =
    (if position < length rec then
       case op_write ops u (drop position rec) of
         (Pending, v) \<Rightarrow> (F_Pending, v, position)
       | (Ready_Err e, v) \<Rightarrow> (F_Error e, v, position)
       | (Ready_Ok n, v) \<Rightarrow>
           if n = 0 then (F_Error WriteZero, v, position)
           else poll_flush_record_inner ops v rec (position + n)
     else (F_Complete, u, position))"
  by pat_completeness auto
termination
  by (relation "measure (\<lambda>(ops, u, rec, p). length rec - p)") auto

declare poll_flush_record_inner.simps [simp del]

text \<open>The first half of \<open>poll_write\<close> and of \<open>poll_flush\<close>: finish the record under way.\<close>

definition tls_finish_record ::
  "'u writer_ops \<Rightarrow> 'u FakeTlsWriter \<Rightarrow> unit poll \<times> 'u FakeTlsWriter" where
  "tls_finish_record ops w =
    (case w_state w of
       W_Poisoned e \<Rightarrow> (Ready_Err (case e of Some k \<Rightarrow> k | None \<Rightarrow> Other), w\<lparr>w_state := W_Poisoned None\<rparr>)
     | WritingRecord position payload_size \<Rightarrow>
         let (res, u, position) = poll_flush_record_inner ops (w_upstream w) (record_buffer w) position;
             w = w\<lparr>w_upstream := u\<rparr>
         in (case res of
               F_Pending \<Rightarrow> (Pending, w\<lparr>w_state := WritingRecord position payload_size\<rparr>)
             | F_Error e \<Rightarrow> (Ready_Err e, writer_poison e w)
             | F_Complete \<Rightarrow> (Ready_Ok (), (recycle_record_buffer w)\<lparr>w_state := W_Idle\<rparr>))
     | W_Idle \<Rightarrow> (Ready_Ok (), w))"

definition tls_poll_write ::
  "'u writer_ops \<Rightarrow> 'u FakeTlsWriter \<Rightarrow> bytes \<Rightarrow> nat poll \<times> 'u FakeTlsWriter" where
  "tls_poll_write ops w buf =
    (case tls_finish_record ops w of
       (Pending, w) \<Rightarrow> (Pending, w)
     | (Ready_Err e, w) \<Rightarrow> (Ready_Err e, w)
     | (Ready_Ok _, w) \<Rightarrow>
         if buf = [] then (Ready_Ok 0, w)
         else
           let (limit, w) = next_record_payload_limit w;
               chunk_size = min (length buf) limit;
               w = writer_build_record (take chunk_size buf) w;
               (p, u) = op_write ops (w_upstream w) (record_buffer w);
               w = w\<lparr>w_upstream := u\<rparr>
           in (case p of
                 Ready_Ok n \<Rightarrow>
                   if n = length (record_buffer w) then (Ready_Ok chunk_size, recycle_record_buffer w)
                   else (Ready_Ok chunk_size, w\<lparr>w_state := WritingRecord n chunk_size\<rparr>)
               | Ready_Err e \<Rightarrow> (Ready_Err e, writer_poison e w)
               | Pending \<Rightarrow> (Ready_Ok chunk_size, w\<lparr>w_state := WritingRecord 0 chunk_size\<rparr>)))"

definition tls_poll_flush :: "'u writer_ops \<Rightarrow> 'u FakeTlsWriter \<Rightarrow> unit poll \<times> 'u FakeTlsWriter" where
  "tls_poll_flush ops w =
    (case tls_finish_record ops w of
       (Ready_Ok _, w) \<Rightarrow> (let (p, u) = op_flush ops (w_upstream w) in (p, w\<lparr>w_upstream := u\<rparr>))
     | (Pending, w) \<Rightarrow> (Pending, w)
     | (Ready_Err e, w) \<Rightarrow> (Ready_Err e, w))"

definition tls_poll_shutdown :: "'u writer_ops \<Rightarrow> 'u FakeTlsWriter \<Rightarrow> unit poll \<times> 'u FakeTlsWriter" where
  "tls_poll_shutdown ops w =
    (let w = (case w_state w of
           WritingRecord position _ \<Rightarrow>
             let (_, u, _) = poll_flush_record_inner ops (w_upstream w) (record_buffer w) position
             in (recycle_record_buffer (w\<lparr>w_upstream := u\<rparr>))\<lparr>w_state := W_Idle\<rparr>
         | _ \<Rightarrow> w\<lparr>w_state := W_Idle\<rparr>);
         (p, u) = op_shutdown ops (w_upstream w)
     in (p, w\<lparr>w_upstream := u\<rparr>))"

definition tls_writer_ops :: "'u writer_ops \<Rightarrow> 'u FakeTlsWriter writer_ops" where
  "tls_writer_ops ops =
     \<lparr>op_write = tls_poll_write ops, op_flush = tls_poll_flush ops, op_shutdown = tls_poll_shutdown ops\<rparr>"

text \<open>\<open>write_all_tls\<close>: \<open>written\<close> of the data's bytes have been handed over.\<close>

partial_function (option) write_all_tls ::
  "'u writer_ops \<Rightarrow> bytes \<Rightarrow> nat \<Rightarrow> 'u FakeTlsWriter \<Rightarrow> ((ErrorKind + unit) \<times> 'u FakeTlsWriter) option" where
  "write_all_tls ops data written w =
    (if written < length data then do {
       let chunk_size = min (length data - written) MAX_TLS_PAYLOAD;
       (r, w') \<leftarrow> await_write_all (tls_writer_ops ops) w (take chunk_size (drop written data));
       case r of Inl e \<Rightarrow> Some (Inl e, w') | Inr _ \<Rightarrow> write_all_tls ops data (written + chunk_size) w' }
     else await_flush (tls_writer_ops ops) w)"

end
