(* ===== verification/Tls_Stream_Read.thy ===== *)
theory Tls_Stream_Read
  imports Tls_Stream
begin

text \<open>
  What the FakeTLS reader delivers.  \<open>unwrap\<close> says it for a whole byte stream: the payloads of the
  application-data records up to the end of the stream, an alert or the first malformed record, and
  how it ends.  The reader implements it for every way the stream may arrive, so it is a reader in
  the sense of \<open>async_read\<close> again.
\<close>

section \<open>Reference\<close>

text \<open>How a stream ends that breaks off inside a record.\<close>

definition cut_end :: "ErrorKind option \<Rightarrow> ErrorKind option" where
  "cut_end f = Some (case f of None \<Rightarrow> UnexpectedEof | Some e \<Rightarrow> e)"

function unwrap :: "bytes \<Rightarrow> ErrorKind option \<Rightarrow> bytes \<times> ErrorKind option" where
  "unwrap s f =
    (if s = [] then ([], f)
     else if length s < 5 then ([], cut_end f)
     else
       let t = s ! 0; len = be16 (s ! 3) (s ! 4); rest = drop (5 + len) s in
       case th_validate \<lparr>th_record_type = t, th_version = [s ! 1, s ! 2], th_length = len\<rparr> of
         Inl e \<Rightarrow> ([], Some e)
       | Inr _ \<Rightarrow>
         if length s < 5 + len then ([], cut_end f)
         else if t = TLS_RECORD_CHANGE_CIPHER then unwrap rest f
         else if t = TLS_RECORD_APPLICATION then
           (take len (drop 5 s) @ fst (unwrap rest f), snd (unwrap rest f))
         else if t = TLS_RECORD_ALERT then ([], None)
         else ([], Some InvalidData))"
  by pat_completeness auto
termination
  by (relation "measure (\<lambda>(s, f). length s)") auto

declare unwrap.simps [simp del]

text \<open>The same from the middle of a record's body.\<close>

definition unwrap_body :: "byte \<Rightarrow> nat \<Rightarrow> bytes \<Rightarrow> ErrorKind option \<Rightarrow> bytes \<times> ErrorKind option" where
  "unwrap_body t len s f =
    (if length s < len then ([], cut_end f)
     else if t = TLS_RECORD_CHANGE_CIPHER then unwrap (drop len s) f
     else if t = TLS_RECORD_APPLICATION then
       (take len s @ fst (unwrap (drop len s) f), snd (unwrap (drop len s) f))
     else if t = TLS_RECORD_ALERT then ([], None)
     else ([], Some InvalidData))"

lemma unwrap_body_full:
  "length d = len \<Longrightarrow> unwrap_body t len (d @ s) f =
    (if t = TLS_RECORD_CHANGE_CIPHER then unwrap s f
     else if t = TLS_RECORD_APPLICATION then (d @ fst (unwrap s f), snd (unwrap s f))
     else if t = TLS_RECORD_ALERT then ([], None)
     else ([], Some InvalidData))"
  by (simp add: unwrap_body_def)

lemma unwrap_body_short: "length s < len \<Longrightarrow> unwrap_body t len s f = ([], cut_end f)"
  by (simp add: unwrap_body_def)

lemma unwrap_Nil [simp]: "unwrap [] f = ([], f)"
  by (subst unwrap.simps) simp

lemma unwrap_short: "s \<noteq> [] \<Longrightarrow> length s < 5 \<Longrightarrow> unwrap s f = ([], cut_end f)"
  by (subst unwrap.simps) simp

lemma unwrap_header:
  assumes "5 \<le> length s" "TlsRecordHeader_parse (take 5 s) = Some h"
  shows "unwrap s f = (case th_validate h of Inl e \<Rightarrow> ([], Some e)
    | Inr _ \<Rightarrow> unwrap_body (th_record_type h) (th_length h) (drop 5 s) f)"
proof -
  have h: "h = \<lparr>th_record_type = s ! 0, th_version = [s ! 1, s ! 2], th_length = be16 (s ! 3) (s ! 4)\<rparr>"
    using assms by (simp add: TlsRecordHeader_parse_def)
  have "s \<noteq> []" "\<not> length s < 5" using assms(1) by auto
  moreover have "(length (drop 5 s) < n) = (length s < 5 + n)" for n using assms(1) by auto
  ultimately show ?thesis
    by (subst unwrap.simps) (simp add: h unwrap_body_def Let_def add.commute split: sum.split)
qed

section \<open>Abstraction and invariant\<close>

definition tls_view :: "('u \<Rightarrow> bytes) \<Rightarrow> ('u \<Rightarrow> ErrorKind option) \<Rightarrow> 'u FakeTlsReader \<Rightarrow> bytes \<times> ErrorKind option" where
  "tls_view rest fin r =
    (let s = rest (r_upstream r); f = fin (r_upstream r) in
     case r_state r of
       R_Idle \<Rightarrow> unwrap s f
     | ReadingHeader h \<Rightarrow> unwrap (hb_as_slice h @ s) f
     | ReadingBody t len b \<Rightarrow> unwrap_body t len (b @ s) f
     | R_Yielding y \<Rightarrow> (yb_as_slice y @ fst (unwrap s f), snd (unwrap s f))
     | R_Poisoned e \<Rightarrow> ([], Some (case e of Some k \<Rightarrow> k | None \<Rightarrow> Other)))"

definition hb_ok :: "HeaderBuffer \<Rightarrow> bool" where
  "hb_ok h \<longleftrightarrow> length (hb_data h) = 5 \<and> hb_filled h \<le> 5"

definition tls_ok :: "('u \<Rightarrow> bool) \<Rightarrow> 'u FakeTlsReader \<Rightarrow> bool" where
  "tls_ok ok r \<longleftrightarrow>
    (case r_state r of
       R_Idle \<Rightarrow> ok (r_upstream r)
     | ReadingHeader h \<Rightarrow> ok (r_upstream r) \<and> hb_ok h \<and> hb_filled h < 5
     | ReadingBody t len b \<Rightarrow> ok (r_upstream r) \<and> length b < len
     | R_Yielding y \<Rightarrow> ok (r_upstream r) \<and> yb_position y < length (yb_data y)
     | R_Poisoned e \<Rightarrow> True)"

definition tls_rest :: "('u \<Rightarrow> bytes) \<Rightarrow> ('u \<Rightarrow> ErrorKind option) \<Rightarrow> 'u FakeTlsReader \<Rightarrow> bytes" where
  "tls_rest rest fin r = fst (tls_view rest fin r)"

definition tls_fin :: "('u \<Rightarrow> bytes) \<Rightarrow> ('u \<Rightarrow> ErrorKind option) \<Rightarrow> 'u FakeTlsReader \<Rightarrow> ErrorKind option" where
  "tls_fin rest fin r = snd (tls_view rest fin r)"

lemma hb_fill_slice:
  assumes "hb_ok h" "length d \<le> hb_remaining h"
  shows "hb_ok (hb_advance (length d) (hb_fill d h))"
    "hb_as_slice (hb_advance (length d) (hb_fill d h)) = hb_as_slice h @ d"
    "hb_filled (hb_advance (length d) (hb_fill d h)) = hb_filled h + length d"
  using assms by (auto simp: hb_ok_def hb_advance_def hb_fill_def hb_as_slice_def hb_remaining_def)

lemma take_drop_step: "take n (drop p d) @ drop (p + n) d = drop p d"
  using append_take_drop_id [of n "drop p d"] by (simp add: add.commute)

lemma validate_length: "th_validate h = Inr () \<Longrightarrow> 0 < th_length h"
  by (auto simp: th_validate_def Let_def split: if_splits)

section \<open>The two inner loops\<close>

context async_read
begin

definition header_result :: "'u \<Rightarrow> HeaderBuffer \<Rightarrow> HeaderPollResult \<Rightarrow> 'u \<Rightarrow> HeaderBuffer \<Rightarrow> bool" where
  "header_result u h res v h' \<longleftrightarrow>
    (let s = hb_as_slice h @ rest u in
     case res of
       H_Pending \<Rightarrow> ok v \<and> hb_ok h' \<and> hb_filled h' < 5 \<and> hb_as_slice h' @ rest v = s \<and> fin v = fin u \<and> budget v < budget u
     | H_Eof \<Rightarrow> s = [] \<and> fin u = None
     | H_Error e \<Rightarrow> unwrap s (fin u) = ([], Some e)
     | H_Complete p \<Rightarrow> ok v \<and> fin v = fin u \<and> budget v \<le> budget u \<and> 5 \<le> length s \<and>
         TlsRecordHeader_parse (take 5 s) = Some p \<and> rest v = drop 5 s)"

lemma header_spec:
  assumes "ok u" "hb_ok h"
  shows "\<exists>res v h'. poll_read_header rd u h = Some (res, v, h') \<and> header_result u h res v h'"
  using assms
proof (induction "5 - hb_filled h" arbitrary: u h rule: less_induct)
  case less
  let ?s = "hb_as_slice h @ rest u"
  show ?case
  proof (cases "hb_filled h < 5")
    case False
    then have "hb_filled h = 5" "length (hb_data h) = 5" using less.prems by (auto simp: hb_ok_def)
    then show ?thesis using less.prems
      by (subst poll_read_header.simps)
        (simp add: hb_is_complete_def hb_as_array_def header_result_def hb_as_slice_def TlsRecordHeader_parse_def
          Let_def nth_append)
  next
    case True
    have c: "\<not> hb_is_complete h" and n: "0 < hb_remaining h" "length (hb_as_slice h) < 5" "length (hb_as_slice h) + hb_remaining h = 5"
      using True less.prems by (auto simp: hb_is_complete_def hb_remaining_def hb_ok_def hb_as_slice_def)
    obtain p v where p: "rd u (hb_remaining h) = Some (p, v)" using returns [OF less.prems(1) n(1)] by blast
    have st: "poll_read_header rd u h = (case p of
        Pending \<Rightarrow> Some (H_Pending, v, h)
      | Ready_Err e \<Rightarrow> Some (H_Error e, v, h)
      | Ready_Ok d \<Rightarrow> if length d = 0 then Some (if hb_as_slice h = [] then H_Eof else H_Error UnexpectedEof, v, h)
          else poll_read_header rd v (hb_advance (length d) (hb_fill d h)))"
      by (subst poll_read_header.simps) (simp add: c p)
    show ?thesis
    proof (cases p)
      case Pending
      then show ?thesis using st pending [OF less.prems(1) n(1)] p True less.prems(2) by (simp add: header_result_def)
    next
      case (Ready_Err e)
      then have "rest u = []" "fin u = Some e" using failed [OF less.prems(1) n(1)] p by auto
      then have "unwrap ?s (fin u) = ([], Some e)"
        using n(2) by (cases "hb_as_slice h = []") (simp_all add: unwrap_short cut_end_def)
      then show ?thesis using st Ready_Err by (simp add: header_result_def)
    next
      case (Ready_Ok d)
      show ?thesis
      proof (cases "d = []")
        case True
        then have "rest u = []" "fin u = None" using eof [OF less.prems(1) n(1)] p Ready_Ok by auto
        then show ?thesis using st Ready_Ok True n(2)
          by (simp add: header_result_def unwrap_short cut_end_def)
      next
        case False
        note l = data [OF less.prems(1) n(1) p [unfolded Ready_Ok] False]
        define h2 where "h2 = hb_advance (length d) (hb_fill d h)"
        have h2: "hb_ok h2" "hb_as_slice h2 = hb_as_slice h @ d" "hb_filled h2 = hb_filled h + length d"
          unfolding h2_def using l by (intro hb_fill_slice [OF less.prems(2)]; simp)+
        have "5 - hb_filled h2 < 5 - hb_filled h" using h2(3) False True by (cases d) auto
        then obtain res w h' where r: "poll_read_header rd v h2 = Some (res, w, h')" "header_result v h2 res w h'"
          using less.hyps [of h2 v] l h2(1) by blast
        have "hb_as_slice h2 @ rest v = hb_as_slice h @ rest u" using l h2(2) by simp
        then have "header_result u h res w h'"
          using r(2) l unfolding header_result_def Let_def by (cases res) simp_all
        then show ?thesis using st Ready_Ok False r(1) by (simp add: h2_def)
      qed
    qed
  qed
qed

definition body_result :: "'u \<Rightarrow> bytes \<Rightarrow> nat \<Rightarrow> BodyPollResult \<Rightarrow> 'u \<Rightarrow> bytes \<Rightarrow> bool" where
  "body_result u b len res v b' \<longleftrightarrow>
    (let s = b @ rest u in
     case res of
       B_Pending \<Rightarrow> ok v \<and> length b' < len \<and> b' @ rest v = s \<and> fin v = fin u \<and> budget v < budget u
     | B_Error e \<Rightarrow> length s < len \<and> cut_end (fin u) = Some e
     | B_Complete d \<Rightarrow> ok v \<and> fin v = fin u \<and> budget v \<le> budget u \<and> s = d @ rest v \<and> length d = len)"

lemma body_spec:
  assumes "ok u" "length b \<le> len"
  shows "\<exists>res v b'. poll_read_body rd u b len = Some (res, v, b') \<and> body_result u b len res v b'"
  using assms
proof (induction "len - length b" arbitrary: u b rule: less_induct)
  case less
  show ?case
  proof (cases "length b < len")
    case False
    then show ?thesis using less.prems by (subst poll_read_body.simps) (simp add: body_result_def)
  next
    case True
    let ?n = "min (len - length b) 8192"
    have n: "0 < ?n" using True by simp
    obtain p v where p: "rd u ?n = Some (p, v)" using returns [OF less.prems(1) n] by blast
    have st: "poll_read_body rd u b len = (case p of
        Pending \<Rightarrow> Some (B_Pending, v, b)
      | Ready_Err e \<Rightarrow> Some (B_Error e, v, b)
      | Ready_Ok d \<Rightarrow> if length d = 0 then Some (B_Error UnexpectedEof, v, b) else poll_read_body rd v (b @ d) len)"
      by (subst poll_read_body.simps) (simp add: True p Let_def)
    show ?thesis
    proof (cases p)
      case Pending
      then show ?thesis using st pending [OF less.prems(1) n] p True by (simp add: body_result_def)
    next
      case (Ready_Err e)
      then show ?thesis using st failed [OF less.prems(1) n] p True by (simp add: body_result_def cut_end_def)
    next
      case (Ready_Ok d)
      show ?thesis
      proof (cases "d = []")
        case True
        then show ?thesis using st eof [OF less.prems(1) n] p Ready_Ok \<open>length b < len\<close>
          by (simp add: body_result_def cut_end_def)
      next
        case False
        note l = data [OF less.prems(1) n p [unfolded Ready_Ok] False]
        have "len - length (b @ d) < len - length b" "length (b @ d) \<le> len" using True False l by (cases d; auto)+
        then obtain res w b' where r: "poll_read_body rd v (b @ d) len = Some (res, w, b')" "body_result v (b @ d) len res w b'"
          using less.hyps [of "b @ d" v] l by blast
        have "(b @ d) @ rest v = b @ rest u" using l by simp
        then have "body_result u b len res w b'"
          using r(2) l unfolding body_result_def Let_def by (cases res) simp_all
        then show ?thesis using st Ready_Ok False r(1) by simp
      qed
    qed
  qed
qed

section \<open>One turn, one poll\<close>

definition tls_rank :: "TlsReaderState \<Rightarrow> nat" where
  "tls_rank st = (case st of R_Idle \<Rightarrow> 3 | ReadingHeader _ \<Rightarrow> 2 | ReadingBody _ _ _ \<Rightarrow> 1 | _ \<Rightarrow> 0)"

definition poll_result :: "nat \<Rightarrow> 'u FakeTlsReader \<Rightarrow> bytes poll \<times> 'u FakeTlsReader \<Rightarrow> bool" where
  "poll_result n r x \<longleftrightarrow>
    (case x of
       (Ready_Ok d, r') \<Rightarrow>
         if d = [] then tls_view rest fin r = ([], None)
         else tls_ok ok r' \<and> length d \<le> n \<and> tls_rest rest fin r = d @ tls_rest rest fin r' \<and>
           tls_fin rest fin r' = tls_fin rest fin r \<and> budget (r_upstream r') \<le> budget (r_upstream r)
     | (Pending, r') \<Rightarrow> tls_ok ok r' \<and> tls_view rest fin r' = tls_view rest fin r \<and>
         budget (r_upstream r') < budget (r_upstream r)
     | (Ready_Err e, r') \<Rightarrow> tls_view rest fin r = ([], Some e))"

lemma step_spec:
  assumes "tls_ok ok r" "0 < n"
  shows "\<exists>x. tls_read_step rd n r = Some x \<and>
    (case x of
       Inl y \<Rightarrow> poll_result n r y
     | Inr r' \<Rightarrow> tls_ok ok r' \<and> tls_view rest fin r' = tls_view rest fin r \<and>
         budget (r_upstream r') \<le> budget (r_upstream r) \<and>
         (length (rest (r_upstream r')) < length (rest (r_upstream r)) \<or>
          length (rest (r_upstream r')) \<le> length (rest (r_upstream r)) \<and> tls_rank (r_state r') < tls_rank (r_state r)))"
proof (cases "r_state r")
  case R_Idle
  then show ?thesis using assms
    by (auto simp: tls_read_step_def tls_ok_def tls_view_def tls_rank_def HeaderBuffer_new_def hb_ok_def hb_as_slice_def
        TLS_HEADER_SIZE_def)
next
  case (ReadingHeader h)
  have h: "ok (r_upstream r)" "hb_ok h" "hb_filled h < 5" using assms(1) ReadingHeader by (simp_all add: tls_ok_def)
  obtain res v h' where p: "poll_read_header rd (r_upstream r) h = Some (res, v, h')" "header_result (r_upstream r) h res v h'"
    using header_spec [OF h(1,2)] by blast
  have hl: "length (hb_as_slice h) < 5" using h by (simp add: hb_as_slice_def)
  show ?thesis
  proof (cases res)
    case (H_Complete q)
    have q: "unwrap (hb_as_slice h @ rest (r_upstream r)) (fin (r_upstream r)) =
        (case th_validate q of Inl e \<Rightarrow> ([], Some e) | Inr _ \<Rightarrow> unwrap_body (th_record_type q) (th_length q) (rest v) (fin v))"
      using p(2) unwrap_header [of "hb_as_slice h @ rest (r_upstream r)" q "fin (r_upstream r)"]
      unfolding header_result_def Let_def H_Complete by (auto simp del: drop_append take_append split: sum.split)
    show ?thesis
      using ReadingHeader p H_Complete q hl validate_length [of q]
      by (cases "th_validate q")
        (auto simp: tls_read_step_def header_result_def Let_def tls_view_def tls_ok_def tls_rank_def poll_result_def reader_poison_def)
  qed (use ReadingHeader p in \<open>simp_all add: tls_read_step_def header_result_def Let_def tls_view_def tls_ok_def
      poll_result_def reader_poison_def tls_rank_def\<close>)
next
  case (ReadingBody t len b)
  have b: "ok (r_upstream r)" "length b < len" using assms(1) ReadingBody by (simp_all add: tls_ok_def)
  obtain res v b' where p: "poll_read_body rd (r_upstream r) b len = Some (res, v, b')" "body_result (r_upstream r) b len res v b'"
    using body_spec [OF b(1) less_imp_le [OF b(2)]] by blast
  show ?thesis
  proof (cases res)
    case (B_Complete d)
    have "length (rest v) < length (rest (r_upstream r))"
    proof -
      have "length (b @ rest (r_upstream r)) = len + length (rest v)"
        using p(2) B_Complete by (simp add: body_result_def Let_def)
      then show ?thesis using b(2) by simp
    qed
    moreover have "unwrap_body t len (b @ rest (r_upstream r)) f =
        (if t = TLS_RECORD_CHANGE_CIPHER then unwrap (rest v) f
         else if t = TLS_RECORD_APPLICATION then (d @ fst (unwrap (rest v) f), snd (unwrap (rest v) f))
         else if t = TLS_RECORD_ALERT then ([], None) else ([], Some InvalidData))" for f
      using p(2) B_Complete unwrap_body_full [of d len t "rest v" f] by (simp add: body_result_def Let_def)
    ultimately show ?thesis using ReadingBody p B_Complete b(2)
      by (auto simp: tls_read_step_def body_result_def Let_def tls_view_def tls_ok_def tls_rank_def poll_result_def
          reader_poison_def YieldBuffer_new_def yb_as_slice_def)
  qed (use ReadingBody p in \<open>simp_all add: tls_read_step_def body_result_def Let_def tls_view_def tls_ok_def
      poll_result_def reader_poison_def tls_rank_def unwrap_body_short\<close>)
next
  case (R_Yielding y)
  then show ?thesis using assms
    by (auto simp: tls_read_step_def tls_ok_def tls_view_def tls_rest_def tls_fin_def poll_result_def Let_def
        yb_copy_to_def yb_remaining_def yb_is_empty_def yb_as_slice_def take_drop_step)
next
  case (R_Poisoned e)
  then show ?thesis by (simp add: tls_read_step_def poll_result_def tls_view_def)
qed

lemma poll_spec:
  assumes "tls_ok ok r" "0 < n"
  shows "\<exists>x. tls_poll_read rd r n = Some x \<and> poll_result n r x"
  using assms(1)
proof (induction "4 * length (rest (r_upstream r)) + tls_rank (r_state r)" arbitrary: r rule: less_induct)
  case less
  obtain x where x: "tls_read_step rd n r = Some x"
      "case x of Inl y \<Rightarrow> poll_result n r y
       | Inr r' \<Rightarrow> tls_ok ok r' \<and> tls_view rest fin r' = tls_view rest fin r \<and>
         budget (r_upstream r') \<le> budget (r_upstream r) \<and>
         (length (rest (r_upstream r')) < length (rest (r_upstream r)) \<or>
          length (rest (r_upstream r')) \<le> length (rest (r_upstream r)) \<and> tls_rank (r_state r') < tls_rank (r_state r))"
    using step_spec [OF less.prems assms(2)] by blast
  show ?case
  proof (cases x)
    case (Inl y)
    then show ?thesis using x by (subst tls_poll_read.simps) simp
  next
    case (Inr r')
    have "tls_poll_read rd r n = tls_poll_read rd r' n" using x(1) Inr by (subst tls_poll_read.simps) simp
    moreover have "tls_rank (r_state r') < 4" by (simp add: tls_rank_def split: TlsReaderState.split)
    then obtain y where "tls_poll_read rd r' n = Some y" "poll_result n r' y"
      using less.hyps [of r'] x(2) Inr by force
    ultimately show ?thesis
      using x(2) Inr by (auto simp: poll_result_def tls_rest_def tls_fin_def split: poll.splits prod.splits)
  qed
qed

lemma tls_async_read:
  "async_read (tls_poll_read rd) (tls_ok ok) (tls_rest rest fin) (tls_fin rest fin) (\<lambda>r. budget (r_upstream r))"
proof
  fix r v :: "'u FakeTlsReader" and n :: nat and d e
  assume r: "tls_ok ok r" "0 < n"
  note s = poll_spec [OF r]
  show "\<exists>p v. tls_poll_read rd r n = Some (p, v)" using s by auto
  show "tls_poll_read rd r n = Some (Ready_Ok d, v) \<Longrightarrow> d \<noteq> [] \<Longrightarrow>
      tls_ok ok v \<and> length d \<le> n \<and> tls_rest rest fin r = d @ tls_rest rest fin v \<and>
      tls_fin rest fin v = tls_fin rest fin r \<and> budget (r_upstream v) \<le> budget (r_upstream r)"
    using s by (auto simp: poll_result_def)
  show "tls_poll_read rd r n = Some (Ready_Ok [], v) \<Longrightarrow> tls_rest rest fin r = [] \<and> tls_fin rest fin r = None"
    using s by (auto simp: poll_result_def tls_rest_def tls_fin_def)
  show "tls_poll_read rd r n = Some (Pending, v) \<Longrightarrow>
      tls_ok ok v \<and> tls_rest rest fin v = tls_rest rest fin r \<and> tls_fin rest fin v = tls_fin rest fin r \<and>
      budget (r_upstream v) < budget (r_upstream r)"
    using s by (auto simp: poll_result_def tls_rest_def tls_fin_def)
  show "tls_poll_read rd r n = Some (Ready_Err e, v) \<Longrightarrow> tls_rest rest fin r = [] \<and> tls_fin rest fin r = Some e"
    using s by (auto simp: poll_result_def tls_rest_def tls_fin_def)
qed

text \<open>\<open>read_exact\<close> over any reader.\<close>

lemma read_exact_spec:
  assumes "ok u" "length result \<le> n"
  shows "\<exists>x v. read_exact_loop rd n result u = Some (x, v) \<and>
    x = (if n \<le> length result + length (rest u) then Inr (take n (result @ rest u))
         else Inl (case fin u of None \<Rightarrow> UnexpectedEof | Some e \<Rightarrow> e))"
  using assms
proof (induction "n - length result" arbitrary: result u rule: less_induct)
  case less
  show ?case
  proof (cases "length result < n")
    case False
    then show ?thesis using less.prems by (subst read_exact_loop.simps) simp
  next
    case True
    obtain x v where x: "await_read rd u (n - length result) = Some (x, v)"
        "case x of Inl e \<Rightarrow> rest u = [] \<and> fin u = Some e
         | Inr d \<Rightarrow> if d = [] then rest u = [] \<and> fin u = None
           else ok v \<and> length d \<le> n - length result \<and> rest u = d @ rest v \<and> fin v = fin u"
      using await_returns [OF less.prems(1), of "n - length result"] True by auto
    have st: "read_exact_loop rd n result u = (case x of Inl e \<Rightarrow> Some (Inl e, v)
       | Inr d \<Rightarrow> if d = [] then Some (Inl UnexpectedEof, v) else read_exact_loop rd n (result @ d) v)"
      using x(1) True by (subst read_exact_loop.simps) simp
    show ?thesis
    proof (cases x)
      case (Inl e)
      then show ?thesis using st x(2) True by simp
    next
      case (Inr d)
      show ?thesis
      proof (cases "d = []")
        case True
        then show ?thesis using st x(2) Inr \<open>length result < n\<close> by simp
      next
        case False
        then have l: "ok v" "length (result @ d) \<le> n" "rest u = d @ rest v" "fin v = fin u"
          using x(2) Inr True by auto
        have "n - length (result @ d) < n - length result" using True False by (cases d) auto
        from less.hyps [OF this l(1,2)] show ?thesis using st Inr False l(3,4) by (simp add: add.assoc split: if_splits)
      qed
    qed
  qed
qed

end

interpretation tsock: async_read "tls_poll_read sock_read" "tls_ok (\<lambda>_. True)" "tls_rest sock_rest sock_fin"
  "tls_fin sock_rest sock_fin" "\<lambda>r. sock_budget (r_upstream r)"
  by (rule sock.tls_async_read)

end
