(* ===== verification/Tls_Stream_Write.thy ===== *)
theory Tls_Stream_Write
  imports Tls_Stream_Read
begin

text \<open>
  What the FakeTLS writer puts on the wire: whole application-data records, whose payloads in order
  are exactly the bytes accepted from the caller, whatever the stream under it takes per write and
  whatever sizes the record profile asks for.  So it is a writer in the sense of \<open>async_write\<close>.
\<close>

section \<open>Records\<close>

definition record_of :: "bytes \<Rightarrow> bytes" where
  "record_of p = th_to_bytes \<lparr>th_record_type = TLS_RECORD_APPLICATION, th_version = TLS_VERSION,
     th_length = length p mod 65536\<rparr> @ p"

definition payload_ok :: "bytes \<Rightarrow> bool" where
  "payload_ok p \<longleftrightarrow> p \<noteq> [] \<and> length p \<le> MAX_TLS_PAYLOAD"

definition framed :: "bytes \<Rightarrow> bool" where
  "framed w \<longleftrightarrow> (\<exists>ps. w = concat (map record_of ps) \<and> list_all payload_ok ps)"

lemma unwrap_record:
  assumes "payload_ok p"
  shows "unwrap (record_of p @ s) f = (p @ fst (unwrap s f), snd (unwrap s f))"
proof -
  have l: "0 < length p" "length p \<le> 16640" "length p < 65536"
    using assms by (auto simp: payload_ok_def MAX_TLS_PAYLOAD_def MAX_TLS_CIPHERTEXT_SIZE_def)
  let ?h = "\<lparr>th_record_type = TLS_RECORD_APPLICATION, th_version = TLS_VERSION, th_length = length p\<rparr>"
  have "TlsRecordHeader_parse (take 5 (record_of p @ s)) = Some ?h"
    using l by (simp add: TlsRecordHeader_parse_def record_of_def th_to_bytes_def TLS_VERSION_def)
  moreover have "5 \<le> length (record_of p @ s)" by (simp add: record_of_def th_to_bytes_def)
  moreover have "drop 5 (record_of p @ s) = p @ s" by (simp add: record_of_def th_to_bytes_def)
  moreover have "th_validate ?h = Inr ()"
    using l by (simp add: th_validate_def Let_def MAX_TLS_CIPHERTEXT_SIZE_def)
  moreover have "TLS_RECORD_APPLICATION \<noteq> TLS_RECORD_CHANGE_CIPHER"
    by (simp add: TLS_RECORD_APPLICATION_def TLS_RECORD_CHANGE_CIPHER_def)
  ultimately show ?thesis using unwrap_header by (simp add: unwrap_body_full)
qed

lemma unwrap_records:
  "list_all payload_ok ps \<Longrightarrow> unwrap (concat (map record_of ps) @ s) f = (concat ps @ fst (unwrap s f), snd (unwrap s f))"
  by (induction ps) (simp_all add: unwrap_record)

lemma framed_append:
  assumes "framed w" "payload_ok p"
  shows "framed (w @ record_of p)"
    "fst (unwrap (w @ record_of p) None) = fst (unwrap w None) @ p"
proof -
  obtain ps where ps: "w = concat (map record_of ps)" "list_all payload_ok ps" using assms(1) by (auto simp: framed_def)
  have "w @ record_of p = concat (map record_of (ps @ [p]))" "list_all payload_ok (ps @ [p])"
    using ps assms(2) by simp_all
  then show "framed (w @ record_of p)" unfolding framed_def by blast
  show "fst (unwrap (w @ record_of p) None) = fst (unwrap w None) @ p"
    using unwrap_records [OF ps(2), of "record_of p"] unwrap_records [OF ps(2), of "[]"] unwrap_record [OF assms(2), of "[]"] ps(1)
    by simp
qed

lemma framed_clean: "framed w \<Longrightarrow> snd (unwrap w None) = None"
  using unwrap_records [of _ "[]" None] by (auto simp: framed_def)

section \<open>Record sizes\<close>

lemma next_jitter_fields [simp]:
  "w_upstream (snd (next_jitter n w)) = w_upstream w" "w_state (snd (next_jitter n w)) = w_state w"
  "record_buffer (snd (next_jitter n w)) = record_buffer w"
  by (simp_all add: next_jitter_def Let_def)

lemma next_jitter_range:
  assumes "radius < 1000000"
  shows "- int radius \<le> fst (next_jitter radius w) \<and> fst (next_jitter radius w) \<le> int radius"
proof -
  have "sat_add U64_MAX (sat_mul U64_MAX radius 2) 1 = 2 * radius + 1"
    using assms by (simp add: sat_add_def sat_mul_def)
  then obtain x where x: "fst (next_jitter radius w) = int (x mod (2 * radius + 1)) - int radius"
    by (simp only: next_jitter_def Let_def fst_conv)
  have "x mod (2 * radius + 1) < 2 * radius + 1" by simp
  then show ?thesis unfolding x by linarith
qed

lemma jittered_limit_spec:
  assumes "jitter < 1000000" "512 + jitter \<le> base" "base + jitter \<le> MAX_TLS_PAYLOAD"
  shows "base - jitter \<le> fst (jittered_limit base jitter w) \<and> fst (jittered_limit base jitter w) \<le> base + jitter"
proof -
  obtain j v where j: "next_jitter jitter w = (j, v)" by fastforce
  have r: "- int jitter \<le> j" "j \<le> int jitter" using next_jitter_range [OF assms(1), of w] j by simp_all
  have "fst (jittered_limit base jitter w) = nat (int base + j)"
    using r assms by (simp add: jittered_limit_def j MAX_TLS_PAYLOAD_def MAX_TLS_CIPHERTEXT_SIZE_def)
  then show ?thesis using r assms(2) by linarith
qed

lemma jittered_limit_fields [simp]:
  "w_upstream (snd (jittered_limit b n w)) = w_upstream w" "w_state (snd (jittered_limit b n w)) = w_state w"
  "record_buffer (snd (jittered_limit b n w)) = record_buffer w"
  "512 \<le> fst (jittered_limit b n w)" "fst (jittered_limit b n w) \<le> MAX_TLS_PAYLOAD"
proof -
  obtain j v where j: "next_jitter n w = (j, v)" by fastforce
  have "w_upstream v = w_upstream w" "w_state v = w_state w" "record_buffer v = record_buffer w"
    using next_jitter_fields [of n w] j by simp_all
  moreover have "512 \<le> MAX_TLS_PAYLOAD" by (simp add: MAX_TLS_PAYLOAD_def MAX_TLS_CIPHERTEXT_SIZE_def)
  ultimately show "w_upstream (snd (jittered_limit b n w)) = w_upstream w"
    "w_state (snd (jittered_limit b n w)) = w_state w" "record_buffer (snd (jittered_limit b n w)) = record_buffer w"
    "512 \<le> fst (jittered_limit b n w)" "fst (jittered_limit b n w) \<le> MAX_TLS_PAYLOAD"
    by (simp_all add: jittered_limit_def j)
qed

lemma next_limit:
  "512 \<le> fst (next_record_payload_limit w)" "fst (next_record_payload_limit w) \<le> MAX_TLS_PAYLOAD"
  by (simp_all add: next_record_payload_limit_def Let_def split: TlsRecordProfile.split)
    (simp add: MAX_TLS_PAYLOAD_def MAX_TLS_CIPHERTEXT_SIZE_def)

lemma next_limit_fields [simp]:
  "w_upstream (snd (next_record_payload_limit w)) = w_upstream w"
  "w_state (snd (next_record_payload_limit w)) = w_state w"
  "record_buffer (snd (next_record_payload_limit w)) = record_buffer w"
  by (simp_all add: next_record_payload_limit_def Let_def split: TlsRecordProfile.split)

section \<open>Abstraction and invariant\<close>

definition unsent :: "'u FakeTlsWriter \<Rightarrow> bytes" where
  "unsent w = (case w_state w of WritingRecord position _ \<Rightarrow> drop position (record_buffer w) | _ \<Rightarrow> [])"

definition tls_wire :: "('u \<Rightarrow> bytes) \<Rightarrow> 'u FakeTlsWriter \<Rightarrow> bytes" where
  "tls_wire acc w = acc (w_upstream w) @ unsent w"

definition tls_acc :: "('u \<Rightarrow> bytes) \<Rightarrow> 'u FakeTlsWriter \<Rightarrow> bytes" where
  "tls_acc acc w = fst (unwrap (tls_wire acc w) None)"

definition tlsw_ok :: "('u \<Rightarrow> bool) \<Rightarrow> ('u \<Rightarrow> bytes) \<Rightarrow> 'u FakeTlsWriter \<Rightarrow> bool" where
  "tlsw_ok ok acc w \<longleftrightarrow> ok (w_upstream w) \<and> framed (tls_wire acc w) \<and>
    (case w_state w of
       W_Idle \<Rightarrow> True
     | WritingRecord position _ \<Rightarrow> position \<le> length (record_buffer w)
     | W_Poisoned _ \<Rightarrow> False)"

definition tls_settled :: "('u \<Rightarrow> bool) \<Rightarrow> 'u FakeTlsWriter \<Rightarrow> bool" where
  "tls_settled settled w \<longleftrightarrow> settled (w_upstream w) \<and> unsent w = []"

context async_write
begin

lemma flush_inner_spec:
  assumes "ok u" "position \<le> length rec" "poll_flush_record_inner ops u rec position = (res, v, p)"
  shows "res = F_Pending \<Longrightarrow> ok v \<and> p \<le> length rec \<and> acc v @ drop p rec = acc u @ drop position rec"
    "res = F_Complete \<Longrightarrow> ok v \<and> acc v = acc u @ drop position rec"
  using assms
proof (atomize(full), induction "length rec - position" arbitrary: u position rule: less_induct)
  case less
  show ?case
  proof (cases "position < length rec")
    case False
    then have "poll_flush_record_inner ops u rec position = (F_Complete, u, position)"
      by (subst poll_flush_record_inner.simps) simp
    then show ?thesis using less.prems False by simp
  next
    case True
    let ?d = "drop position rec"
    have d: "?d \<noteq> []" using True by simp
    obtain q u' where w: "op_write ops u ?d = (q, u')" by fastforce
    have st: "poll_flush_record_inner ops u rec position = (case q of
        Pending \<Rightarrow> (F_Pending, u', position)
      | Ready_Err e \<Rightarrow> (F_Error e, u', position)
      | Ready_Ok n \<Rightarrow> if n = 0 then (F_Error WriteZero, u', position)
          else poll_flush_record_inner ops u' rec (position + n))"
      using True w by (subst poll_flush_record_inner.simps) simp
    show ?thesis
    proof (cases q)
      case Pending
      then show ?thesis using st less.prems write_pending [OF _ d] w True by auto
    next
      case (Ready_Err e)
      then show ?thesis using st less.prems by auto
    next
      case (Ready_Ok n)
      show ?thesis
      proof (cases "n = 0")
        case True
        then show ?thesis using st less.prems Ready_Ok by auto
      next
        case False
        have l: "ok u'" "n \<le> length ?d" "acc u' = acc u @ take n ?d"
          using write_ok [OF _ d w [unfolded Ready_Ok]] less.prems by auto
        have "acc u' @ drop (position + n) rec = acc u @ ?d" using l(3) take_drop_step [of n position rec] by simp
        then show ?thesis
          using less.hyps [of "position + n" u'] l st Ready_Ok False less.prems True by fastforce
      qed
    qed
  qed
qed

lemma finish_spec:
  assumes "tlsw_ok ok acc w" "tls_finish_record ops w = (p, v)"
  shows "p = Pending \<Longrightarrow> tlsw_ok ok acc v \<and> tls_wire acc v = tls_wire acc w"
    "p = Ready_Ok x \<Longrightarrow> tlsw_ok ok acc v \<and> w_state v = W_Idle \<and> tls_wire acc v = tls_wire acc w"
proof -
  have "(p = Pending \<longrightarrow> tlsw_ok ok acc v \<and> tls_wire acc v = tls_wire acc w) \<and>
      (p = Ready_Ok x \<longrightarrow> tlsw_ok ok acc v \<and> w_state v = W_Idle \<and> tls_wire acc v = tls_wire acc w)"
  proof (cases "w_state w")
    case W_Idle
    then show ?thesis using assms by (auto simp: tls_finish_record_def)
  next
    case (WritingRecord pos n)
    obtain res u pos' where f: "poll_flush_record_inner ops (w_upstream w) (record_buffer w) pos = (res, u, pos')"
      by (cases "poll_flush_record_inner ops (w_upstream w) (record_buffer w) pos")
    have "ok (w_upstream w)" "pos \<le> length (record_buffer w)" using assms(1) WritingRecord by (simp_all add: tlsw_ok_def)
    note s = flush_inner_spec [OF this f]
    show ?thesis using assms WritingRecord f s
      by (cases res) (auto simp: tls_finish_record_def tlsw_ok_def tls_wire_def unsent_def recycle_record_buffer_def)
  next
    case (W_Poisoned e)
    then show ?thesis using assms by (simp add: tlsw_ok_def)
  qed
  then show "p = Pending \<Longrightarrow> tlsw_ok ok acc v \<and> tls_wire acc v = tls_wire acc w"
    "p = Ready_Ok x \<Longrightarrow> tlsw_ok ok acc v \<and> w_state v = W_Idle \<and> tls_wire acc v = tls_wire acc w" by blast+
qed

text \<open>From an idle writer: one record is built and handed down.\<close>

lemma write_record_spec:
  assumes "tlsw_ok ok acc w" "w_state w = W_Idle" "buf \<noteq> []" "tls_poll_write ops w buf = (q, v)"
  shows "q \<noteq> Pending"
    "q = Ready_Ok n \<Longrightarrow> tlsw_ok ok acc v \<and> n \<le> length buf \<and> 0 < n \<and> tls_acc acc v = tls_acc acc w @ take n buf"
proof -
  obtain limit w1 where lim: "next_record_payload_limit w = (limit, w1)" by fastforce
  have w1: "w_upstream w1 = w_upstream w" "w_state w1 = W_Idle" and l: "512 \<le> limit" "limit \<le> MAX_TLS_PAYLOAD"
    using next_limit_fields [of w] next_limit [of w] lim assms(2) by simp_all
  define k where "k = min (length buf) limit"
  have "0 < length buf" using assms(3) by simp
  then have k: "k \<le> length buf" "0 < k" "k \<le> MAX_TLS_PAYLOAD" using l by (auto simp: k_def)
  then have pk: "payload_ok (take k buf)" "length (take k buf) = k" using assms(3) by (auto simp: payload_ok_def)
  define w2 where "w2 = writer_build_record (take k buf) w1"
  have w2: "w_upstream w2 = w_upstream w" "w_state w2 = W_Idle" "record_buffer w2 = record_of (take k buf)"
    by (simp_all add: w2_def writer_build_record_def w1 record_of_def Let_def)
  obtain p u where p: "op_write ops (w_upstream w) (record_of (take k buf)) = (p, u)" by fastforce
  have st: "tls_poll_write ops w buf = (let w = w2\<lparr>w_upstream := u\<rparr> in
      case p of
        Ready_Ok n \<Rightarrow> if n = length (record_buffer w) then (Ready_Ok k, recycle_record_buffer w)
          else (Ready_Ok k, w\<lparr>w_state := WritingRecord n k\<rparr>)
      | Ready_Err e \<Rightarrow> (Ready_Err e, writer_poison e w)
      | Pending \<Rightarrow> (Ready_Ok k, w\<lparr>w_state := WritingRecord 0 k\<rparr>))"
    using assms(2,3) lim p w2
    by (cases p) (simp_all add: tls_poll_write_def tls_finish_record_def Let_def flip: k_def w2_def)
  have fr: "framed (tls_wire acc w)" "tls_wire acc w = acc (w_upstream w)" and ok: "ok (w_upstream w)"
    using assms(1,2) by (auto simp: tlsw_ok_def tls_wire_def unsent_def)
  have rn: "record_of (take k buf) \<noteq> []" by (simp add: record_of_def th_to_bytes_def)
  have g: "tlsw_ok ok acc v \<and> tls_acc acc v = tls_acc acc w @ take k buf"
    if "ok (w_upstream v)" "tls_wire acc v = tls_wire acc w @ record_of (take k buf)"
      "w_state v = W_Idle \<or> (\<exists>n m. w_state v = WritingRecord n m \<and> n \<le> length (record_buffer v))" for v
    using that framed_append [OF fr(1) pk(1)] by (auto simp: tlsw_ok_def tls_acc_def)
  show "q \<noteq> Pending" using st assms(4) by (cases p) (auto simp: Let_def split: if_splits)
  show "tlsw_ok ok acc v \<and> n \<le> length buf \<and> 0 < n \<and> tls_acc acc v = tls_acc acc w @ take n buf" if "q = Ready_Ok n"
  proof -
    have "n = k" using st assms(4) that by (cases p) (auto simp: Let_def split: if_splits)
    moreover have "tlsw_ok ok acc v \<and> tls_acc acc v = tls_acc acc w @ take k buf"
    proof (cases p)
      case Pending
      then have "v = w2\<lparr>w_upstream := u, w_state := WritingRecord 0 k\<rparr>" using st assms(4) that by (simp add: Let_def)
      then show ?thesis using write_pending [OF ok rn p [unfolded Pending]] w2 fr(2)
        by (intro g) (simp_all add: tls_wire_def unsent_def)
    next
      case (Ready_Ok m)
      note c = write_ok [OF ok rn p [unfolded Ready_Ok]]
      show ?thesis
      proof (cases "m = length (record_of (take k buf))")
        case True
        then have "v = recycle_record_buffer (w2\<lparr>w_upstream := u\<rparr>)" using st assms(4) that Ready_Ok w2(3) by (simp add: Let_def)
        then show ?thesis using c w2 fr(2) True
          by (intro g) (simp_all add: tls_wire_def unsent_def recycle_record_buffer_def)
      next
        case False
        then have "v = w2\<lparr>w_upstream := u, w_state := WritingRecord m k\<rparr>" using st assms(4) that Ready_Ok w2(3) by (simp add: Let_def)
        then show ?thesis using c w2 fr(2)
          by (intro g) (simp_all add: tls_wire_def unsent_def)
      qed
    next
      case (Ready_Err e)
      then show ?thesis using st assms(4) that by (simp add: Let_def)
    qed
    ultimately show ?thesis using k by simp
  qed
qed

lemma tls_write_split:
  assumes "tls_finish_record ops w = (Ready_Ok x, v)" "w_state v = W_Idle"
  shows "tls_poll_write ops w buf = tls_poll_write ops v buf"
  using assms by (simp add: tls_poll_write_def tls_finish_record_def [of ops v])

lemma tls_blocked:
  "tls_finish_record ops w = (Pending, v) \<Longrightarrow> tls_poll_write ops w buf = (Pending, v) \<and> tls_poll_flush ops w = (Pending, v)"
  "tls_finish_record ops w = (Ready_Err e, v) \<Longrightarrow>
    tls_poll_write ops w buf = (Ready_Err e, v) \<and> tls_poll_flush ops w = (Ready_Err e, v)"
  by (simp_all add: tls_poll_write_def tls_poll_flush_def)

lemma tls_flush_through:
  assumes "tls_finish_record ops w = (Ready_Ok x, v)" "tls_poll_flush ops w = (q, y)"
  obtains u where "op_flush ops (w_upstream v) = (q, u)" "y = v\<lparr>w_upstream := u\<rparr>"
  using assms by (cases "op_flush ops (w_upstream v)") (simp add: tls_poll_flush_def)

lemma tls_async_write: "async_write (tls_writer_ops ops) (tlsw_ok ok acc) (tls_acc acc) (tls_settled settled)"
proof
  fix w v :: "'u FakeTlsWriter" and d :: bytes and n x
  assume w: "tlsw_ok ok acc w"
  obtain p w' where f: "tls_finish_record ops w = (p, w')" by fastforce
  note fin = finish_spec [OF w f]
  have wire: "tls_wire acc v = tls_wire acc w \<Longrightarrow> tls_acc acc v = tls_acc acc w" for v by (simp add: tls_acc_def)
  show "tlsw_ok ok acc v \<and> n \<le> length d \<and> tls_acc acc v = tls_acc acc w @ take n d"
    if "d \<noteq> []" "op_write (tls_writer_ops ops) w d = (Ready_Ok n, v)"
  proof -
    have o: "tls_poll_write ops w d = (Ready_Ok n, v)" using that(2) by (simp add: tls_writer_ops_def)
    then obtain y where p: "p = Ready_Ok y" using f tls_blocked(1) [of w w' d] tls_blocked(2) [of w _ w' d] by (cases p) auto
    have i: "tlsw_ok ok acc w'" "w_state w' = W_Idle" "tls_wire acc w' = tls_wire acc w" using fin(2) [OF p] by auto
    have "tls_poll_write ops w' d = (Ready_Ok n, v)" using o tls_write_split [OF f [unfolded p] i(2), of d] by simp
    from write_record_spec(2) [OF i(1,2) that(1) this refl] show ?thesis using wire [OF i(3)] by simp
  qed
  show "tlsw_ok ok acc v \<and> tls_acc acc v = tls_acc acc w"
    if "d \<noteq> []" "op_write (tls_writer_ops ops) w d = (Pending, v)"
  proof -
    have o: "tls_poll_write ops w d = (Pending, v)" using that(2) by (simp add: tls_writer_ops_def)
    show ?thesis
    proof (cases p)
      case Pending
      then show ?thesis using f o fin(1) wire [of v] tls_blocked(1) [of w w' d] by simp
    next
      case (Ready_Ok y)
      then have i: "tlsw_ok ok acc w'" "w_state w' = W_Idle" using fin(2) by auto
      have "tls_poll_write ops w' d = (Pending, v)" using o tls_write_split [OF f [unfolded Ready_Ok] i(2), of d] by simp
      from write_record_spec(1) [OF i that(1) this] show ?thesis by simp
    next
      case (Ready_Err e)
      then show ?thesis using f o tls_blocked(2) [of w e w' d] by simp
    qed
  qed
  show "tlsw_ok ok acc v \<and> tls_acc acc v = tls_acc acc w \<and> tls_settled settled v"
    if "op_flush (tls_writer_ops ops) w = (Ready_Ok x, v)"
  proof -
    have o: "tls_poll_flush ops w = (Ready_Ok x, v)" using that by (simp add: tls_writer_ops_def)
    obtain y where p: "p = Ready_Ok y" using o f tls_blocked(1) [of w w' d] tls_blocked(2) [of w _ w' d] by (cases p) auto
    note i = fin(2) [OF p]
    obtain u where u: "op_flush ops (w_upstream w') = (Ready_Ok x, u)" "v = w'\<lparr>w_upstream := u\<rparr>"
      using tls_flush_through [OF f [unfolded p] o] by blast
    have "ok u \<and> acc u = acc (w_upstream w') \<and> settled u" using flush_ok [OF _ u(1)] i by (simp add: tlsw_ok_def)
    then show ?thesis using i u(2) by (auto simp: tlsw_ok_def tls_acc_def tls_wire_def unsent_def tls_settled_def)
  qed
  show "tlsw_ok ok acc v \<and> tls_acc acc v = tls_acc acc w"
    if "op_flush (tls_writer_ops ops) w = (Pending, v)"
  proof -
    have o: "tls_poll_flush ops w = (Pending, v)" using that by (simp add: tls_writer_ops_def)
    show ?thesis
    proof (cases p)
      case Pending
      then show ?thesis using f o fin(1) wire [of v] tls_blocked(1) [of w w' d] by simp
    next
      case (Ready_Ok y)
      note i = fin(2) [OF Ready_Ok]
      obtain u where u: "op_flush ops (w_upstream w') = (Pending, u)" "v = w'\<lparr>w_upstream := u\<rparr>"
        using tls_flush_through [OF f [unfolded Ready_Ok] o] by blast
      have "ok u \<and> acc u = acc (w_upstream w')" using flush_pending [OF _ u(1)] i by (simp add: tlsw_ok_def)
      then show ?thesis using i u(2) by (auto simp: tlsw_ok_def tls_acc_def tls_wire_def unsent_def)
    next
      case (Ready_Err e)
      then show ?thesis using f o tls_blocked(2) [of w e w' d] by simp
    qed
  qed
qed

end

interpretation tsnk: async_write "tls_writer_ops sink_ops" "tlsw_ok (\<lambda>_. True) sink_out" "tls_acc sink_out"
  "tls_settled (\<lambda>_. True)"
  by (rule snk.tls_async_write)

end
