(* ===== verification/Crypto_Stream.thy ===== *)
theory Crypto_Stream
  imports Tls_Stream_Write
begin

text \<open>
  The AES-CTR stream wrappers (\<open>src/stream/crypto_stream.rs\<close>) and the cipher object they hold
  (\<open>AesCtr\<close> of \<open>src/crypto/aes.rs\<close>).

  The cipher itself comes from a crate outside the repository.  Its documented behaviour is that of
  a stream cipher: byte \<open>i\<close> of the data is combined by exclusive or with byte \<open>i\<close> of a key stream
  fixed by key and initial vector; the key stream is a parameter of the model.  The writer's scratch
  buffer is empty between calls and is a local value here.
\<close>

section \<open>The cipher\<close>

record AesCtr =
  ctr_stream :: "nat \<Rightarrow> byte"
  ctr_pos :: nat

definition AesCtr_new :: "(bytes \<Rightarrow> bytes \<Rightarrow> nat \<Rightarrow> byte) \<Rightarrow> bytes \<Rightarrow> nat \<Rightarrow> AesCtr" where
  "AesCtr_new cipher key iv = \<lparr>ctr_stream = cipher key (nat_be 16 iv), ctr_pos = 0\<rparr>"

datatype key_error = InvalidKeyLength nat nat

definition AesCtr_from_key_iv :: "(bytes \<Rightarrow> bytes \<Rightarrow> nat \<Rightarrow> byte) \<Rightarrow> bytes \<Rightarrow> bytes \<Rightarrow> key_error + AesCtr" where
  "AesCtr_from_key_iv cipher key iv =
    (if length key \<noteq> 32 then Inl (InvalidKeyLength 32 (length key))
     else if length iv \<noteq> 16 then Inl (InvalidKeyLength 16 (length iv))
     else Inr (AesCtr_new cipher key (be_nat iv)))"

fun ctr_xor :: "(nat \<Rightarrow> byte) \<Rightarrow> nat \<Rightarrow> bytes \<Rightarrow> bytes" where
  "ctr_xor ks p [] = []"
| "ctr_xor ks p (b # bs) = (b XOR ks p) # ctr_xor ks (Suc p) bs"

definition ctr_apply :: "bytes \<Rightarrow> AesCtr \<Rightarrow> bytes \<times> AesCtr" where
  "ctr_apply d c = (ctr_xor (ctr_stream c) (ctr_pos c) d, c\<lparr>ctr_pos := ctr_pos c + length d\<rparr>)"

definition ctr_encrypt :: "bytes \<Rightarrow> AesCtr \<Rightarrow> bytes \<times> AesCtr" where
  "ctr_encrypt d c = ctr_apply d c"

definition ctr_decrypt :: "bytes \<Rightarrow> AesCtr \<Rightarrow> bytes \<times> AesCtr" where
  "ctr_decrypt d c = ctr_encrypt d c"

lemma ctr_xor_length [simp]: "length (ctr_xor ks p d) = length d"
  by (induction ks p d rule: ctr_xor.induct) simp_all

lemma ctr_xor_append: "ctr_xor ks p (a @ b) = ctr_xor ks p a @ ctr_xor ks (p + length a) b"
  by (induction ks p a rule: ctr_xor.induct) simp_all

lemma ctr_xor_inverse [simp]: "ctr_xor ks p (ctr_xor ks p d) = d"
  by (induction ks p d rule: ctr_xor.induct) (simp_all add: xor.assoc)

lemma ctr_xor_Nil [simp]: "(ctr_xor ks p d = []) = (d = [])"
  by (cases d) simp_all

section \<open>The reader\<close>

datatype CryptoReaderState = CR_Idle | CR_Yielding YieldBuffer | CR_Poisoned "ErrorKind option"

record 'u CryptoReader =
  cr_upstream :: 'u
  decryptor :: AesCtr
  cr_state :: CryptoReaderState

definition CryptoReader_new :: "'u \<Rightarrow> AesCtr \<Rightarrow> 'u CryptoReader" where
  "CryptoReader_new u c = \<lparr>cr_upstream = u, decryptor = c, cr_state = CR_Idle\<rparr>"

definition cr_is_poisoned :: "'u CryptoReader \<Rightarrow> bool" where
  "cr_is_poisoned r \<longleftrightarrow> (case cr_state r of CR_Poisoned _ \<Rightarrow> True | _ \<Rightarrow> False)"

definition cr_poison :: "ErrorKind \<Rightarrow> 'u CryptoReader \<Rightarrow> 'u CryptoReader" where
  "cr_poison e r = r\<lparr>cr_state := CR_Poisoned (Some e)\<rparr>"

definition cr_take_poison_error :: "'u CryptoReader \<Rightarrow> ErrorKind \<times> 'u CryptoReader" where
  "cr_take_poison_error r =
    (case cr_state r of
       CR_Poisoned e \<Rightarrow> (case e of Some k \<Rightarrow> k | None \<Rightarrow> Other, r\<lparr>cr_state := CR_Poisoned None\<rparr>)
     | _ \<Rightarrow> (Other, r))"

definition crypto_poll_read :: "'u reader \<Rightarrow> 'u CryptoReader reader" where
  "crypto_poll_read rd r n =
    (case cr_state r of
       CR_Poisoned _ \<Rightarrow> (let (e, r') = cr_take_poison_error r in Some (Ready_Err e, r'))
     | CR_Yielding y \<Rightarrow>
         if n = 0 then Some (Ready_Ok [], r)
         else let (copied, y') = yb_copy_to (min (yb_remaining y) n) y
              in Some (Ready_Ok copied, r\<lparr>cr_state := if yb_is_empty y' then CR_Idle else CR_Yielding y'\<rparr>)
     | CR_Idle \<Rightarrow>
         if n = 0 then Some (Ready_Ok [], r)
         else do {
           (p, u) \<leftarrow> rd (cr_upstream r) n;
           let r = r\<lparr>cr_upstream := u\<rparr> in
           case p of
             Pending \<Rightarrow> Some (Pending, r)
           | Ready_Err e \<Rightarrow> Some (Ready_Err e, cr_poison e r)
           | Ready_Ok d \<Rightarrow>
               if d = [] then Some (Ready_Ok [], r)
               else let (plain, c) = ctr_apply d (decryptor r) in Some (Ready_Ok plain, r\<lparr>decryptor := c\<rparr>) })"

definition read_exact_decrypt ::
  "'u reader \<Rightarrow> nat \<Rightarrow> 'u CryptoReader \<Rightarrow> ((ErrorKind + bytes) \<times> 'u CryptoReader) option" where
  "read_exact_decrypt rd n r =
    (if cr_is_poisoned r then (let (e, r') = cr_take_poison_error r in Some (Inl e, r'))
     else
       let (result, r) = (case cr_state r of
             CR_Yielding y \<Rightarrow>
               let (temp, y') = yb_copy_to (min (yb_remaining y) n) y
               in (temp, r\<lparr>cr_state := if yb_is_empty y' then CR_Idle else CR_Yielding y'\<rparr>)
           | _ \<Rightarrow> ([], r))
       in read_exact_loop (crypto_poll_read rd) n result r)"

definition read_decrypt ::
  "'u reader \<Rightarrow> nat \<Rightarrow> 'u CryptoReader \<Rightarrow> ((ErrorKind + bytes) \<times> 'u CryptoReader) option" where
  "read_decrypt rd max_size r =
    (if cr_is_poisoned r then (let (e, r') = cr_take_poison_error r in Some (Inl e, r'))
     else case cr_state r of
       CR_Yielding y \<Rightarrow>
         let (temp, y') = yb_copy_to (min (yb_remaining y) max_size) y
         in Some (Inr temp, r\<lparr>cr_state := if yb_is_empty y' then CR_Idle else CR_Yielding y'\<rparr>)
     | _ \<Rightarrow> await_read (crypto_poll_read rd) r max_size)"

section \<open>The writer\<close>

record PendingCiphertext =
  pc_buf :: bytes
  pc_pos :: nat
  pc_max_len :: nat

definition PendingCiphertext_new :: "nat \<Rightarrow> PendingCiphertext" where
  "PendingCiphertext_new max_len = \<lparr>pc_buf = [], pc_pos = 0, pc_max_len = max_len\<rparr>"

definition pc_pending_len :: "PendingCiphertext \<Rightarrow> nat" where
  "pc_pending_len p = length (pc_buf p) - pc_pos p"

definition pc_is_empty :: "PendingCiphertext \<Rightarrow> bool" where
  "pc_is_empty p \<longleftrightarrow> pc_pending_len p = 0"

definition pc_pending_slice :: "PendingCiphertext \<Rightarrow> bytes" where
  "pc_pending_slice p = drop (pc_pos p) (pc_buf p)"

definition pc_remaining_capacity :: "PendingCiphertext \<Rightarrow> nat" where
  "pc_remaining_capacity p = pc_max_len p - pc_pending_len p"

definition pc_compact :: "PendingCiphertext \<Rightarrow> PendingCiphertext" where
  "pc_compact p =
    (if pc_pos p = 0 then p
     else if length (pc_buf p) \<le> pc_pos p then p\<lparr>pc_buf := [], pc_pos := 0\<rparr>
     else p\<lparr>pc_buf := drop (pc_pos p) (pc_buf p), pc_pos := 0\<rparr>)"

definition pc_advance :: "nat \<Rightarrow> PendingCiphertext \<Rightarrow> PendingCiphertext" where
  "pc_advance n p =
    (let p = p\<lparr>pc_pos := min (pc_pos p + n) (length (pc_buf p))\<rparr>
     in if pc_pos p = length (pc_buf p) then pc_compact p
        else if 16 * 1024 \<le> pc_pos p then pc_compact p else p)"

definition pc_replace_with :: "bytes \<Rightarrow> PendingCiphertext \<Rightarrow> PendingCiphertext" where
  "pc_replace_with src p = p\<lparr>pc_buf := src, pc_pos := 0\<rparr>"

definition pc_push_encrypted ::
  "bytes \<Rightarrow> AesCtr \<Rightarrow> PendingCiphertext \<Rightarrow> (ErrorKind + unit) \<times> AesCtr \<times> PendingCiphertext" where
  "pc_push_encrypted plaintext c p =
    (if plaintext = [] then (Inr (), c, p)
     else if pc_remaining_capacity p < length plaintext then (Inl WouldBlock, c, p)
     else
       let p = (if 0 < pc_pos p \<and> pc_max_len p < length (pc_buf p) + length plaintext then pc_compact p else p);
           (cipher, c) = ctr_apply plaintext c
       in (Inr (), c, p\<lparr>pc_buf := pc_buf p @ cipher\<rparr>))"

datatype CryptoWriterState = CW_Idle | Flushing PendingCiphertext | CW_Poisoned "ErrorKind option"

record 'u CryptoWriter =
  cw_upstream :: 'u
  encryptor :: AesCtr
  cw_state :: CryptoWriterState
  max_pending_write :: nat

definition CryptoWriter_new :: "'u \<Rightarrow> AesCtr \<Rightarrow> nat \<Rightarrow> 'u CryptoWriter" where
  "CryptoWriter_new u c max_pending =
     \<lparr>cw_upstream = u, encryptor = c, cw_state = CW_Idle,
      max_pending_write = max (if max_pending = 0 then 64 * 1024 else max_pending) (4 * 1024)\<rparr>"

definition cw_pending_len :: "'u CryptoWriter \<Rightarrow> nat" where
  "cw_pending_len w = (case cw_state w of Flushing p \<Rightarrow> pc_pending_len p | _ \<Rightarrow> 0)"

definition cw_poison :: "ErrorKind \<Rightarrow> 'u CryptoWriter \<Rightarrow> 'u CryptoWriter" where
  "cw_poison e w = w\<lparr>cw_state := CW_Poisoned (Some e)\<rparr>"

definition cw_take_poison_error :: "'u CryptoWriter \<Rightarrow> ErrorKind \<times> 'u CryptoWriter" where
  "cw_take_poison_error w =
    (case cw_state w of
       CW_Poisoned e \<Rightarrow> (case e of Some k \<Rightarrow> k | None \<Rightarrow> Other, w\<lparr>cw_state := CW_Poisoned None\<rparr>)
     | _ \<Rightarrow> (Other, w))"

text \<open>Both callers have ruled out the poisoned state, on which the code panics.\<close>

definition ensure_pending :: "CryptoWriterState \<Rightarrow> nat \<Rightarrow> PendingCiphertext" where
  "ensure_pending st max_pending = (case st of Flushing p \<Rightarrow> p | _ \<Rightarrow> PendingCiphertext_new max_pending)"

definition select_to_accept_for_buffering :: "CryptoWriterState \<Rightarrow> nat \<Rightarrow> nat \<Rightarrow> nat" where
  "select_to_accept_for_buffering st buf_len max_pending =
    (if buf_len = 0 then 0
     else case st of
       Flushing p \<Rightarrow> min buf_len (pc_remaining_capacity p)
     | CW_Idle \<Rightarrow> min buf_len max_pending
     | CW_Poisoned _ \<Rightarrow> 0)"

function poll_flush_pending :: "'u writer_ops \<Rightarrow> 'u CryptoWriter \<Rightarrow> unit poll \<times> 'u CryptoWriter" where
  "poll_flush_pending ops w =
    (case cw_state w of
       CW_Poisoned _ \<Rightarrow> (let (e, w') = cw_take_poison_error w in (Ready_Err e, w'))
     | CW_Idle \<Rightarrow> (Ready_Ok (), w)
     | Flushing p \<Rightarrow>
         if pc_is_empty p then (Ready_Ok (), w\<lparr>cw_state := CW_Idle\<rparr>)
         else case op_write ops (cw_upstream w) (pc_pending_slice p) of
           (Pending, u) \<Rightarrow> (Pending, w\<lparr>cw_upstream := u\<rparr>)
         | (Ready_Err e, u) \<Rightarrow> (Ready_Err e, cw_poison e (w\<lparr>cw_upstream := u\<rparr>))
         | (Ready_Ok n, u) \<Rightarrow>
             if n = 0 then (Ready_Err WriteZero, cw_poison WriteZero (w\<lparr>cw_upstream := u\<rparr>))
             else poll_flush_pending ops (w\<lparr>cw_upstream := u, cw_state := Flushing (pc_advance n p)\<rparr>))"
  by pat_completeness auto
termination
  by (relation "measure (\<lambda>(ops, w). cw_pending_len w)")
    (auto simp: cw_pending_len_def pc_advance_def pc_compact_def pc_pending_len_def pc_is_empty_def Let_def)

declare poll_flush_pending.simps [simp del]

text \<open>The fast path of \<open>poll_write\<close>: nothing is pending.\<close>

definition crypto_write_through ::
  "'u writer_ops \<Rightarrow> 'u CryptoWriter \<Rightarrow> bytes \<Rightarrow> nat poll \<times> 'u CryptoWriter" where
  "crypto_write_through ops w buf =
    (let to_accept = min (length buf) (max_pending_write w);
         (scratch, c) = ctr_apply (take to_accept buf) (encryptor w);
         (p, u) = op_write ops (cw_upstream w) scratch;
         w = w\<lparr>encryptor := c, cw_upstream := u\<rparr>
     in case p of
          Pending \<Rightarrow>
            (Ready_Ok to_accept,
             w\<lparr>cw_state := Flushing (pc_replace_with scratch (ensure_pending (cw_state w) (max_pending_write w)))\<rparr>)
        | Ready_Err e \<Rightarrow> (Ready_Err e, cw_poison e w)
        | Ready_Ok n \<Rightarrow>
            if n = 0 then (Ready_Err WriteZero, cw_poison WriteZero w)
            else if n = length scratch then (Ready_Ok to_accept, w)
            else (Ready_Ok to_accept,
                  w\<lparr>cw_state := Flushing (pc_replace_with (drop n scratch)
                                 (ensure_pending (cw_state w) (max_pending_write w)))\<rparr>))"

text \<open>The buffering path of \<open>poll_write\<close>: the stream below is busy.\<close>

definition crypto_write_buffered :: "'u CryptoWriter \<Rightarrow> bytes \<Rightarrow> nat poll \<times> 'u CryptoWriter" where
  "crypto_write_buffered w buf =
    (let to_accept = select_to_accept_for_buffering (cw_state w) (length buf) (max_pending_write w) in
     if to_accept = 0 then (Pending, w)
     else
       let (res, c, p) = pc_push_encrypted (take to_accept buf) (encryptor w)
                           (ensure_pending (cw_state w) (max_pending_write w));
           w = w\<lparr>encryptor := c, cw_state := Flushing p\<rparr>
       in (case res of
             Inl e \<Rightarrow> if e = WouldBlock then (Pending, w) else (Ready_Err e, w)
           | Inr _ \<Rightarrow> (Ready_Ok to_accept, w)))"

definition crypto_poll_write ::
  "'u writer_ops \<Rightarrow> 'u CryptoWriter \<Rightarrow> bytes \<Rightarrow> nat poll \<times> 'u CryptoWriter" where
  "crypto_poll_write ops w buf =
    (case cw_state w of
       CW_Poisoned _ \<Rightarrow> (let (e, w') = cw_take_poison_error w in (Ready_Err e, w'))
     | st \<Rightarrow>
       if buf = [] then (Ready_Ok 0, w)
       else if st = CW_Idle then crypto_write_through ops w buf
       else case poll_flush_pending ops w of
           (Ready_Ok _, w) \<Rightarrow> crypto_write_through ops w buf
         | (Ready_Err e, w) \<Rightarrow> (Ready_Err e, w)
         | (Pending, w) \<Rightarrow> crypto_write_buffered w buf)"

definition crypto_poll_flush :: "'u writer_ops \<Rightarrow> 'u CryptoWriter \<Rightarrow> unit poll \<times> 'u CryptoWriter" where
  "crypto_poll_flush ops w =
    (case cw_state w of
       CW_Poisoned _ \<Rightarrow> (let (e, w') = cw_take_poison_error w in (Ready_Err e, w'))
     | _ \<Rightarrow>
       (case poll_flush_pending ops w of
          (Pending, w) \<Rightarrow> (Pending, w)
        | (Ready_Err e, w) \<Rightarrow> (Ready_Err e, w)
        | (Ready_Ok _, w) \<Rightarrow> (let (p, u) = op_flush ops (cw_upstream w) in (p, w\<lparr>cw_upstream := u\<rparr>))))"

definition crypto_poll_shutdown :: "'u writer_ops \<Rightarrow> 'u CryptoWriter \<Rightarrow> unit poll \<times> 'u CryptoWriter" where
  "crypto_poll_shutdown ops w =
    (let (_, w) = poll_flush_pending ops w;
         (p, u) = op_shutdown ops (cw_upstream w)
     in (p, w\<lparr>cw_upstream := u\<rparr>))"

definition crypto_writer_ops :: "'u writer_ops \<Rightarrow> 'u CryptoWriter writer_ops" where
  "crypto_writer_ops ops =
     \<lparr>op_write = crypto_poll_write ops, op_flush = crypto_poll_flush ops, op_shutdown = crypto_poll_shutdown ops\<rparr>"

end
