(* ===== verification/Stream_Stack.thy ===== *)
theory Stream_Stack
  imports Crypto_Stream
begin

text \<open>
  The wrappers on top of each other, as the proxy builds them: a cipher over FakeTLS over a socket.
  The AES-CTR wrappers again keep the contracts \<open>async_read\<close> and \<open>async_write\<close>, so whatever is
  proved from the contracts holds for the whole stack.
\<close>

section \<open>The AES-CTR reader keeps the contract\<close>

definition crypto_rest :: "('u \<Rightarrow> bytes) \<Rightarrow> 'u CryptoReader \<Rightarrow> bytes" where
  "crypto_rest rest r =
    (let plain = ctr_xor (ctr_stream (decryptor r)) (ctr_pos (decryptor r)) (rest (cr_upstream r)) in
     case cr_state r of CR_Idle \<Rightarrow> plain | CR_Yielding y \<Rightarrow> yb_as_slice y @ plain | CR_Poisoned _ \<Rightarrow> [])"

definition crypto_fin :: "('u \<Rightarrow> ErrorKind option) \<Rightarrow> 'u CryptoReader \<Rightarrow> ErrorKind option" where
  "crypto_fin fin r =
    (case cr_state r of CR_Poisoned e \<Rightarrow> Some (case e of Some k \<Rightarrow> k | None \<Rightarrow> Other) | _ \<Rightarrow> fin (cr_upstream r))"

definition crypto_ok :: "('u \<Rightarrow> bool) \<Rightarrow> 'u CryptoReader \<Rightarrow> bool" where
  "crypto_ok ok r \<longleftrightarrow>
    (case cr_state r of
       CR_Idle \<Rightarrow> ok (cr_upstream r)
     | CR_Yielding y \<Rightarrow> ok (cr_upstream r) \<and> yb_position y < length (yb_data y)
     | CR_Poisoned _ \<Rightarrow> True)"

context async_read
begin

lemma crypto_async_read:
  "async_read (crypto_poll_read rd) (crypto_ok ok) (crypto_rest rest) (crypto_fin fin) (\<lambda>r. budget (cr_upstream r))"
proof
  fix r v :: "'u CryptoReader" and n :: nat and d e
  assume r: "crypto_ok ok r" and n: "0 < n"
  note defs = crypto_poll_read_def crypto_ok_def crypto_rest_def crypto_fin_def Let_def
  note ydefs = yb_copy_to_def yb_remaining_def yb_is_empty_def yb_as_slice_def take_drop_step
  show "\<exists>p v. crypto_poll_read rd r n = Some (p, v)"
    using r n returns [of "cr_upstream r" n]
    by (cases "cr_state r") (auto simp: defs split: prod.splits poll.splits)
  show "crypto_poll_read rd r n = Some (Ready_Ok d, v) \<Longrightarrow> d \<noteq> [] \<Longrightarrow>
      crypto_ok ok v \<and> length d \<le> n \<and> crypto_rest rest r = d @ crypto_rest rest v \<and>
      crypto_fin fin v = crypto_fin fin r \<and> budget (cr_upstream v) \<le> budget (cr_upstream r)"
  proof (cases "cr_state r")
    case CR_Idle
    assume p: "crypto_poll_read rd r n = Some (Ready_Ok d, v)" "d \<noteq> []"
    have okr: "ok (cr_upstream r)" using r CR_Idle by (simp add: crypto_ok_def)
    obtain q u where q: "rd (cr_upstream r) n = Some (q, u)" using returns [OF okr n] by blast
    then obtain d' where u: "rd (cr_upstream r) n = Some (Ready_Ok d', u)" "d' \<noteq> []"
        "d = ctr_xor (ctr_stream (decryptor r)) (ctr_pos (decryptor r)) d'"
        "v = r\<lparr>cr_upstream := u, decryptor := (decryptor r)\<lparr>ctr_pos := ctr_pos (decryptor r) + length d'\<rparr>\<rparr>"
      using p CR_Idle n by (cases q) (auto simp: defs ctr_apply_def cr_poison_def split: if_splits)
    from data [OF okr n u(1,2)] show ?thesis
      using u CR_Idle by (simp add: defs ctr_xor_append)
  qed (use r n in \<open>auto simp: defs ydefs cr_take_poison_error_def\<close>)
  have "cr_state r = CR_Idle \<Longrightarrow> \<exists>q u. rd (cr_upstream r) n = Some (q, u)"
    using r returns [of "cr_upstream r" n] n by (simp add: crypto_ok_def)
  then obtain q u where q: "cr_state r = CR_Idle \<Longrightarrow> rd (cr_upstream r) n = Some (q, u)" by blast
  note poll_defs = defs ydefs ctr_apply_def cr_poison_def cr_take_poison_error_def
  show "crypto_poll_read rd r n = Some (Ready_Ok [], v) \<Longrightarrow> crypto_rest rest r = [] \<and> crypto_fin fin r = None"
    using r n q eof [of "cr_upstream r" n u]
    by (cases "cr_state r"; cases q) (auto simp: poll_defs split: if_splits)
  show "crypto_poll_read rd r n = Some (Pending, v) \<Longrightarrow>
      crypto_ok ok v \<and> crypto_rest rest v = crypto_rest rest r \<and> crypto_fin fin v = crypto_fin fin r \<and>
      budget (cr_upstream v) < budget (cr_upstream r)"
    using r n q pending [of "cr_upstream r" n u]
    by (cases "cr_state r"; cases q) (auto simp: poll_defs split: if_splits)
  show "crypto_poll_read rd r n = Some (Ready_Err e, v) \<Longrightarrow> crypto_rest rest r = [] \<and> crypto_fin fin r = Some e"
    using r n q failed [of "cr_upstream r" n _ u]
    by (cases "cr_state r"; cases q) (auto simp: poll_defs split: if_splits)
qed

end

section \<open>The AES-CTR writer keeps the contract\<close>

text \<open>
  The writer starts when the stream under it has accepted \<open>off\<close> bytes, with the cipher at
  position \<open>p0\<close> of its key stream.
\<close>

definition cw_unsent :: "'u CryptoWriter \<Rightarrow> bytes" where
  "cw_unsent w = (case cw_state w of Flushing p \<Rightarrow> pc_pending_slice p | _ \<Rightarrow> [])"

definition cw_cipher :: "('u \<Rightarrow> bytes) \<Rightarrow> nat \<Rightarrow> 'u CryptoWriter \<Rightarrow> bytes" where
  "cw_cipher acc off w = drop off (acc (cw_upstream w) @ cw_unsent w)"

definition cw_acc :: "('u \<Rightarrow> bytes) \<Rightarrow> (nat \<Rightarrow> byte) \<Rightarrow> nat \<Rightarrow> nat \<Rightarrow> 'u CryptoWriter \<Rightarrow> bytes" where
  "cw_acc acc ks p0 off w = ctr_xor ks p0 (cw_cipher acc off w)"

definition cw_ok :: "('u \<Rightarrow> bool) \<Rightarrow> ('u \<Rightarrow> bytes) \<Rightarrow> (nat \<Rightarrow> byte) \<Rightarrow> nat \<Rightarrow> nat \<Rightarrow> 'u CryptoWriter \<Rightarrow> bool" where
  "cw_ok ok acc ks p0 off w \<longleftrightarrow> ok (cw_upstream w) \<and> off \<le> length (acc (cw_upstream w)) \<and>
     ctr_stream (encryptor w) = ks \<and> ctr_pos (encryptor w) = p0 + length (cw_cipher acc off w) \<and>
     0 < max_pending_write w \<and>
     (case cw_state w of
        CW_Idle \<Rightarrow> True
      | Flushing p \<Rightarrow> pc_pos p \<le> length (pc_buf p) \<and> pc_max_len p = max_pending_write w \<and>
          pc_pending_len p \<le> max_pending_write w
      | CW_Poisoned _ \<Rightarrow> False)"

definition cw_settled :: "('u \<Rightarrow> bool) \<Rightarrow> 'u CryptoWriter \<Rightarrow> bool" where
  "cw_settled settled w \<longleftrightarrow> settled (cw_upstream w) \<and> cw_unsent w = []"

lemma pc_advance_slice:
  assumes "n \<le> pc_pending_len p" "pc_pos p \<le> length (pc_buf p)"
  shows "pc_pending_slice (pc_advance n p) = drop n (pc_pending_slice p)"
    "pc_pos (pc_advance n p) \<le> length (pc_buf (pc_advance n p))"
    "pc_max_len (pc_advance n p) = pc_max_len p" "pc_pending_len (pc_advance n p) \<le> pc_pending_len p"
  using assms by (auto simp: pc_advance_def pc_compact_def pc_pending_slice_def pc_pending_len_def Let_def add.commute)

lemma pc_slice_length: "length (pc_pending_slice p) = pc_pending_len p"
  by (simp add: pc_pending_slice_def pc_pending_len_def)

context async_write
begin

lemma flush_pending_spec:
  assumes "cw_ok ok acc ks p0 off w" "poll_flush_pending ops w = (q, v)"
  shows "(q = Pending \<longrightarrow> cw_ok ok acc ks p0 off v \<and> cw_cipher acc off v = cw_cipher acc off w \<and> (\<exists>p. cw_state v = Flushing p)) \<and>
    (q = Ready_Ok x \<longrightarrow> cw_ok ok acc ks p0 off v \<and> cw_cipher acc off v = cw_cipher acc off w \<and> cw_state v = CW_Idle)"
  using assms
proof (induction "cw_pending_len w" arbitrary: w rule: less_induct)
  case less
  show ?case
  proof (cases "cw_state w")
    case CW_Idle
    then show ?thesis using less.prems by (subst (asm) poll_flush_pending.simps) auto
  next
    case (CW_Poisoned e)
    then show ?thesis using less.prems by (simp add: cw_ok_def)
  next
    case (Flushing p)
    show ?thesis
    proof (cases "pc_is_empty p")
      case True
      then have "v = w\<lparr>cw_state := CW_Idle\<rparr>" "q = Ready_Ok ()"
        using less.prems(2) Flushing by (subst (asm) poll_flush_pending.simps; simp)+
      moreover have "pc_pending_slice p = []" using True pc_slice_length [of p] by (simp add: pc_is_empty_def)
      ultimately show ?thesis using less.prems(1) Flushing by (simp add: cw_ok_def cw_cipher_def cw_unsent_def)
    next
      case False
      let ?d = "pc_pending_slice p"
      have d: "?d \<noteq> []" using False pc_slice_length [of p] by (auto simp: pc_is_empty_def)
      have p: "pc_pos p \<le> length (pc_buf p)" and ok: "ok (cw_upstream w)" using less.prems(1) Flushing by (simp_all add: cw_ok_def)
      obtain r u where r: "op_write ops (cw_upstream w) ?d = (r, u)" by fastforce
      have st: "poll_flush_pending ops w = (case r of
          Pending \<Rightarrow> (Pending, w\<lparr>cw_upstream := u\<rparr>)
        | Ready_Err e \<Rightarrow> (Ready_Err e, cw_poison e (w\<lparr>cw_upstream := u\<rparr>))
        | Ready_Ok n \<Rightarrow> if n = 0 then (Ready_Err WriteZero, cw_poison WriteZero (w\<lparr>cw_upstream := u\<rparr>))
            else poll_flush_pending ops (w\<lparr>cw_upstream := u, cw_state := Flushing (pc_advance n p)\<rparr>))"
        using Flushing False r by (subst poll_flush_pending.simps) simp
      show ?thesis
      proof (cases r)
        case Pending
        then show ?thesis using st less.prems write_pending [OF ok d] r Flushing
          by (auto simp: cw_ok_def cw_cipher_def cw_unsent_def)
      next
        case (Ready_Err e)
        then show ?thesis using st less.prems by auto
      next
        case (Ready_Ok n)
        show ?thesis
        proof (cases "n = 0")
          case True
          then show ?thesis using st less.prems Ready_Ok by auto
        next
          case nz: False
          have l: "ok u" "n \<le> length ?d" "acc u = acc (cw_upstream w) @ take n ?d"
            using write_ok [OF ok d r [unfolded Ready_Ok]] by auto
          note a = pc_advance_slice [OF l(2) [unfolded pc_slice_length] p]
          define w' where "w' = w\<lparr>cw_upstream := u, cw_state := Flushing (pc_advance n p)\<rparr>"
          have c: "cw_cipher acc off w' = cw_cipher acc off w"
            using l(3) a(1) Flushing by (simp add: w'_def cw_cipher_def cw_unsent_def)
          have "cw_pending_len w' < cw_pending_len w"
            using nz False l(2) a(1) Flushing pc_slice_length [of "pc_advance n p"] pc_slice_length [of p]
            by (simp add: w'_def cw_pending_len_def pc_is_empty_def)
          moreover have "cw_ok ok acc ks p0 off w'"
            using less.prems(1) c l Flushing a by (simp add: cw_ok_def w'_def)
          ultimately show ?thesis using less.hyps [of w'] st Ready_Ok nz less.prems(2) c by (simp add: w'_def)
        qed
      qed
    qed
  qed
qed

lemma write_through_spec:
  assumes "cw_ok ok acc ks p0 off w" "cw_state w = CW_Idle" "buf \<noteq> []" "crypto_write_through ops w buf = (q, v)"
  shows "q \<noteq> Pending"
    "q = Ready_Ok n \<Longrightarrow> cw_ok ok acc ks p0 off v \<and> n \<le> length buf \<and>
       cw_acc acc ks p0 off v = cw_acc acc ks p0 off w @ take n buf"
proof -
  define k where "k = min (length buf) (max_pending_write w)"
  define c where "c = ctr_xor ks (ctr_pos (encryptor w)) (take k buf)"
  define x where "x = (encryptor w)\<lparr>ctr_pos := ctr_pos (encryptor w) + k\<rparr>"
  have w: "ok (cw_upstream w)" "off \<le> length (acc (cw_upstream w))" "ctr_stream (encryptor w) = ks"
      "ctr_pos (encryptor w) = p0 + length (cw_cipher acc off w)" "0 < max_pending_write w"
    using assms(1) by (simp_all add: cw_ok_def)
  have k: "k \<le> length buf" "0 < k" "k \<le> max_pending_write w" using assms(3) w(5) by (auto simp: k_def)
  have c: "c \<noteq> []" "length c = k" using k assms(3) by (simp_all add: c_def)
  obtain p u where p: "op_write ops (cw_upstream w) c = (p, u)" by fastforce
  have e: "ctr_apply (take k buf) (encryptor w) = (c, x)" using k(1) by (simp add: ctr_apply_def c_def x_def w(3) min_absorb2)
  have st: "crypto_write_through ops w buf = (let w' = w\<lparr>encryptor := x, cw_upstream := u\<rparr> in case p of
      Pending \<Rightarrow> (Ready_Ok k, w'\<lparr>cw_state := Flushing \<lparr>pc_buf = c, pc_pos = 0, pc_max_len = max_pending_write w\<rparr>\<rparr>)
    | Ready_Err e \<Rightarrow> (Ready_Err e, cw_poison e w')
    | Ready_Ok n \<Rightarrow> if n = 0 then (Ready_Err WriteZero, cw_poison WriteZero w')
        else if n = length c then (Ready_Ok k, w')
        else (Ready_Ok k, w'\<lparr>cw_state := Flushing \<lparr>pc_buf = drop n c, pc_pos = 0, pc_max_len = max_pending_write w\<rparr>\<rparr>))"
    using assms(2) p e
    by (cases p) (simp_all add: crypto_write_through_def Let_def ensure_pending_def pc_replace_with_def
        PendingCiphertext_new_def flip: k_def)
  have old: "cw_cipher acc off w = drop off (acc (cw_upstream w))" using assms(2) by (simp add: cw_cipher_def cw_unsent_def)
  have g: "cw_ok ok acc ks p0 off v \<and> cw_acc acc ks p0 off v = cw_acc acc ks p0 off w @ take k buf"
    if "cw_upstream v = u" "ok u" "encryptor v = x" "max_pending_write v = max_pending_write w"
      "off \<le> length (acc u)" "acc u @ cw_unsent v = acc (cw_upstream w) @ c"
      "case cw_state v of CW_Idle \<Rightarrow> True | Flushing p \<Rightarrow> pc_pos p \<le> length (pc_buf p) \<and>
         pc_max_len p = max_pending_write w \<and> pc_pending_len p \<le> max_pending_write w | CW_Poisoned _ \<Rightarrow> False" for v
  proof -
    have n: "cw_cipher acc off v = cw_cipher acc off w @ c" using that(1,6) w(2) old by (simp add: cw_cipher_def)
    have "ctr_xor ks p0 (cw_cipher acc off w @ c) = ctr_xor ks p0 (cw_cipher acc off w) @ take k buf"
      by (simp add: ctr_xor_append c_def w(4))
    then show ?thesis using that w n c(2) by (cases "cw_state v") (simp_all add: cw_ok_def cw_acc_def x_def)
  qed
  show "q \<noteq> Pending" using st assms(4) by (cases p) (auto simp: Let_def split: if_splits)
  assume q: "q = Ready_Ok n"
  then have nk: "n = k" using st assms(4) by (cases p) (auto simp: Let_def split: if_splits)
  have "cw_ok ok acc ks p0 off v \<and> cw_acc acc ks p0 off v = cw_acc acc ks p0 off w @ take k buf"
  proof (cases p)
    case Pending
    note l = write_pending [OF w(1) c(1) p [unfolded Pending]]
    show ?thesis using st assms(4) Pending l c(2) k(3) w(2)
      by (intro g) (auto simp: Let_def cw_unsent_def pc_pending_slice_def pc_pending_len_def)
  next
    case (Ready_Ok m)
    note l = write_ok [OF w(1) c(1) p [unfolded Ready_Ok]]
    show ?thesis using st assms(2,4) Ready_Ok l c(2) k(3) w(2) q
      by (intro g) (auto simp: Let_def cw_unsent_def pc_pending_slice_def pc_pending_len_def split: if_splits)
  next
    case (Ready_Err e)
    then show ?thesis using st assms(4) q by (simp add: Let_def)
  qed
  then show "cw_ok ok acc ks p0 off v \<and> n \<le> length buf \<and>
       cw_acc acc ks p0 off v = cw_acc acc ks p0 off w @ take n buf" using nk k(1) by simp
qed

lemma push_pending_spec:
  assumes "cw_ok ok acc ks p0 off w" "cw_state w = Flushing p" "0 < k" "k \<le> length buf" "k \<le> pc_remaining_capacity p"
    "pc_push_encrypted (take k buf) (encryptor w) p = (res, c, p')"
  shows "res = Inr () \<and> cw_ok ok acc ks p0 off (w\<lparr>encryptor := c, cw_state := Flushing p'\<rparr>) \<and>
    cw_acc acc ks p0 off (w\<lparr>encryptor := c, cw_state := Flushing p'\<rparr>) = cw_acc acc ks p0 off w @ take k buf"
proof -
  let ?d = "ctr_xor ks (ctr_pos (encryptor w)) (take k buf)"
  define p1 where "p1 = (if 0 < pc_pos p \<and> pc_max_len p < length (pc_buf p) + k then pc_compact p else p)"
  have p: "pc_pos p \<le> length (pc_buf p)" "pc_max_len p = max_pending_write w" "pc_pending_len p \<le> max_pending_write w"
    and w: "ok (cw_upstream w)" "off \<le> length (acc (cw_upstream w))" "ctr_stream (encryptor w) = ks"
      "ctr_pos (encryptor w) = p0 + length (cw_cipher acc off w)" "0 < max_pending_write w"
    using assms(1,2) by (simp_all add: cw_ok_def)
  have p1: "pc_pending_slice p1 = pc_pending_slice p" "pc_pos p1 \<le> length (pc_buf p1)" "pc_max_len p1 = pc_max_len p"
    using p by (auto simp: p1_def pc_compact_def pc_pending_slice_def)
  have nz: "take k buf \<noteq> []" "length (take k buf) = k" using assms(3,4) by auto
  have r: "res = Inr ()" "c = (encryptor w)\<lparr>ctr_pos := ctr_pos (encryptor w) + k\<rparr>" "p' = p1\<lparr>pc_buf := pc_buf p1 @ ?d\<rparr>"
    using assms(5,6) nz w(3) by (auto simp: pc_push_encrypted_def ctr_apply_def Let_def p1_def)
  have sl: "pc_pending_slice p' = pc_pending_slice p @ ?d" using r(3) p1(1,2) by (simp add: pc_pending_slice_def)
  then have "cw_cipher acc off (w\<lparr>encryptor := c, cw_state := Flushing p'\<rparr>) = cw_cipher acc off w @ ?d"
    using assms(2) w(2) by (simp add: cw_cipher_def cw_unsent_def)
  moreover have "pc_pending_len p' \<le> max_pending_write w"
    using sl pc_slice_length [of p'] pc_slice_length [of p] assms(5) p nz by (simp add: pc_remaining_capacity_def)
  moreover have "ctr_xor ks p0 (cw_cipher acc off w @ ?d) = ctr_xor ks p0 (cw_cipher acc off w) @ take k buf"
    by (simp add: ctr_xor_append w(4))
  ultimately show ?thesis using r w p p1 nz by (simp add: cw_ok_def cw_acc_def)
qed

lemma buffered_spec:
  assumes "cw_ok ok acc ks p0 off w" "cw_state w = Flushing p" "d \<noteq> []" "crypto_write_buffered w d = (r, v)"
  shows "(r = Pending \<longrightarrow> v = w) \<and>
    (r = Ready_Ok n \<longrightarrow> cw_ok ok acc ks p0 off v \<and> n \<le> length d \<and> cw_acc acc ks p0 off v = cw_acc acc ks p0 off w @ take n d)"
proof (cases "pc_remaining_capacity p = 0")
  case True
  then have "select_to_accept_for_buffering (cw_state w) (length d) (max_pending_write w) = 0"
    using assms(2) by (simp add: select_to_accept_for_buffering_def)
  then have "crypto_write_buffered w d = (Pending, w)" by (simp add: crypto_write_buffered_def)
  then show ?thesis using assms(4) by auto
next
  case False
  define k where "k = min (length d) (pc_remaining_capacity p)"
  have k: "0 < k" "k \<le> length d" "k \<le> pc_remaining_capacity p" using False assms(3) by (auto simp: k_def)
  obtain res c p' where x: "pc_push_encrypted (take k d) (encryptor w) p = (res, c, p')"
    by (cases "pc_push_encrypted (take k d) (encryptor w) p")
  note s = push_pending_spec [OF assms(1,2) k x]
  have "select_to_accept_for_buffering (cw_state w) (length d) (max_pending_write w) = k"
      "ensure_pending (cw_state w) (max_pending_write w) = p"
    using assms(2,3) by (simp_all add: select_to_accept_for_buffering_def ensure_pending_def k_def)
  then have "crypto_write_buffered w d = (Ready_Ok k, w\<lparr>encryptor := c, cw_state := Flushing p'\<rparr>)"
    using k(1) x s unfolding crypto_write_buffered_def Let_def by simp
  then show ?thesis using assms(4) s k(2) by auto
qed

text \<open>What one call amounts to, by what has become of the pending ciphertext.\<close>

lemma crypto_write_cases:
  assumes "cw_ok ok acc ks p0 off w" "d \<noteq> []" "crypto_poll_write ops w d = (r, v)"
  obtains (through) w' where "cw_ok ok acc ks p0 off w'" "cw_state w' = CW_Idle"
      "cw_cipher acc off w' = cw_cipher acc off w" "crypto_write_through ops w' d = (r, v)"
  | (buffer) w' p where "cw_ok ok acc ks p0 off w'" "cw_state w' = Flushing p"
      "cw_cipher acc off w' = cw_cipher acc off w"
      "crypto_write_buffered w' d = (r, v)"
  | (failed) e where "r = Ready_Err e"
proof (cases "cw_state w")
  case CW_Idle
  then show thesis using through [of w] assms by (simp add: crypto_poll_write_def)
next
  case (CW_Poisoned e)
  then show thesis using assms(1) by (simp add: cw_ok_def)
next
  case (Flushing p)
  obtain q w' where f: "poll_flush_pending ops w = (q, w')" by fastforce
  note fl = flush_pending_spec [OF assms(1) f]
  show thesis
  proof (cases q)
    case Pending
    then obtain p' where "cw_ok ok acc ks p0 off w'" "cw_cipher acc off w' = cw_cipher acc off w" "cw_state w' = Flushing p'"
      using fl by blast
    then show thesis using buffer [of w' p'] assms(2,3) Flushing f Pending
      by (simp add: crypto_poll_write_def)
  next
    case (Ready_Ok x)
    then show thesis using through [of w'] fl assms(2,3) Flushing f by (simp add: crypto_poll_write_def)
  next
    case (Ready_Err e)
    then show thesis using failed [of e] assms(2,3) Flushing f by (simp add: crypto_poll_write_def)
  qed
qed

lemma crypto_flush_cases:
  assumes "cw_ok ok acc ks p0 off w" "crypto_poll_flush ops w = (r, v)"
  obtains (through) w' u where "cw_ok ok acc ks p0 off w'" "cw_state w' = CW_Idle"
      "cw_cipher acc off w' = cw_cipher acc off w" "op_flush ops (cw_upstream w') = (r, u)" "v = w'\<lparr>cw_upstream := u\<rparr>"
  | (blocked) "r = Pending" "cw_ok ok acc ks p0 off v" "cw_cipher acc off v = cw_cipher acc off w"
  | (failed) e where "r = Ready_Err e"
proof -
  obtain q w' where f: "poll_flush_pending ops w = (q, w')" by fastforce
  obtain p u where u: "op_flush ops (cw_upstream w') = (p, u)" by fastforce
  note fl = flush_pending_spec [OF assms(1) f]
  have np: "crypto_poll_flush ops w = (case q of Pending \<Rightarrow> (Pending, w') | Ready_Err e \<Rightarrow> (Ready_Err e, w')
      | Ready_Ok _ \<Rightarrow> (p, w'\<lparr>cw_upstream := u\<rparr>))"
    using assms(1) f u by (cases "cw_state w") (auto simp: crypto_poll_flush_def cw_ok_def split: poll.split)
  show thesis
  proof (cases q)
    case Pending
    then show thesis using blocked np fl assms(2) by simp
  next
    case (Ready_Ok x)
    then show thesis using through [of w' u] np fl assms(2) u by simp
  next
    case (Ready_Err e)
    then show thesis using failed [of e] np assms(2) by simp
  qed
qed

lemma crypto_async_write:
  "async_write (crypto_writer_ops ops) (cw_ok ok acc ks p0 off) (cw_acc acc ks p0 off) (cw_settled settled)"
proof
  fix w v :: "'u CryptoWriter" and d :: bytes and n x
  assume w: "cw_ok ok acc ks p0 off w"
  show "cw_ok ok acc ks p0 off v \<and> n \<le> length d \<and> cw_acc acc ks p0 off v = cw_acc acc ks p0 off w @ take n d"
    if d: "d \<noteq> []" and o: "op_write (crypto_writer_ops ops) w d = (Ready_Ok n, v)"
  proof -
    have "crypto_poll_write ops w d = (Ready_Ok n, v)" using o by (simp add: crypto_writer_ops_def)
    from w d this show ?thesis
    proof (cases rule: crypto_write_cases)
      case (through w')
      from write_through_spec(2) [OF through(1,2) d through(4) refl] show ?thesis using through(3) by (simp add: cw_acc_def)
    next
      case (buffer w' p)
      from buffered_spec [OF buffer(1,2) d buffer(4), of n] show ?thesis using buffer(3) by (simp add: cw_acc_def)
    qed simp
  qed
  show "cw_ok ok acc ks p0 off v \<and> cw_acc acc ks p0 off v = cw_acc acc ks p0 off w"
    if d: "d \<noteq> []" and o: "op_write (crypto_writer_ops ops) w d = (Pending, v)"
  proof -
    have "crypto_poll_write ops w d = (Pending, v)" using o by (simp add: crypto_writer_ops_def)
    from w d this show ?thesis
    proof (cases rule: crypto_write_cases)
      case (through w')
      from write_through_spec(1) [OF through(1,2) d through(4)] show ?thesis by simp
    next
      case (buffer w' p)
      from buffered_spec [OF buffer(1,2) d buffer(4)] show ?thesis using buffer(1,3) by (simp add: cw_acc_def)
    qed simp
  qed
  show "cw_ok ok acc ks p0 off v \<and> cw_acc acc ks p0 off v = cw_acc acc ks p0 off w \<and> cw_settled settled v"
    if o: "op_flush (crypto_writer_ops ops) w = (Ready_Ok x, v)"
  proof -
    have "crypto_poll_flush ops w = (Ready_Ok x, v)" using o by (simp add: crypto_writer_ops_def)
    from w this show ?thesis
    proof (cases rule: crypto_flush_cases)
      case (through w' u)
      have "ok (cw_upstream w')" using through(1) by (simp add: cw_ok_def)
      note l = flush_ok [OF this through(4)]
      have c: "cw_cipher acc off v = cw_cipher acc off w'" using l through(5) by (simp add: cw_cipher_def cw_unsent_def)
      then have "cw_ok ok acc ks p0 off v" using through(1,2,5) l by (simp add: cw_ok_def)
      then show ?thesis using c through(2,3,5) l by (simp add: cw_acc_def cw_settled_def cw_unsent_def)
    qed simp_all
  qed
  show "cw_ok ok acc ks p0 off v \<and> cw_acc acc ks p0 off v = cw_acc acc ks p0 off w"
    if o: "op_flush (crypto_writer_ops ops) w = (Pending, v)"
  proof -
    have "crypto_poll_flush ops w = (Pending, v)" using o by (simp add: crypto_writer_ops_def)
    from w this show ?thesis
    proof (cases rule: crypto_flush_cases)
      case (through w' u)
      have "ok (cw_upstream w')" using through(1) by (simp add: cw_ok_def)
      note l = flush_pending [OF this through(4)]
      have c: "cw_cipher acc off v = cw_cipher acc off w'" using l through(5) by (simp add: cw_cipher_def cw_unsent_def)
      then have "cw_ok ok acc ks p0 off v" using through(1,2,5) l by (simp add: cw_ok_def)
      then show ?thesis using c through(3) by (simp add: cw_acc_def)
    qed (simp_all add: cw_acc_def)
  qed
qed

end

end
