(* ===== verification/Stream_Claims.thy ===== *)
theory Stream_Claims
  imports Stream_Stack
begin

text \<open>
  What the stream wrappers promise over a socket: the FakeTLS reader delivers the payloads whatever
  way the bytes arrive, the stack of wrappers is a faithful channel, record sizes follow the
  selected profile, and ciphertext waiting for the socket is bounded.
\<close>

interpretation csock: async_read "crypto_poll_read (tls_poll_read sock_read)" "crypto_ok (tls_ok (\<lambda>_. True))"
  "crypto_rest (tls_rest sock_rest sock_fin)" "crypto_fin (tls_fin sock_rest sock_fin)"
  "\<lambda>r. sock_budget (r_upstream (cr_upstream r))"
  by (rule tsock.crypto_async_read)

interpretation csnk: async_write "crypto_writer_ops (tls_writer_ops sink_ops)"
  "cw_ok (tlsw_ok (\<lambda>_. True) sink_out) (tls_acc sink_out) ks p0 off" "cw_acc (tls_acc sink_out) ks p0 off"
  "cw_settled (tls_settled (\<lambda>_. True))" for ks p0 off
  by (rule tsnk.crypto_async_write)

section \<open>The FakeTLS reader\<close>

lemma fresh_reader [simp]:
  "tls_ok ok (FakeTlsReader_new u) = ok u"
  "tls_rest rest fin (FakeTlsReader_new u) = fst (unwrap (rest u) (fin u))"
  "tls_fin rest fin (FakeTlsReader_new u) = snd (unwrap (rest u) (fin u))"
  "r_upstream (FakeTlsReader_new u) = u"
  by (simp_all add: FakeTlsReader_new_def tls_ok_def tls_rest_def tls_fin_def tls_view_def Let_def)

text \<open>C2.
  The FakeTLS reader implements the reference \<open>unwrap\<close> for every way the bytes may arrive: in
  chunks of any size, with the socket not ready any number of times, into buffers of any size.
  Every poll returns; what has been delivered is always a prefix of the reference's payload, once
  the reader reports its end it is all of it and the end is the reference's (end of file or the
  error), and that happens after at most one poll per payload byte and per time the socket was not
  ready, plus one.
\<close>

theorem tls_reader_refines_unwrap:
  assumes "list_all ((<) 0) ns"
  shows "\<exists>ds r. read_polls (tls_poll_read sock_read) ns (FakeTlsReader_new es) = Some (ds, r) \<and>
    (case r of
       None \<Rightarrow> prefix ds (fst (unwrap (sock_rest es) (sock_fin es))) \<and>
         length ns \<le> length (fst (unwrap (sock_rest es) (sock_fin es))) + sock_budget es
     | Some f \<Rightarrow> (ds, f) = unwrap (sock_rest es) (sock_fin es))"
proof -
  have "\<forall>n\<in>set ns. 0 < n" using assms by (simp add: list_all_iff)
  then obtain ds r where r: "read_polls (tls_poll_read sock_read) ns (FakeTlsReader_new es) = Some (ds, r)"
      "r = None \<longrightarrow> prefix ds (fst (unwrap (sock_rest es) (sock_fin es))) \<and> length ns \<le> length ds + sock_budget es"
      "\<forall>f. r = Some f \<longrightarrow> ds = fst (unwrap (sock_rest es) (sock_fin es)) \<and> f = snd (unwrap (sock_rest es) (sock_fin es))"
    using tsock.polls_deliver [of "FakeTlsReader_new es" ns] by auto
  then show ?thesis
    using prefix_length_le [of ds "fst (unwrap (sock_rest es) (sock_fin es))"]
    by (intro exI [of _ ds] exI [of _ r]) (auto split: option.split)
qed

text \<open>A change-cipher record and a two-byte payload, split in the middle of the second header.\<close>

definition demo_events :: "sock_event list" where
  "demo_events = [S_Data [0x14, 3, 3, 0, 1, 1, 0x17, 3], S_Pending, S_Data [3, 0, 2, 7, 9]]"

lemma demo_unwrap: "unwrap (sock_rest demo_events) (sock_fin demo_events) = ([7, 9], None)"
proof -
  have "sock_rest demo_events = [0x14, 3, 3, 0, 1, 1] @ record_of [7, 9]" "sock_fin demo_events = None"
    by (simp_all add: demo_events_def record_of_def th_to_bytes_def TLS_RECORD_APPLICATION_def TLS_VERSION_def)
  moreover have "unwrap ([0x14, 3, 3, 0, 1, 1] @ s) f = unwrap s f" for s f
    by (subst unwrap.simps)
      (simp add: th_validate_def Let_def be16_def TLS_VERSION_def TLS_RECORD_CHANGE_CIPHER_def
        TLS_RECORD_APPLICATION_def TLS_RECORD_HANDSHAKE_def)
  moreover have "unwrap (record_of [7, 9]) None = ([7, 9], None)"
    using unwrap_record [of "[7, 9]" "[]" None] by (simp add: payload_ok_def MAX_TLS_PAYLOAD_def MAX_TLS_CIPHERTEXT_SIZE_def)
  ultimately show ?thesis by simp
qed

theorem tls_reader_refines_unwrap_witness:
  "read_polls (tls_poll_read sock_read) [1, 4, 4, 4] (FakeTlsReader_new demo_events) = Some ([7, 9], Some None)"
proof -
  have "sock_budget demo_events = 1" by (simp add: sock_budget_def demo_events_def)
  then show ?thesis
    using tls_reader_refines_unwrap [of "[1, 4, 4, 4]" demo_events] by (auto simp: demo_unwrap split: option.splits)
qed

text \<open>C29.
  \<open>read_exact\<close> through the FakeTLS layer always returns: the first \<open>n\<close> payload bytes when the
  stream has that many, across records, and otherwise the error that ended the stream, which is
  \<open>UnexpectedEof\<close> for an end of file.
\<close>

theorem tls_read_exact_returns:
  "\<exists>r. tls_read_exact sock_read n (FakeTlsReader_new es) =
     Some (let (plain, end) = unwrap (sock_rest es) (sock_fin es) in
           if n \<le> length plain then Inr (take n plain)
           else Inl (case end of None \<Rightarrow> UnexpectedEof | Some e \<Rightarrow> e), r)"
proof -
  have "\<not> reader_is_poisoned (FakeTlsReader_new es)"
    by (simp add: reader_is_poisoned_def FakeTlsReader_new_def)
  then show ?thesis
    using tsock.read_exact_spec [of "FakeTlsReader_new es" "[]" n]
    by (auto simp: tls_read_exact_def Let_def split_beta)
qed

section \<open>The stack\<close>

lemma fresh_writer:
  assumes "sink_out k = []" "ctr_stream c = ks" "ctr_pos c = p0"
  shows "cw_ok (tlsw_ok (\<lambda>_. True) sink_out) (tls_acc sink_out) ks p0 0
      (CryptoWriter_new (FakeTlsWriter_with_profile k profile seed) c max_pending)"
    "cw_acc (tls_acc sink_out) ks p0 0 (CryptoWriter_new (FakeTlsWriter_with_profile k profile seed) c max_pending) = []"
proof -
  have "framed []" unfolding framed_def by (intro exI [of _ "[]"]) simp
  then show "cw_ok (tlsw_ok (\<lambda>_. True) sink_out) (tls_acc sink_out) ks p0 0
      (CryptoWriter_new (FakeTlsWriter_with_profile k profile seed) c max_pending)"
    "cw_acc (tls_acc sink_out) ks p0 0 (CryptoWriter_new (FakeTlsWriter_with_profile k profile seed) c max_pending) = []"
    using assms
    by (simp_all add: cw_ok_def tlsw_ok_def cw_acc_def tls_acc_def tls_wire_def unsent_def cw_cipher_def cw_unsent_def
        CryptoWriter_new_def FakeTlsWriter_with_profile_def)
qed

text \<open>C1.
  The stack of wrappers is a faithful channel.  Whatever buffers are written to a cipher over
  FakeTLS over a socket, with whatever record profile and however little the socket takes per write,
  once the writer is flushed the bytes on the wire carry exactly the accepted plaintext: a peer with
  the same key stream that reads them through the inverse stack, in any chunks and into buffers of
  any size, gets the accepted bytes in order, then a clean end of file.
\<close>

theorem stack_roundtrip:
  assumes "sink_out k = []" "list_all ((\<noteq>) []) ds"
    and "write_polls (crypto_writer_ops (tls_writer_ops sink_ops)) ds
          (CryptoWriter_new (FakeTlsWriter_with_profile k profile seed) c max_pending) = Some (a, w)"
    and "crypto_poll_flush (tls_writer_ops sink_ops) w = (Ready_Ok x, w')"
    and "sock_rest es = sink_out (w_upstream (cw_upstream w'))" "sock_fin es = None"
    and "list_all ((<) 0) ns" "length a + sock_budget es < length ns"
  shows "read_polls (crypto_poll_read (tls_poll_read sock_read)) ns (CryptoReader_new (FakeTlsReader_new es) c) =
    Some (a, Some None)"
proof -
  let ?ok = "cw_ok (tlsw_ok (\<lambda>_. True) sink_out) (tls_acc sink_out) (ctr_stream c) (ctr_pos c) 0"
  let ?acc = "cw_acc (tls_acc sink_out) (ctr_stream c) (ctr_pos c) 0"
  have "\<forall>d\<in>set ds. d \<noteq> []" using assms(2) by (auto simp: list_all_iff)
  then have w: "?ok w" "?acc w = a"
    using csnk.polls_accept [OF fresh_writer(1) [OF assms(1) refl refl] _ assms(3)] fresh_writer(2) [OF assms(1) refl refl]
    by simp_all
  have "op_flush (crypto_writer_ops (tls_writer_ops sink_ops)) w = (Ready_Ok x, w')"
    using assms(4) by (simp add: crypto_writer_ops_def)
  from csnk.flush_ok [OF w(1) this] have w': "?ok w'" "?acc w' = a" "cw_settled (tls_settled (\<lambda>_. True)) w'" using w(2) by auto
  then have wire: "tls_acc sink_out (cw_upstream w') = fst (unwrap (sock_rest es) None)" "framed (sock_rest es)"
    using assms(5) by (auto simp: cw_settled_def tls_settled_def tls_acc_def tls_wire_def cw_ok_def tlsw_ok_def)
  let ?r = "CryptoReader_new (FakeTlsReader_new es) c"
  have "crypto_rest (tls_rest sock_rest sock_fin) ?r = a" "crypto_fin (tls_fin sock_rest sock_fin) ?r = None"
      "crypto_ok (tls_ok (\<lambda>_. True)) ?r"
    using w' wire assms(6) framed_clean [OF wire(2)]
    by (simp_all add: CryptoReader_new_def crypto_rest_def crypto_fin_def crypto_ok_def cw_acc_def cw_cipher_def cw_settled_def)
  then show ?thesis
    using csock.polls_finish [of ?r ns] assms(7,8) by (simp add: list_all_iff CryptoReader_new_def)
qed

definition demo_cipher :: AesCtr where
  "demo_cipher = \<lparr>ctr_stream = \<lambda>_. 0xff, ctr_pos = 0\<rparr>"

definition demo_sink :: sink where
  "demo_sink = \<lparr>sink_out = [], sink_script = [K_Accept 3, K_Accept 100]\<rparr>"

lemmas stack_eval = crypto_poll_write_def crypto_write_through_def ctr_apply_def CryptoWriter_new_def
  FakeTlsWriter_with_profile_def demo_cipher_def demo_sink_def tls_poll_write_def tls_finish_record_def
  next_record_payload_limit_def writer_build_record_def th_to_bytes_def crypto_writer_ops_def tls_writer_ops_def
  sink_ops_def sink_write_def sink_flush_def Let_def MAX_TLS_PAYLOAD_def MAX_TLS_CIPHERTEXT_SIZE_def
  TLS_VERSION_def TLS_RECORD_APPLICATION_def recycle_record_buffer_def crypto_poll_flush_def tls_poll_flush_def
  poll_flush_pending.simps poll_flush_record_inner.simps

lemma demo_stack:
  "\<exists>w w'. write_polls (crypto_writer_ops (tls_writer_ops sink_ops)) [[1, 2]]
       (CryptoWriter_new (FakeTlsWriter_with_profile demo_sink Legacy 1) demo_cipher 0) = Some ([1, 2], w) \<and>
     crypto_poll_flush (tls_writer_ops sink_ops) w = (Ready_Ok (), w') \<and>
     sink_out (w_upstream (cw_upstream w')) = [0x17, 3, 3, 0, 2, 0xfe, 0xfd]"
  by (simp add: stack_eval)

theorem stack_roundtrip_witness:
  "read_polls (crypto_poll_read (tls_poll_read sock_read)) [1, 1, 1, 1]
     (CryptoReader_new (FakeTlsReader_new [S_Data [0x17, 3, 3], S_Pending, S_Data [0, 2, 0xfe, 0xfd]]) demo_cipher) =
   Some ([1, 2], Some None)"
proof -
  obtain w w' where w: "write_polls (crypto_writer_ops (tls_writer_ops sink_ops)) [[1, 2]]
       (CryptoWriter_new (FakeTlsWriter_with_profile demo_sink Legacy 1) demo_cipher 0) = Some ([1, 2], w)"
      "crypto_poll_flush (tls_writer_ops sink_ops) w = (Ready_Ok (), w')"
      "sink_out (w_upstream (cw_upstream w')) = [0x17, 3, 3, 0, 2, 0xfe, 0xfd]"
    using demo_stack by blast
  show ?thesis
    by (rule stack_roundtrip [OF _ _ w(1,2)]) (simp_all add: w(3) demo_sink_def sock_budget_def)
qed

text \<open>C30.
  The cipher's writer never drifts and never buffers more than allowed.  After any writes without an
  error the key stream has advanced by exactly the number of accepted bytes, and the ciphertext
  waiting for the stream below is within the configured bound.
\<close>

theorem crypto_writer_bounded:
  assumes "sink_out k = []" "list_all ((\<noteq>) []) ds"
    and "write_polls (crypto_writer_ops (tls_writer_ops sink_ops)) ds
          (CryptoWriter_new (FakeTlsWriter_with_profile k profile seed) c max_pending) = Some (a, w)"
  shows "ctr_pos (encryptor w) = ctr_pos c + length a \<and> cw_pending_len w \<le> max_pending_write w"
proof -
  let ?ok = "cw_ok (tlsw_ok (\<lambda>_. True) sink_out) (tls_acc sink_out) (ctr_stream c) (ctr_pos c) 0"
  have "\<forall>d\<in>set ds. d \<noteq> []" using assms(2) by (auto simp: list_all_iff)
  then have w: "?ok w" "cw_acc (tls_acc sink_out) (ctr_stream c) (ctr_pos c) 0 w = a"
    using csnk.polls_accept [OF fresh_writer(1) [OF assms(1) refl refl] _ assms(3)] fresh_writer(2) [OF assms(1) refl refl]
    by simp_all
  then have "length (cw_cipher (tls_acc sink_out) 0 w) = length a" by (auto simp: cw_acc_def)
  then show ?thesis using w(1) by (auto simp: cw_ok_def cw_pending_len_def split: CryptoWriterState.splits)
qed

theorem crypto_writer_bounded_witness:
  "\<exists>w. write_polls (crypto_writer_ops (tls_writer_ops sink_ops)) [[1, 2]]
       (CryptoWriter_new (FakeTlsWriter_with_profile demo_sink Legacy 1) demo_cipher 0) = Some ([1, 2], w) \<and>
     ctr_pos (encryptor w) = 2 \<and> cw_pending_len w \<le> max_pending_write w"
proof -
  obtain w where w: "write_polls (crypto_writer_ops (tls_writer_ops sink_ops)) [[1, 2]]
       (CryptoWriter_new (FakeTlsWriter_with_profile demo_sink Legacy 1) demo_cipher 0) = Some ([1, 2], w)"
    using demo_stack by blast
  then show ?thesis
    using crypto_writer_bounded [OF _ _ w] by (simp add: demo_sink_def demo_cipher_def)
qed

section \<open>Record sizes and shutdown\<close>

text \<open>C32.
  Record payloads stay within the phase of the selected profile: for each profile and record index
  the limit lies within the jitter radius of the phase's base size; it is never below 512 bytes nor
  above the largest TLS record.
\<close>

theorem record_limit_phases:
  "let (limit, w') = next_record_payload_limit w; i = record_index w in
   512 \<le> limit \<and> limit \<le> MAX_TLS_PAYLOAD \<and> record_index w' = min U32_MAX (i + 1) \<and>
   (case record_profile w of
      Chrome \<Rightarrow> if i < 32 then 1330 \<le> limit \<and> limit \<le> 1570
        else if i < 48 then 3712 \<le> limit \<and> limit \<le> 4480 else 14960 \<le> limit \<and> limit \<le> 16240
    | Firefox \<Rightarrow> if i < 16 then 1140 \<le> limit \<and> limit \<le> 1460
        else if i < 48 then 7680 \<le> limit \<and> limit \<le> 8704 else 15680 \<le> limit \<and> limit \<le> 16320
    | Compat \<Rightarrow> if i < 24 then 1304 \<le> limit \<and> limit \<le> 1496 else 7936 \<le> limit \<and> limit \<le> 8448
    | Legacy \<Rightarrow> limit = MAX_TLS_PAYLOAD)"
proof -
  define w1 where "w1 = w\<lparr>record_index := sat_add U32_MAX (record_index w) 1\<rparr>"
  have j: "record_index (snd (jittered_limit b n w1)) = min U32_MAX (record_index w + 1)" for b n
    by (simp add: jittered_limit_def next_jitter_def Let_def w1_def sat_add_def)
  have m: "MAX_TLS_PAYLOAD = 16640" by (simp add: MAX_TLS_PAYLOAD_def MAX_TLS_CIPHERTEXT_SIZE_def)
  note spec = jittered_limit_spec [of 120 1450 w1] jittered_limit_spec [of 384 4096 w1] jittered_limit_spec [of 640 15600 w1]
    jittered_limit_spec [of 160 1300 w1] jittered_limit_spec [of 512 8192 w1] jittered_limit_spec [of 320 16000 w1]
    jittered_limit_spec [of 96 1400 w1] jittered_limit_spec [of 256 8192 w1]
  have e: "next_record_payload_limit w = (case record_profile w of
          Chrome \<Rightarrow> if record_index w < 32 then jittered_limit 1450 120 w1
            else if record_index w < 48 then jittered_limit 4096 384 w1 else jittered_limit 15600 640 w1
        | Firefox \<Rightarrow> if record_index w < 16 then jittered_limit 1300 160 w1
            else if record_index w < 48 then jittered_limit 8192 512 w1 else jittered_limit 16000 320 w1
        | Compat \<Rightarrow> if record_index w < 24 then jittered_limit 1400 96 w1 else jittered_limit 8192 256 w1
        | Legacy \<Rightarrow> (MAX_TLS_PAYLOAD, w1))"
    by (cases "record_profile w") (simp_all add: next_record_payload_limit_def Let_def w1_def)
  have "record_index w1 = min U32_MAX (record_index w + 1)" by (simp add: w1_def sat_add_def)
  then show ?thesis using spec j next_limit [of w] unfolding Let_def split_beta e m
    by (cases "record_profile w") simp_all
qed

text \<open>A write that stops in a record, a writer that is poisoned, and one that is idle.\<close>

lemma flush_error_inside:
  "poll_flush_record_inner ops u rec position = (F_Error e, v, p) \<Longrightarrow> position \<le> p \<and> p < length rec"
proof (induction ops u rec position rule: poll_flush_record_inner.induct)
  case (1 ops u rec position)
  then show ?case
    by (subst (asm) (2) poll_flush_record_inner.simps) (fastforce split: if_splits prod.splits poll.splits)
qed

lemma poisoned_calls:
  assumes "w_state w = W_Poisoned e"
  shows "tls_poll_write ops w buf = (Ready_Err (case e of Some k \<Rightarrow> k | None \<Rightarrow> Other), w\<lparr>w_state := W_Poisoned None\<rparr>)"
    "tls_poll_flush ops w = (Ready_Err (case e of Some k \<Rightarrow> k | None \<Rightarrow> Other), w\<lparr>w_state := W_Poisoned None\<rparr>)"
    "tls_poll_shutdown ops w =
      (fst (op_shutdown ops (w_upstream w)), w\<lparr>w_state := W_Idle, w_upstream := snd (op_shutdown ops (w_upstream w))\<rparr>)"
  using assms by (simp_all add: tls_poll_write_def tls_poll_flush_def tls_poll_shutdown_def tls_finish_record_def split_def Let_def)

lemma idle_write:
  assumes "w_state w = W_Idle" "buf \<noteq> []"
  defines "k \<equiv> min (length buf) (fst (next_record_payload_limit w))"
  shows "0 < k" "fst (tls_poll_write ops w buf) =
      (case fst (op_write ops (w_upstream w) (record_of (take k buf))) of Ready_Err e \<Rightarrow> Ready_Err e | _ \<Rightarrow> Ready_Ok k)"
    "w_upstream (snd (tls_poll_write ops w buf)) = snd (op_write ops (w_upstream w) (record_of (take k buf)))"
proof -
  show "0 < k" using next_limit(1) [of w] assms(2) by (simp add: k_def)
  have rb: "record_buffer (writer_build_record d (snd (next_record_payload_limit w))) = record_of d" for d
    by (simp add: writer_build_record_def record_of_def Let_def)
  have up: "w_upstream (writer_build_record d (snd (next_record_payload_limit w))) = w_upstream w" for d
    by (simp add: writer_build_record_def Let_def)
  show "fst (tls_poll_write ops w buf) =
      (case fst (op_write ops (w_upstream w) (record_of (take k buf))) of Ready_Err e \<Rightarrow> Ready_Err e | _ \<Rightarrow> Ready_Ok k)"
    "w_upstream (snd (tls_poll_write ops w buf)) = snd (op_write ops (w_upstream w) (record_of (take k buf)))"
    using assms(1,2)
    by (auto simp: tls_poll_write_def tls_finish_record_def k_def Let_def split_def rb up recycle_record_buffer_def
        writer_poison_def split: poll.split)
qed

text \<open>C33.
  Shutting a writer down clears its poison.  Take any stream below and a writer in the middle of a
  record.  If the stream fails, so that the record is cut short on the wire, the writer reports the error
  and is poisoned: it refuses to write and to flush, again and again, without touching the stream.  After
  \<open>poll_shutdown\<close> it is idle, although the stream below has not been replaced: the next write is
  accepted and hands a new record, from its header on, to the stream behind the torn one.
\<close>

theorem shutdown_clears_poison:
  assumes "w_state w = WritingRecord position n" "poll_flush_record_inner ops (w_upstream w) (record_buffer w) position = (F_Error e, u, torn)"
    and "op_shutdown ops u = (r, v)" "buf \<noteq> []"
  shows "torn < length (record_buffer w) \<and>
    (\<exists>w1 w2. tls_poll_write ops w buf = (Ready_Err e, w1) \<and> w_upstream w1 = u \<and> w_state w1 = W_Poisoned (Some e) \<and>
      tls_poll_write ops w1 buf = (Ready_Err e, w1\<lparr>w_state := W_Poisoned None\<rparr>) \<and>
      (\<forall>p. w_state p = W_Poisoned None \<longrightarrow> tls_poll_write ops p buf = (Ready_Err Other, p) \<and> tls_poll_flush ops p = (Ready_Err Other, p)) \<and>
      tls_poll_shutdown ops (w1\<lparr>w_state := W_Poisoned None\<rparr>) = (r, w2) \<and> w_state w2 = W_Idle \<and>
      (\<exists>k>0. case op_write ops v (record_of (take k buf)) of (q, v') \<Rightarrow>
         fst (tls_poll_write ops w2 buf) = (case q of Ready_Err e' \<Rightarrow> Ready_Err e' | _ \<Rightarrow> Ready_Ok k) \<and>
         w_upstream (snd (tls_poll_write ops w2 buf)) = v'))"
proof -
  define w1 where "w1 = writer_poison e (w\<lparr>w_upstream := u\<rparr>)"
  define w2 where "w2 = w1\<lparr>w_state := W_Idle, w_upstream := v\<rparr>"
  have w1: "w_upstream w1 = u" "w_state w1 = W_Poisoned (Some e)" by (simp_all add: w1_def writer_poison_def)
  have idle: "w_state w2 = W_Idle" "w_upstream w2 = v" by (simp_all add: w2_def)
  have failed: "tls_poll_write ops w buf = (Ready_Err e, w1)"
    using assms(1,2) by (simp add: tls_poll_write_def tls_finish_record_def w1_def)
  have refused: "tls_poll_write ops w1 buf = (Ready_Err e, w1\<lparr>w_state := W_Poisoned None\<rparr>)"
    using poisoned_calls(1) [OF w1(2)] by simp
  have still: "tls_poll_write ops p buf = (Ready_Err Other, p) \<and> tls_poll_flush ops p = (Ready_Err Other, p)"
    if "w_state p = W_Poisoned None" for p
    using poisoned_calls(1,2) [OF that, of ops] that by simp
  have shut: "tls_poll_shutdown ops (w1\<lparr>w_state := W_Poisoned None\<rparr>) = (r, w2)"
    using poisoned_calls(3) [of "w1\<lparr>w_state := W_Poisoned None\<rparr>" None ops] assms(3) w1 by (simp add: w2_def)
  note wr = idle_write [OF idle(1) assms(4), unfolded idle(2)]
  have again: "\<exists>k>0. case op_write ops v (record_of (take k buf)) of (q, v') \<Rightarrow>
         fst (tls_poll_write ops w2 buf) = (case q of Ready_Err e' \<Rightarrow> Ready_Err e' | _ \<Rightarrow> Ready_Ok k) \<and>
         w_upstream (snd (tls_poll_write ops w2 buf)) = v'"
    unfolding split_def by (intro exI conjI, rule wr(1), rule wr(2), rule wr(3))
  show ?thesis
    by (intro conjI exI [of _ w1] exI [of _ w2] allI impI still again w1 idle(1) failed refused shut
        conjunct2 [OF flush_error_inside [OF assms(2)]])
      (use still in blast)+
qed

theorem shutdown_clears_poison_witness:
  "\<exists>w1 w2. tls_poll_write sink_ops \<lparr>w_upstream = \<lparr>sink_out = [0x17, 3, 3], sink_script = [K_Err (Os_error 104), K_Accept 100]\<rparr>,
        w_state = WritingRecord 3 2, record_buffer = record_of [1, 2], record_profile = Legacy, record_index = 1, jitter_state = 1\<rparr> [5] =
      (Ready_Err (Os_error 104), w1) \<and>
    tls_poll_shutdown sink_ops (w1\<lparr>w_state := W_Poisoned None\<rparr>) = (Ready_Ok (), w2) \<and> w_state w2 = W_Idle"
proof -
  let ?u = "\<lparr>sink_out = [0x17, 3, 3], sink_script = [K_Accept 100]\<rparr>"
  have "poll_flush_record_inner sink_ops \<lparr>sink_out = [0x17, 3, 3], sink_script = [K_Err (Os_error 104), K_Accept 100]\<rparr> (record_of [1, 2]) 3 =
      (F_Error (Os_error 104), ?u, 3)"
    by (subst poll_flush_record_inner.simps) (simp add: record_of_def th_to_bytes_def sink_ops_def sink_write_def TLS_VERSION_def)
  moreover have "op_shutdown sink_ops ?u = (Ready_Ok (), ?u)" by (simp add: sink_ops_def sink_flush_def)
  ultimately show ?thesis
    using shutdown_clears_poison [of "\<lparr>w_upstream = \<lparr>sink_out = [0x17, 3, 3], sink_script = [K_Err (Os_error 104), K_Accept 100]\<rparr>,
        w_state = WritingRecord 3 2, record_buffer = record_of [1, 2], record_profile = Legacy, record_index = 1, jitter_state = 1\<rparr>"
        3 2 sink_ops "Os_error 104" ?u 3 "Ready_Ok ()" ?u "[5]"] by fastforce
qed

end
