(* ===== verification/Obfuscation.thy ===== *)
theory Obfuscation
  imports Framing Crypto_Stream
begin

text \<open>
  The obfuscated MTProto handshake: the 64 bytes a client sends and the keys they determine
  (\<open>src/protocol/obfuscation.rs\<close>), and the 64 bytes the proxy sends to a Telegram server in turn
  (\<open>src/proxy/handshake/nonce.rs\<close>).

  The digest (\<open>sha2\<close>) and the cipher (\<open>aes\<close>, \<open>ctr\<close>) are code outside the repository: byte \<open>i\<close> of the
  digest of \<open>d\<close> is \<open>sha d i\<close>, byte \<open>i\<close> of the key stream is \<open>cipher key iv i\<close>.  An array parameter
  \<open>[u8; N]\<close> is a list of that length.  Erasing key material on drop is not modelled.
\<close>

section \<open>Layout\<close>

definition SKIP_LEN :: nat where "SKIP_LEN = 8"
definition PREKEY_LEN :: nat where "PREKEY_LEN = 32"
definition KEY_LEN :: nat where "KEY_LEN = 32"
definition IV_LEN :: nat where "IV_LEN = 16"
definition HANDSHAKE_LEN :: nat where "HANDSHAKE_LEN = 64"
definition PROTO_TAG_POS :: nat where "PROTO_TAG_POS = 56"
definition DC_IDX_POS :: nat where "DC_IDX_POS = 60"

lemmas layout_defs = SKIP_LEN_def PREKEY_LEN_def KEY_LEN_def IV_LEN_def HANDSHAKE_LEN_def PROTO_TAG_POS_def DC_IDX_POS_def

definition RESERVED_NONCE_FIRST_BYTES :: bytes where "RESERVED_NONCE_FIRST_BYTES = [0xef]"

definition RESERVED_NONCE_BEGINNINGS :: "bytes list" where
  "RESERVED_NONCE_BEGINNINGS = [[0x48, 0x45, 0x41, 0x44], [0x50, 0x4F, 0x53, 0x54], [0x47, 0x45, 0x54, 0x20],
    [0xee, 0xee, 0xee, 0xee], [0xdd, 0xdd, 0xdd, 0xdd], [0x16, 0x03, 0x01, 0x02]]"

definition RESERVED_NONCE_CONTINUES :: "bytes list" where "RESERVED_NONCE_CONTINUES = [[0, 0, 0, 0]]"

definition sha256 :: "(bytes \<Rightarrow> nat \<Rightarrow> byte) \<Rightarrow> bytes \<Rightarrow> bytes" where
  "sha256 sha d = map (sha d) [0..<32]"

definition i16_from_le :: "bytes \<Rightarrow> int" where
  "i16_from_le bs = (let v = int (le_nat bs) in if v < 32768 then v else v - 65536)"

definition i16_to_le :: "int \<Rightarrow> bytes" where
  "i16_to_le d = nat_le 2 (nat (d mod 65536))"

lemma length_sha256 [simp]: "length (sha256 sha d) = 32"
  by (simp add: sha256_def)

lemma length_i16_to_le [simp]: "length (i16_to_le d) = 2"
  by (simp add: i16_to_le_def)

lemma i16_roundtrip [codec_simps, simp]: "- 32768 \<le> d \<Longrightarrow> d < 32768 \<Longrightarrow> i16_from_le (i16_to_le d) = d"
proof -
  assume d: "- 32768 \<le> d" "d < 32768"
  have "d mod 65536 = (if 0 \<le> d then d else d + 65536)"
  proof (cases "0 \<le> d")
    case False
    have "(d + 65536) mod 65536 = d + 65536" using d False by (intro mod_pos_pos_trivial) auto
    then show ?thesis using False by simp
  qed (use d in simp)
  then show ?thesis using d by (auto simp: i16_from_le_def i16_to_le_def Let_def)
qed

section \<open>Parameters of a client (\<open>obfuscation.rs\<close>)\<close>

record ObfuscationParams =
  decrypt_key :: bytes
  decrypt_iv :: nat
  encrypt_key :: bytes
  encrypt_iv :: nat
  op_proto_tag :: ProtoTag
  op_dc_idx :: int

fun from_handshake_loop where
  "from_handshake_loop sha cipher handshake [] = None"
| "from_handshake_loop sha cipher handshake ((username, secret) # secrets) =
    (let dec_prekey_iv = take (PREKEY_LEN + IV_LEN) (drop SKIP_LEN handshake);
         dec_prekey = take PREKEY_LEN dec_prekey_iv;
         dec_iv_bytes = drop PREKEY_LEN dec_prekey_iv;
         enc_prekey_iv = rev dec_prekey_iv;
         enc_prekey = take PREKEY_LEN enc_prekey_iv;
         enc_iv_bytes = drop PREKEY_LEN enc_prekey_iv;
         d_key = sha256 sha (dec_prekey @ secret);
         d_iv = be_nat dec_iv_bytes;
         (decrypted, _) = ctr_decrypt handshake (AesCtr_new cipher d_key d_iv)
     in case ProtoTag_from_bytes (take 4 (drop PROTO_TAG_POS decrypted)) of
          None \<Rightarrow> from_handshake_loop sha cipher handshake secrets
        | Some tag \<Rightarrow>
            Some (\<lparr>decrypt_key = d_key, decrypt_iv = d_iv, encrypt_key = sha256 sha (enc_prekey @ secret),
                   encrypt_iv = be_nat enc_iv_bytes, op_proto_tag = tag,
                   op_dc_idx = i16_from_le (take 2 (drop DC_IDX_POS decrypted))\<rparr>, username))"

definition from_handshake where
  "from_handshake sha cipher handshake secrets = from_handshake_loop sha cipher handshake secrets"

definition create_decryptor where
  "create_decryptor cipher p = AesCtr_new cipher (decrypt_key p) (decrypt_iv p)"

definition create_encryptor where
  "create_encryptor cipher p = AesCtr_new cipher (encrypt_key p) (encrypt_iv p)"

definition enc_key_iv :: "ObfuscationParams \<Rightarrow> bytes" where
  "enc_key_iv p = encrypt_key p @ nat_be 16 (encrypt_iv p)"

definition is_valid_nonce :: "bytes \<Rightarrow> bool" where
  "is_valid_nonce nonce \<longleftrightarrow> \<not> (nonce ! 0 \<in> set RESERVED_NONCE_FIRST_BYTES) \<and>
    \<not> (take 4 nonce \<in> set RESERVED_NONCE_BEGINNINGS) \<and>
    \<not> (take 4 (drop 4 nonce) \<in> set RESERVED_NONCE_CONTINUES)"

text \<open>A loop over a source of random bytes; it returns as soon as the source gives a valid nonce.\<close>

partial_function (option) generate_nonce :: "(nat \<Rightarrow> 's \<Rightarrow> bytes \<times> 's) \<Rightarrow> 's \<Rightarrow> (bytes \<times> 's) option" where
  [code]: "generate_nonce random_bytes s =
    (let (nonce, s) = random_bytes HANDSHAKE_LEN s
     in if length nonce \<noteq> HANDSHAKE_LEN then None
        else if is_valid_nonce nonce then Some (nonce, s) else generate_nonce random_bytes s)"

definition prepare_tg_nonce :: "bytes \<Rightarrow> ProtoTag \<Rightarrow> bytes option \<Rightarrow> bytes rs" where
  "prepare_tg_nonce nonce tag key_iv =
    do { nonce \<leftarrow> splice nonce PROTO_TAG_POS (ProtoTag_to_bytes tag);
         case key_iv of
           None \<Rightarrow> Some nonce
         | Some key_iv \<Rightarrow> if length key_iv = KEY_LEN + IV_LEN then splice nonce SKIP_LEN (rev key_iv) else None }"

text \<open>The deprecated helper, with the key derivation its warning speaks of.\<close>

definition encrypt_nonce where
  "encrypt_nonce sha cipher nonce =
    (let key_iv = take (KEY_LEN + IV_LEN) (drop SKIP_LEN nonce);
         encryptor = AesCtr_new cipher (sha256 sha key_iv) (be_nat (take IV_LEN key_iv));
         (encrypted_part, _) = ctr_encrypt (drop PROTO_TAG_POS nonce) encryptor
     in take PROTO_TAG_POS nonce @ encrypted_part)"

section \<open>The nonce for Telegram (\<open>nonce.rs\<close>)\<close>

definition tg_reserved :: "bytes \<Rightarrow> bool" where
  "tg_reserved nonce \<longleftrightarrow> nonce ! 0 \<in> set RESERVED_NONCE_FIRST_BYTES \<or>
    [nonce ! 0, nonce ! 1, nonce ! 2, nonce ! 3] \<in> set RESERVED_NONCE_BEGINNINGS \<or>
    [nonce ! 4, nonce ! 5, nonce ! 6, nonce ! 7] \<in> set RESERVED_NONCE_CONTINUES"

record tg_nonce =
  tn_nonce :: bytes
  tg_enc_key :: bytes
  tg_enc_iv :: nat
  tg_dec_key :: bytes
  tg_dec_iv :: nat

definition finish_tg_nonce :: "ProtoTag \<Rightarrow> int \<Rightarrow> bytes \<Rightarrow> nat \<Rightarrow> bool \<Rightarrow> bytes \<Rightarrow> tg_nonce rs" where
  "finish_tg_nonce tag dc_idx client_enc_key client_enc_iv fast_mode nonce =
    do { nonce \<leftarrow> splice nonce PROTO_TAG_POS (ProtoTag_to_bytes tag);
         nonce \<leftarrow> splice nonce DC_IDX_POS (i16_to_le dc_idx);
         nonce \<leftarrow> (if fast_mode
           then let key_iv = rev (client_enc_key @ nat_be 16 client_enc_iv) in splice nonce SKIP_LEN key_iv
           else Some nonce);
         enc_key_iv \<leftarrow> slice nonce SKIP_LEN (SKIP_LEN + KEY_LEN + IV_LEN);
         let dec_key_iv = rev enc_key_iv in
         Some \<lparr>tn_nonce = nonce,
           tg_enc_key = take KEY_LEN enc_key_iv, tg_enc_iv = be_nat (drop KEY_LEN enc_key_iv),
           tg_dec_key = take KEY_LEN dec_key_iv, tg_dec_iv = be_nat (drop KEY_LEN dec_key_iv)\<rparr> }"

partial_function (option) generate_tg_nonce ::
  "('s, 'c) rand_ops \<Rightarrow> ProtoTag \<Rightarrow> int \<Rightarrow> bytes \<Rightarrow> nat \<Rightarrow> bool \<Rightarrow> ('s, 'c) SecureRandomInner \<Rightarrow>
    (tg_nonce \<times> ('s, 'c) SecureRandomInner) option" where
  [code]: "generate_tg_nonce ops tag dc_idx client_enc_key client_enc_iv fast_mode rng =
    (let (nonce, rng) = rng_bytes ops HANDSHAKE_LEN rng
     in if length nonce \<noteq> HANDSHAKE_LEN \<or> tg_reserved nonce
        then generate_tg_nonce ops tag dc_idx client_enc_key client_enc_iv fast_mode rng
        else Option.bind (finish_tg_nonce tag dc_idx client_enc_key client_enc_iv fast_mode nonce)
               (\<lambda>n. Some (n, rng)))"

definition encrypt_tg_nonce_with_ciphers ::
  "(bytes \<Rightarrow> bytes \<Rightarrow> nat \<Rightarrow> byte) \<Rightarrow> bytes \<Rightarrow> bytes \<times> AesCtr \<times> AesCtr" where
  "encrypt_tg_nonce_with_ciphers cipher nonce =
    (let enc_key_iv = take (KEY_LEN + IV_LEN) (drop SKIP_LEN nonce);
         dec_key_iv = rev enc_key_iv;
         enc_key = take KEY_LEN enc_key_iv; enc_iv = be_nat (drop KEY_LEN enc_key_iv);
         dec_key = take KEY_LEN dec_key_iv; dec_iv = be_nat (drop KEY_LEN dec_key_iv);
         (encrypted_full, encryptor) = ctr_encrypt nonce (AesCtr_new cipher enc_key enc_iv)
     in (take PROTO_TAG_POS nonce @ drop PROTO_TAG_POS encrypted_full, encryptor, AesCtr_new cipher dec_key dec_iv))"

definition encrypt_tg_nonce where
  "encrypt_tg_nonce cipher nonce = fst (encrypt_tg_nonce_with_ciphers cipher nonce)"

end
