(* ===== verification/Replay_Checker.thy ===== *)
theory Replay_Checker
  imports Prelude
begin

text \<open>
  The replay cache of \<open>src/stats/replay.rs\<close>: 64 shards for MTProto handshakes and 64 for FakeTLS
  digests, each a least-recently-used cache of keys together with a queue of their arrival times.

  The cache itself (\<open>lru::LruCache\<close>) is code outside the repository: its operations are the fields
  of the parameter \<open>ops\<close>, and \<open>lru_laws\<close> states their documented behaviour as far as the shard
  uses it; a full cache may drop any entry on \<open>put\<close>.  The hash of a key is a parameter as well.
  An \<open>Instant\<close> is a number of nanoseconds, \<open>base\<close> the least one the platform can represent.  A
  shard is only touched under its lock, so every operation on it is one step; a loop that never
  ends is the value \<^term>\<open>None\<close>.
\<close>

section \<open>Keys\<close>

definition REPLAY_INLINE_KEY_CAP :: nat where "REPLAY_INLINE_KEY_CAP = 48"

datatype ReplayKey = Inline byte bytes | Heap bytes

definition ReplayKey_from_slice :: "bytes \<Rightarrow> ReplayKey" where
  "ReplayKey_from_slice key =
    (if length key \<le> REPLAY_INLINE_KEY_CAP
     then Inline (of_nat (length key)) (key @ replicate (REPLAY_INLINE_KEY_CAP - length key) 0)
     else Heap key)"

fun rk_as_slice :: "ReplayKey \<Rightarrow> bytes" where
  "rk_as_slice (Inline len bs) = take (unat len) bs"
| "rk_as_slice (Heap bs) = bs"

lemma rk_roundtrip [simp]: "rk_as_slice (ReplayKey_from_slice key) = key"
  by (simp add: ReplayKey_from_slice_def REPLAY_INLINE_KEY_CAP_def)

section \<open>The cache below\<close>

record 'c lru_ops =
  lru_new :: "nat \<Rightarrow> 'c"
  lru_cap :: "'c \<Rightarrow> nat"
  lru_len :: "'c \<Rightarrow> nat"
  lru_peek :: "'c \<Rightarrow> bytes \<Rightarrow> nat option"
  lru_get :: "'c \<Rightarrow> bytes \<Rightarrow> nat option \<times> 'c"
  lru_put :: "'c \<Rightarrow> ReplayKey \<Rightarrow> nat \<Rightarrow> 'c"
  lru_pop :: "'c \<Rightarrow> bytes \<Rightarrow> 'c"
  lru_clear :: "'c \<Rightarrow> 'c"

definition lru_laws :: "'c lru_ops \<Rightarrow> bool" where
  "lru_laws ops \<longleftrightarrow>
    (\<forall>cap. lru_cap ops (lru_new ops cap) = cap \<and> (\<forall>k. lru_peek ops (lru_new ops cap) k = None)) \<and>
    (\<forall>c. finite (dom (lru_peek ops c)) \<and> lru_len ops c = card (dom (lru_peek ops c))) \<and>
    (\<forall>c k. fst (lru_get ops c k) = lru_peek ops c k \<and> lru_peek ops (snd (lru_get ops c k)) = lru_peek ops c \<and>
       lru_cap ops (snd (lru_get ops c k)) = lru_cap ops c) \<and>
    (\<forall>c k v. (lru_len ops c < lru_cap ops c \<longrightarrow>
       lru_peek ops (lru_put ops c k v) = (lru_peek ops c)(rk_as_slice k \<mapsto> v)) \<and>
       lru_cap ops (lru_put ops c k v) = lru_cap ops c) \<and>
    (\<forall>c k. lru_peek ops (lru_pop ops c k) = (lru_peek ops c)(k := None) \<and> lru_cap ops (lru_pop ops c k) = lru_cap ops c) \<and>
    (\<forall>c. lru_peek ops (lru_clear ops c) = Map.empty \<and> lru_cap ops (lru_clear ops c) = lru_cap ops c)"

section \<open>A shard\<close>

type_synonym instant = int

record 'c ReplayShard =
  cache :: 'c
  queue :: "(instant \<times> ReplayKey \<times> nat) list"
  seq_counter :: nat
  capacity :: nat

definition ReplayShard_new :: "'c lru_ops \<Rightarrow> nat \<Rightarrow> 'c ReplayShard" where
  "ReplayShard_new ops cap = \<lparr>cache = lru_new ops cap, queue = [], seq_counter = 0, capacity = cap\<rparr>"

definition next_seq :: "'c ReplayShard \<Rightarrow> nat \<times> 'c ReplayShard" where
  "next_seq s = (let seq = (seq_counter s + 1) mod 2 ^ 64 in (seq, s\<lparr>seq_counter := seq\<rparr>))"

definition evict_queue_front :: "'c lru_ops \<Rightarrow> 'c ReplayShard \<Rightarrow> 'c ReplayShard" where
  "evict_queue_front ops s =
    (case queue s of
       [] \<Rightarrow> s
     | (_, key, queue_seq) # q \<Rightarrow>
         let s = s\<lparr>queue := q\<rparr> in
         if lru_peek ops (cache s) (rk_as_slice key) = Some queue_seq
         then s\<lparr>cache := lru_pop ops (cache s) (rk_as_slice key)\<rparr> else s)"

lemma queue_evict [simp]: "queue (evict_queue_front ops s) = tl (queue s)"
  by (auto simp: evict_queue_front_def Let_def split: list.split prod.split)

lemma capacity_evict [simp]:
  "capacity (evict_queue_front ops s) = capacity s" "seq_counter (evict_queue_front ops s) = seq_counter s"
  by (auto simp: evict_queue_front_def Let_def split: list.split prod.split)

text \<open>The two loops: entries older than the cutoff, and entries beyond the capacity.\<close>

function evict_older :: "'c lru_ops \<Rightarrow> instant \<Rightarrow> 'c ReplayShard \<Rightarrow> 'c ReplayShard" where
  "evict_older ops cutoff s =
    (case queue s of
       [] \<Rightarrow> s
     | (ts, _, _) # _ \<Rightarrow> if cutoff \<le> ts then s else evict_older ops cutoff (evict_queue_front ops s))"
  by pat_completeness auto
termination
  by (relation "measure (\<lambda>(ops, cutoff, s). length (queue s))") auto

function evict_full :: "'c lru_ops \<Rightarrow> 'c ReplayShard \<Rightarrow> 'c ReplayShard option" where
  "evict_full ops s =
    (if capacity s \<le> length (queue s)
     then if queue s = [] then None else evict_full ops (evict_queue_front ops s)
     else Some s)"
  by pat_completeness auto
termination
  by (relation "measure (\<lambda>(ops, s). length (queue s))") auto

declare evict_older.simps [simp del] evict_full.simps [simp del]

definition checked_sub_instant :: "instant \<Rightarrow> instant \<Rightarrow> nat \<Rightarrow> instant option" where
  "checked_sub_instant base now window = (if base \<le> now - int window then Some (now - int window) else None)"

definition shard_cleanup :: "'c lru_ops \<Rightarrow> instant \<Rightarrow> instant \<Rightarrow> nat \<Rightarrow> 'c ReplayShard \<Rightarrow> 'c ReplayShard" where
  "shard_cleanup ops base now window s =
    (if window = 0 then s\<lparr>cache := lru_clear ops (cache s), queue := []\<rparr>
     else let cutoff = (case checked_sub_instant base now window of Some c \<Rightarrow> c | None \<Rightarrow> now)
          in evict_older ops cutoff s)"

definition shard_check ::
  "'c lru_ops \<Rightarrow> instant \<Rightarrow> bytes \<Rightarrow> instant \<Rightarrow> nat \<Rightarrow> 'c ReplayShard \<Rightarrow> bool \<times> 'c ReplayShard" where
  "shard_check ops base key now window s =
    (if window = 0 then (False, s)
     else let s = shard_cleanup ops base now window s;
              (found, c) = lru_get ops (cache s) key
          in (found \<noteq> None, s\<lparr>cache := c\<rparr>))"

definition shard_add_owned ::
  "'c lru_ops \<Rightarrow> instant \<Rightarrow> ReplayKey \<Rightarrow> instant \<Rightarrow> nat \<Rightarrow> 'c ReplayShard \<Rightarrow> 'c ReplayShard option" where
  "shard_add_owned ops base key now window s =
    (if window = 0 then Some s
     else let s = shard_cleanup ops base now window s in
       if lru_peek ops (cache s) (rk_as_slice key) \<noteq> None then Some s
       else do {
         s \<leftarrow> evict_full ops s;
         let (seq, s) = next_seq s;
             s = s\<lparr>cache := lru_put ops (cache s) key seq\<rparr>
         in Some (s\<lparr>queue := queue s @ [(now, key, seq)]\<rparr>) })"

section \<open>The checker\<close>

record 'c ReplayChecker =
  handshake_shards :: "'c ReplayShard list"
  tls_shards :: "'c ReplayShard list"
  shard_mask :: "64 word"
  rc_window :: nat
  tls_window :: nat
  rc_checks :: "64 word"
  rc_hits :: "64 word"
  rc_additions :: "64 word"
  rc_cleanups :: "64 word"

definition MIN_TLS_REPLAY_WINDOW :: nat where "MIN_TLS_REPLAY_WINDOW = 120 * 10 ^ 9"

definition ReplayChecker_new :: "'c lru_ops \<Rightarrow> nat \<Rightarrow> nat \<Rightarrow> 'c ReplayChecker" where
  "ReplayChecker_new ops total_capacity window =
    (let num_shards = 64;
         shard_capacity = max (total_capacity div num_shards) 1;
         shards = replicate num_shards (ReplayShard_new ops shard_capacity)
     in \<lparr>handshake_shards = shards, tls_shards = shards, shard_mask = of_nat (num_shards - 1),
         rc_window = window, tls_window = max window MIN_TLS_REPLAY_WINDOW,
         rc_checks = 0, rc_hits = 0, rc_additions = 0, rc_cleanups = 0\<rparr>)"

definition get_shard_idx :: "(bytes \<Rightarrow> 64 word) \<Rightarrow> 'c ReplayChecker \<Rightarrow> bytes \<Rightarrow> nat" where
  "get_shard_idx hasher c key = unat (hasher key AND shard_mask c)"

text \<open>
  The three internal operations on one family of shards; they return the shards and the counters
  they change in the checker, \<^term>\<open>None\<close> for an index out of range.
\<close>

definition check_and_add_internal where
  "check_and_add_internal ops hasher base now data shards window c =
    (let c = c\<lparr>rc_checks := rc_checks c + 1\<rparr>;
         i = get_shard_idx hasher c data;
         owned_key = ReplayKey_from_slice data
     in do {
       shard \<leftarrow> idx shards i;
       let (found, shard) = shard_check ops base data now window shard in
       if found then Some (True, shards[i := shard], c\<lparr>rc_hits := rc_hits c + 1\<rparr>)
       else do {
         shard \<leftarrow> shard_add_owned ops base owned_key now window shard;
         Some (False, shards[i := shard], c\<lparr>rc_additions := rc_additions c + 1\<rparr>) } })"

definition check_only_internal where
  "check_only_internal ops hasher base now data shards window c =
    (let c = c\<lparr>rc_checks := rc_checks c + 1\<rparr>;
         i = get_shard_idx hasher c data
     in do {
       shard \<leftarrow> idx shards i;
       let (found, shard) = shard_check ops base data now window shard in
       Some (found, shards[i := shard], if found then c\<lparr>rc_hits := rc_hits c + 1\<rparr> else c) })"

definition add_only where
  "add_only ops hasher base now data shards window c =
    (let c = c\<lparr>rc_additions := rc_additions c + 1\<rparr>;
         i = get_shard_idx hasher c data;
         owned_key = ReplayKey_from_slice data
     in do {
       shard \<leftarrow> idx shards i;
       shard \<leftarrow> shard_add_owned ops base owned_key now window shard;
       Some (shards[i := shard], c) })"

definition check_and_add_handshake where
  "check_and_add_handshake ops hasher base now data c =
    map_option (\<lambda>(found, shards, c). (found, c\<lparr>handshake_shards := shards\<rparr>))
      (check_and_add_internal ops hasher base now data (handshake_shards c) (rc_window c) c)"

definition check_and_add_tls_digest where
  "check_and_add_tls_digest ops hasher base now data c =
    map_option (\<lambda>(found, shards, c). (found, c\<lparr>tls_shards := shards\<rparr>))
      (check_and_add_internal ops hasher base now data (tls_shards c) (tls_window c) c)"

definition check_handshake where
  "check_handshake ops hasher base now data c = check_and_add_handshake ops hasher base now data c"

definition add_handshake where
  "add_handshake ops hasher base now data c =
    map_option (\<lambda>(shards, c). c\<lparr>handshake_shards := shards\<rparr>)
      (add_only ops hasher base now data (handshake_shards c) (rc_window c) c)"

definition check_tls_digest where
  "check_tls_digest ops hasher base now data c =
    map_option (\<lambda>(found, shards, c). (found, c\<lparr>tls_shards := shards\<rparr>))
      (check_only_internal ops hasher base now data (tls_shards c) (tls_window c) c)"

definition add_tls_digest where
  "add_tls_digest ops hasher base now data c =
    map_option (\<lambda>(shards, c). c\<lparr>tls_shards := shards\<rparr>)
      (add_only ops hasher base now data (tls_shards c) (tls_window c) c)"

text \<open>One round of the cleanup task, which runs between the other operations; its period in seconds.\<close>

definition cleanup_interval_secs :: "nat \<Rightarrow> nat" where
  "cleanup_interval_secs window_secs =
    (if 60 < window_secs then 30 else max (max window_secs 1 div 2) 1)"

definition periodic_cleanup where
  "periodic_cleanup ops base now c =
    c\<lparr>handshake_shards := map (shard_cleanup ops base now (rc_window c)) (handshake_shards c),
      tls_shards := map (shard_cleanup ops base now (tls_window c)) (tls_shards c),
      rc_cleanups := rc_cleanups c + 1\<rparr>"

section \<open>Reference: a bounded queue over a sliding window\<close>

text \<open>
  A shard promises a list of at most \<open>capacity\<close> pairs of arrival time and key, oldest first.
\<close>

type_synonym window_log = "(instant \<times> bytes) list"

definition log_live :: "instant \<Rightarrow> window_log \<Rightarrow> window_log" where
  "log_live cutoff = dropWhile (\<lambda>(ts, _). ts < cutoff)"

definition log_has :: "bytes \<Rightarrow> window_log \<Rightarrow> bool" where
  "log_has k l \<longleftrightarrow> k \<in> snd ` set l"

definition log_add :: "nat \<Rightarrow> instant \<Rightarrow> bytes \<Rightarrow> window_log \<Rightarrow> window_log" where
  "log_add cap now k l = (if log_has k l then l else drop (length l + 1 - cap) l @ [(now, k)])"

definition shard_log :: "'c ReplayShard \<Rightarrow> window_log" where
  "shard_log s = map (\<lambda>(ts, k, _). (ts, rk_as_slice k)) (queue s)"

abbreviation shard_index :: "(instant \<times> ReplayKey \<times> nat) list \<Rightarrow> (bytes \<times> nat) list" where
  "shard_index \<equiv> map (\<lambda>(ts, k, seq). (rk_as_slice k, seq))"

text \<open>
  The cache holds exactly the keys of the queue, so it is never fuller than the queue and never
  has to drop an entry by itself.
\<close>

definition shard_inv :: "'c lru_ops \<Rightarrow> 'c ReplayShard \<Rightarrow> bool" where
  "shard_inv ops s \<longleftrightarrow>
    lru_cap ops (cache s) = capacity s \<and> 0 < capacity s \<and> length (queue s) \<le> capacity s \<and>
    distinct (map fst (shard_index (queue s))) \<and>
    lru_peek ops (cache s) = map_of (shard_index (queue s))"

lemma lru_get_laws:
  assumes "lru_laws ops"
  shows "fst (lru_get ops c k) = lru_peek ops c k" "lru_peek ops (snd (lru_get ops c k)) = lru_peek ops c"
    "lru_cap ops (snd (lru_get ops c k)) = lru_cap ops c"
  using assms unfolding lru_laws_def by blast+

lemma lru_put_laws:
  assumes "lru_laws ops"
  shows "lru_len ops c < lru_cap ops c \<Longrightarrow>
      lru_peek ops (lru_put ops c k v) = (lru_peek ops c)(rk_as_slice k \<mapsto> v)"
    "lru_cap ops (lru_put ops c k v) = lru_cap ops c"
  using assms unfolding lru_laws_def by blast+

lemma lru_other_laws:
  assumes "lru_laws ops"
  shows "lru_peek ops (lru_pop ops c k) = (lru_peek ops c)(k := None)"
    "lru_cap ops (lru_pop ops c k) = lru_cap ops c"
    "lru_peek ops (lru_clear ops c) = Map.empty" "lru_cap ops (lru_clear ops c) = lru_cap ops c"
    "lru_cap ops (lru_new ops n) = n" "lru_peek ops (lru_new ops n) = Map.empty"
    "lru_len ops c = card (dom (lru_peek ops c))"
  using assms unfolding lru_laws_def by (blast | auto)+

lemmas lru_rules = lru_get_laws lru_put_laws lru_other_laws

lemma length_shard_log [simp]: "length (shard_log s) = length (queue s)"
  by (simp add: shard_log_def)

lemma log_has_index: "log_has k (shard_log s) \<longleftrightarrow> k \<in> fst ` set (shard_index (queue s))"
  by (force simp: log_has_def shard_log_def image_iff split: prod.splits)

lemma peek_log_has: "shard_inv ops s \<Longrightarrow> (lru_peek ops (cache s) k \<noteq> None) = log_has k (shard_log s)"
  by (simp add: shard_inv_def log_has_index map_of_eq_None_iff)

lemma map_of_del_head: "k \<notin> fst ` set xs \<Longrightarrow> (map_of ((k, v) # xs))(k := None) = map_of xs"
  using map_of_eq_None_iff [of xs k] by (auto intro!: ext)

lemma evict_spec:
  assumes "lru_laws ops" "shard_inv ops s"
  shows "shard_inv ops (evict_queue_front ops s)" "shard_log (evict_queue_front ops s) = tl (shard_log s)"
proof -
  show "shard_log (evict_queue_front ops s) = tl (shard_log s)"
    by (simp add: shard_log_def map_tl)
  show "shard_inv ops (evict_queue_front ops s)"
  proof (cases "queue s")
    case Nil
    then show ?thesis using assms by (simp add: evict_queue_front_def)
  next
    case (Cons e q)
    obtain ts k v where e: "e = (ts, k, v)" by (cases e)
    have p: "lru_peek ops (cache s) = map_of ((rk_as_slice k, v) # shard_index q)"
      and d: "rk_as_slice k \<notin> fst ` set (shard_index q)" "distinct (map fst (shard_index q))"
      using assms by (auto simp: shard_inv_def Cons e image_iff)
    have "lru_peek ops (lru_pop ops (cache s) (rk_as_slice k)) = map_of (shard_index q)"
      using map_of_del_head [OF d(1), of v] p by (simp add: lru_rules [OF assms(1)])
    then show ?thesis
      using assms p d(2) by (simp add: evict_queue_front_def Cons e shard_inv_def lru_rules)
  qed
qed

lemma evict_older_spec:
  assumes "lru_laws ops" "shard_inv ops s"
  shows "shard_inv ops (evict_older ops cutoff s) \<and>
    shard_log (evict_older ops cutoff s) = log_live cutoff (shard_log s) \<and>
    capacity (evict_older ops cutoff s) = capacity s"
  using assms
proof (induction ops cutoff s rule: evict_older.induct)
  case (1 ops cutoff s)
  show ?case
  proof (cases "queue s")
    case Nil
    then show ?thesis using 1 by (simp add: evict_older.simps [of ops cutoff s] shard_log_def log_live_def)
  next
    case (Cons e q)
    obtain ts k v where e: "e = (ts, k, v)" by (cases e)
    have l: "shard_log s = (ts, rk_as_slice k) # tl (shard_log s)" by (simp add: shard_log_def Cons e)
    show ?thesis
    proof (cases "cutoff \<le> ts")
      case True
      then show ?thesis
        using 1(3) l by (simp add: evict_older.simps [of ops cutoff s] Cons e log_live_def) (metis case_prod_conv dropWhile.simps(2) not_less)
    next
      case False
      have "log_live cutoff (shard_log s) = log_live cutoff (tl (shard_log s))"
        by (subst l) (use False in \<open>simp add: log_live_def\<close>)
      then show ?thesis
        using 1 False evict_spec [OF 1(2,3)] by (simp add: evict_older.simps [of ops cutoff s] Cons e)
    qed
  qed
qed

lemma evict_full_spec:
  assumes "lru_laws ops" "shard_inv ops s"
  shows "\<exists>t. evict_full ops s = Some t \<and> shard_inv ops t \<and> length (queue t) < capacity t \<and>
    shard_log t = drop (length (queue s) + 1 - capacity s) (shard_log s) \<and> capacity t = capacity s"
  using assms
proof (induction ops s rule: evict_full.induct)
  case (1 ops s)
  show ?case
  proof (cases "capacity s \<le> length (queue s)")
    case True
    then have ne: "queue s \<noteq> []" using 1(3) by (auto simp: shard_inv_def)
    obtain t where t: "evict_full ops (evict_queue_front ops s) = Some t" "shard_inv ops t"
      "length (queue t) < capacity t" "capacity t = capacity s"
      "shard_log t = drop (length (tl (queue s)) + 1 - capacity s) (tl (shard_log s))"
      using 1(1) [OF True ne 1(2) evict_spec(1) [OF 1(2,3)]] by (auto simp: evict_spec [OF 1(2,3)])
    have "length (queue s) + 1 - capacity s = Suc (length (tl (queue s)) + 1 - capacity s)"
      using True ne by (cases "queue s") simp_all
    then have "drop (length (queue s) + 1 - capacity s) (shard_log s) = shard_log t"
      using t(5) by (simp add: drop_Suc)
    then show ?thesis using t True ne by (simp add: evict_full.simps [of ops s])
  next
    case False
    then show ?thesis using 1(3) by (simp add: evict_full.simps [of ops s])
  qed
qed

lemma cleanup_spec:
  assumes "lru_laws ops" "shard_inv ops s" "0 < w" "base \<le> now - int w"
  shows "shard_inv ops (shard_cleanup ops base now w s)"
    "shard_log (shard_cleanup ops base now w s) = log_live (now - int w) (shard_log s)"
    "capacity (shard_cleanup ops base now w s) = capacity s"
  using evict_older_spec [OF assms(1,2), of "now - int w"] assms(3,4)
  by (simp_all add: shard_cleanup_def checked_sub_instant_def)

lemma check_spec:
  assumes "lru_laws ops" "shard_inv ops s" "0 < w" "base \<le> now - int w"
  shows "fst (shard_check ops base k now w s) = log_has k (log_live (now - int w) (shard_log s))"
    "shard_inv ops (snd (shard_check ops base k now w s))"
    "shard_log (snd (shard_check ops base k now w s)) = log_live (now - int w) (shard_log s)"
    "capacity (snd (shard_check ops base k now w s)) = capacity s"
proof -
  let ?s = "shard_cleanup ops base now w s"
  note c = cleanup_spec [OF assms]
  have "fst (lru_get ops (cache ?s) k) = lru_peek ops (cache ?s) k"
    "shard_inv ops (?s\<lparr>cache := snd (lru_get ops (cache ?s) k)\<rparr>)"
    using c(1) by (simp_all add: lru_rules [OF assms(1)] shard_inv_def)
  then show "fst (shard_check ops base k now w s) = log_has k (log_live (now - int w) (shard_log s))"
    "shard_inv ops (snd (shard_check ops base k now w s))"
    "shard_log (snd (shard_check ops base k now w s)) = log_live (now - int w) (shard_log s)"
    "capacity (snd (shard_check ops base k now w s)) = capacity s"
    using c peek_log_has [OF c(1)] assms(3)
    by (simp_all add: shard_check_def Let_def split_def shard_log_def)
qed

lemma push_spec:
  assumes "lru_laws ops" "shard_inv ops s" "length (queue s) < capacity s"
    and "\<not> log_has (rk_as_slice key) (shard_log s)"
  shows "shard_inv ops (s\<lparr>seq_counter := n, cache := lru_put ops (cache s) key v, queue := queue s @ [(now, key, v)]\<rparr>)"
proof -
  have new: "rk_as_slice key \<notin> fst ` set (shard_index (queue s))"
    using assms(4) by (simp add: log_has_index)
  have "lru_len ops (cache s) = length (queue s)"
    using assms(2) distinct_card [of "map fst (shard_index (queue s))"]
    by (simp add: shard_inv_def lru_rules [OF assms(1)] dom_map_of_conv_image_fst image_image)
  then have "lru_peek ops (lru_put ops (cache s) key v) = (map_of (shard_index (queue s)))(rk_as_slice key \<mapsto> v)"
    using assms(2,3) by (simp add: lru_rules [OF assms(1)] shard_inv_def)
  also have "\<dots> = map_of (shard_index (queue s @ [(now, key, v)]))"
    using new map_of_eq_None_iff [of "shard_index (queue s)" "rk_as_slice key"]
    by (auto simp: map_add_def intro!: ext split: option.split)
  finally show ?thesis
    using assms(2,3) new by (simp add: shard_inv_def lru_rules [OF assms(1)] image_image)
qed

lemma add_spec:
  assumes "lru_laws ops" "shard_inv ops s" "0 < w" "base \<le> now - int w"
  shows "\<exists>t. shard_add_owned ops base (ReplayKey_from_slice k) now w s = Some t \<and> shard_inv ops t \<and>
    shard_log t = log_add (capacity s) now k (log_live (now - int w) (shard_log s)) \<and> capacity t = capacity s"
proof -
  let ?s = "shard_cleanup ops base now w s"
  note c = cleanup_spec [OF assms]
  show ?thesis
  proof (cases "log_has k (shard_log ?s)")
    case True
    then show ?thesis
      using c peek_log_has [OF c(1), of k] assms(3) by (simp add: shard_add_owned_def log_add_def)
  next
    case False
    obtain t where t: "evict_full ops ?s = Some t" "shard_inv ops t" "length (queue t) < capacity t"
      "shard_log t = drop (length (queue ?s) + 1 - capacity s) (shard_log ?s)" "capacity t = capacity s"
      using evict_full_spec [OF assms(1) c(1)] c(3) by auto
    have no: "\<not> log_has (rk_as_slice (ReplayKey_from_slice k)) (shard_log t)"
      using False t(4) by (auto simp: log_has_def dest: in_set_dropD)
    have ql: "length (queue ?s) = length (shard_log ?s)" by simp
    show ?thesis
      using push_spec [OF assms(1) t(2,3) no] t False c peek_log_has [OF c(1), of k] assms(3) ql
      by (simp add: shard_add_owned_def next_seq_def Let_def log_add_def shard_log_def [of "_\<lparr>queue := _\<rparr>"])
         (simp add: shard_log_def)
  qed
qed

lemma new_shard_spec:
  "lru_laws ops \<Longrightarrow> 0 < n \<Longrightarrow> shard_inv ops (ReplayShard_new ops n)" "shard_log (ReplayShard_new ops n) = []"
  by (simp_all add: shard_inv_def ReplayShard_new_def lru_rules shard_log_def)

lemma log_live_keeps:
  "(t, k) \<in> set l \<Longrightarrow> cutoff \<le> t \<Longrightarrow> (t, k) \<in> set (log_live cutoff l)"
  by (induction l) (auto simp: log_live_def)

text \<open>An entry behind which only keys of a given set have come in, each at most once.\<close>

definition held :: "bytes set \<Rightarrow> instant \<Rightarrow> bytes \<Rightarrow> window_log \<Rightarrow> bool" where
  "held K t k l \<longleftrightarrow> (\<exists>older younger. l = older @ (t, k) # younger \<and> distinct (map snd younger) \<and> snd ` set younger \<subseteq> K)"

lemma held_has: "held K t k l \<Longrightarrow> log_has k l"
  by (force simp: held_def log_has_def)

lemma held_mono: "held K t k l \<Longrightarrow> K \<subseteq> L \<Longrightarrow> held L t k l"
  by (force simp: held_def)

lemma held_live:
  assumes "held K t k l" "cutoff \<le> t"
  shows "held K t k (log_live cutoff l)"
proof -
  obtain older younger where l: "l = older @ (t, k) # younger" and y: "distinct (map snd younger)" "snd ` set younger \<subseteq> K"
    using assms(1) by (auto simp: held_def)
  have "\<exists>o'. log_live cutoff l = o' @ (t, k) # younger"
    unfolding l log_live_def using assms(2) by (induction older) auto
  then show ?thesis using y by (auto simp: held_def)
qed

lemma held_new: "\<not> log_has k l \<Longrightarrow> held {} t k (log_add cap t k l)"
  by (auto simp: held_def log_add_def)

lemma held_add:
  assumes "held K t k l" "finite K" "card K < cap" "k' \<in> insert k K"
  shows "held K t k (log_add cap now k' l)"
proof (cases "log_has k' l")
  case True
  then show ?thesis using assms(1) by (simp add: log_add_def)
next
  case False
  obtain older younger where l: "l = older @ (t, k) # younger" and y: "distinct (map snd younger)" "snd ` set younger \<subseteq> K"
    using assms(1) by (auto simp: held_def)
  have new: "k' \<in> K" "k' \<notin> snd ` set younger" using False assms(4) by (auto simp: log_has_def l)
  have "length younger = card (snd ` set younger)" using distinct_card [OF y(1)] by simp
  also have "\<dots> < card K" using y(2) new assms(2) by (intro psubset_card_mono) auto
  finally have "drop (length l + 1 - cap) l = drop (length l + 1 - cap) older @ (t, k) # younger"
    using assms(3) by (simp add: l)
  then have "log_add cap now k' l = drop (length l + 1 - cap) older @ (t, k) # (younger @ [(now, k')])"
    using False by (simp add: log_add_def)
  moreover have "distinct (map snd (younger @ [(now, k')]))" "snd ` set (younger @ [(now, k')]) \<subseteq> K"
    using y new by auto
  ultimately show ?thesis unfolding held_def by blast
qed

section \<open>Runs of the checker\<close>

datatype replay_op =
    Op_handshake bytes
  | Op_add_handshake bytes
  | Op_check_tls bytes
  | Op_add_tls bytes
  | Op_check_add_tls bytes
  | Op_cleanup

text \<open>The answer of an operation that gives none is \<^term>\<open>False\<close>.\<close>

fun replay_step where
  "replay_step ops hasher base now (Op_handshake k) c = check_and_add_handshake ops hasher base now k c"
| "replay_step ops hasher base now (Op_add_handshake k) c =
     map_option (Pair False) (add_handshake ops hasher base now k c)"
| "replay_step ops hasher base now (Op_check_tls k) c = check_tls_digest ops hasher base now k c"
| "replay_step ops hasher base now (Op_add_tls k) c = map_option (Pair False) (add_tls_digest ops hasher base now k c)"
| "replay_step ops hasher base now (Op_check_add_tls k) c = check_and_add_tls_digest ops hasher base now k c"
| "replay_step ops hasher base now Op_cleanup c = Some (False, periodic_cleanup ops base now c)"

text \<open>Which family of shards and which key an operation adds, and which one it answers for.\<close>

datatype replay_family = Handshake_keys | Tls_digests

fun adds_key :: "replay_op \<Rightarrow> (replay_family \<times> bytes) option" where
  "adds_key (Op_handshake k) = Some (Handshake_keys, k)"
| "adds_key (Op_add_handshake k) = Some (Handshake_keys, k)"
| "adds_key (Op_add_tls k) = Some (Tls_digests, k)"
| "adds_key (Op_check_add_tls k) = Some (Tls_digests, k)"
| "adds_key _ = None"

fun asks_key :: "replay_op \<Rightarrow> (replay_family \<times> bytes) option" where
  "asks_key (Op_handshake k) = Some (Handshake_keys, k)"
| "asks_key (Op_check_tls k) = Some (Tls_digests, k)"
| "asks_key (Op_check_add_tls k) = Some (Tls_digests, k)"
| "asks_key _ = None"

fun family_window :: "replay_family \<Rightarrow> nat \<Rightarrow> nat" where
  "family_window Handshake_keys w = w"
| "family_window Tls_digests w = max w MIN_TLS_REPLAY_WINDOW"

definition keys_added :: "replay_family \<Rightarrow> (instant \<times> replay_op) list \<Rightarrow> bytes list" where
  "keys_added f evs =
    concat (map (\<lambda>(_, op). case adds_key op of Some (g, k) \<Rightarrow> if g = f then [k] else [] | None \<Rightarrow> []) evs)"

text \<open>The other keys that come into the shard of a key during a run.\<close>

definition rivals :: "(bytes \<Rightarrow> 64 word) \<Rightarrow> replay_family \<Rightarrow> bytes \<Rightarrow> (instant \<times> replay_op) list \<Rightarrow> bytes set" where
  "rivals hasher f k evs = {k' \<in> set (keys_added f evs). k' \<noteq> k \<and> hasher k' AND 63 = hasher k AND 63}"

fun replay_run where
  "replay_run ops hasher base [] c = Some ([], c)"
| "replay_run ops hasher base ((now, op) # evs) c = do {
     (b, c) \<leftarrow> replay_step ops hasher base now op c;
     (bs, c) \<leftarrow> replay_run ops hasher base evs c;
     Some (b # bs, c) }"

definition family_ok :: "'c lru_ops \<Rightarrow> nat \<Rightarrow> 'c ReplayShard list \<Rightarrow> bool" where
  "family_ok ops cap shards \<longleftrightarrow> length shards = 64 \<and> (\<forall>s\<in>set shards. shard_inv ops s \<and> capacity s = cap)"

definition checker_inv :: "'c lru_ops \<Rightarrow> nat \<Rightarrow> nat \<Rightarrow> 'c ReplayChecker \<Rightarrow> bool" where
  "checker_inv ops cap w c \<longleftrightarrow> family_ok ops cap (handshake_shards c) \<and> family_ok ops cap (tls_shards c) \<and>
    shard_mask c = 63 \<and> rc_window c = w \<and> tls_window c = max w MIN_TLS_REPLAY_WINDOW"

text \<open>The log a key of the given family falls into.\<close>

definition key_log :: "(bytes \<Rightarrow> 64 word) \<Rightarrow> bytes \<Rightarrow> 'c ReplayShard list \<Rightarrow> window_log" where
  "key_log hasher k shards = shard_log (shards ! unat (hasher k AND 63))"

lemma shard_range: "unat (x AND 63 :: 64 word) < 64"
proof -
  have "x AND 63 = take_bit 6 x" by (simp add: take_bit_eq_mask mask_eq_exp_minus_1)
  then show ?thesis using take_bit_nat_less_exp [of 6 "unat x"] by (simp add: unsigned_take_bit_eq)
qed

lemma family_update:
  assumes "family_ok ops cap shards" "shard_inv ops s" "capacity s = cap"
  shows "family_ok ops cap (shards[i := s])"
  using assms set_update_subset_insert [of shards i s] by (auto simp: family_ok_def)

lemma family_shard:
  assumes "family_ok ops cap shards" "i < 64"
  shows "shard_inv ops (shards ! i)" "capacity (shards ! i) = cap" "idx shards i = Some (shards ! i)"
  using assms by (auto simp: family_ok_def)

lemma key_log_update:
  "family_ok ops cap shards \<Longrightarrow> key_log hasher k (shards[unat (hasher j AND 63) := s]) =
    (if hasher k AND 63 = hasher j AND 63 then shard_log s else key_log hasher k shards)"
  using shard_range [of "hasher j"] by (auto simp: key_log_def family_ok_def nth_list_update word_unat_eq_iff)

text \<open>What the internal operations do to the family they work on, seen through the logs.\<close>

definition log_after_add :: "nat \<Rightarrow> nat \<Rightarrow> instant \<Rightarrow> bytes \<Rightarrow> window_log \<Rightarrow> window_log" where
  "log_after_add cap w now k l = log_add cap now k (log_live (now - int w) l)"

lemma internal_check_and_add:
  assumes "lru_laws ops" "family_ok ops cap shards" "shard_mask c = 63" "0 < w" "base \<le> now - int w"
  shows "\<exists>s h a. check_and_add_internal ops hasher base now k shards w c =
      Some (log_has k (log_live (now - int w) (key_log hasher k shards)), shards[unat (hasher k AND 63) := s],
            c\<lparr>rc_checks := rc_checks c + 1, rc_hits := h, rc_additions := a\<rparr>) \<and>
      shard_inv ops s \<and> capacity s = cap \<and> shard_log s = log_after_add cap w now k (key_log hasher k shards)"
proof -
  let ?i = "unat (hasher k AND 63)"
  note f = family_shard [OF assms(2) shard_range [of "hasher k"]]
  note chk = check_spec [OF assms(1) f(1) assms(4,5), of k]
  let ?s = "snd (shard_check ops base k now w (shards ! ?i))"
  obtain t where t: "shard_add_owned ops base (ReplayKey_from_slice k) now w ?s = Some t" "shard_inv ops t"
      "shard_log t = log_add cap now k (log_live (now - int w) (shard_log ?s))" "capacity t = cap"
    using add_spec [OF assms(1) chk(2) assms(4,5), of k] chk(4) f(2) by auto
  have again: "log_live (now - int w) (log_live (now - int w) l) = log_live (now - int w) l" for l
    by (simp add: log_live_def)
  show ?thesis
  proof (cases "log_has k (log_live (now - int w) (key_log hasher k shards))")
    case True
    then show ?thesis
      using chk f by (intro exI [of _ ?s] exI [of _ "rc_hits c + 1"] exI [of _ "rc_additions c"])
        (simp add: check_and_add_internal_def get_shard_idx_def assms(3) Let_def split_def key_log_def
          log_after_add_def log_add_def)
  next
    case False
    then show ?thesis
      using chk f t by (intro exI [of _ t] exI [of _ "rc_hits c"] exI [of _ "rc_additions c + 1"])
        (simp add: check_and_add_internal_def get_shard_idx_def assms(3) Let_def split_def key_log_def
          log_after_add_def again)
  qed
qed

lemma internal_check_only:
  assumes "lru_laws ops" "family_ok ops cap shards" "shard_mask c = 63" "0 < w" "base \<le> now - int w"
  shows "\<exists>s h. check_only_internal ops hasher base now k shards w c =
      Some (log_has k (log_live (now - int w) (key_log hasher k shards)), shards[unat (hasher k AND 63) := s],
            c\<lparr>rc_checks := rc_checks c + 1, rc_hits := h\<rparr>) \<and>
      shard_inv ops s \<and> capacity s = cap \<and> shard_log s = log_live (now - int w) (key_log hasher k shards)"
proof -
  let ?i = "unat (hasher k AND 63)"
  note f = family_shard [OF assms(2) shard_range [of "hasher k"]]
  note chk = check_spec [OF assms(1) f(1) assms(4,5), of k]
  show ?thesis
    using chk f
    by (intro exI [of _ "snd (shard_check ops base k now w (shards ! ?i))"]
          exI [of _ "if fst (shard_check ops base k now w (shards ! ?i)) then rc_hits c + 1 else rc_hits c"])
       (simp add: check_only_internal_def get_shard_idx_def assms(3) Let_def split_def key_log_def)
qed

lemma internal_add_only:
  assumes "lru_laws ops" "family_ok ops cap shards" "shard_mask c = 63" "0 < w" "base \<le> now - int w"
  shows "\<exists>s. add_only ops hasher base now k shards w c =
      Some (shards[unat (hasher k AND 63) := s], c\<lparr>rc_additions := rc_additions c + 1\<rparr>) \<and>
      shard_inv ops s \<and> capacity s = cap \<and> shard_log s = log_after_add cap w now k (key_log hasher k shards)"
proof -
  note f = family_shard [OF assms(2) shard_range [of "hasher k"]]
  show ?thesis
    using add_spec [OF assms(1) f(1) assms(4,5), of k] f
    by (auto simp: add_only_def get_shard_idx_def assms(3) key_log_def log_after_add_def)
qed

lemma family_cleanup:
  assumes "lru_laws ops" "family_ok ops cap shards" "0 < w" "base \<le> now - int w"
  shows "family_ok ops cap (map (shard_cleanup ops base now w) shards)"
    "key_log hasher k (map (shard_cleanup ops base now w) shards) = log_live (now - int w) (key_log hasher k shards)"
  using assms cleanup_spec [OF assms(1) _ assms(3,4)] shard_range [of "hasher k"]
  by (auto simp: family_ok_def key_log_def)

section \<open>Reference for the whole checker\<close>

text \<open>One window log per shard; the answers do not depend on the cache below.\<close>

record replay_spec =
  hs_logs :: "64 word \<Rightarrow> window_log"
  tls_logs :: "64 word \<Rightarrow> window_log"

definition spec_find :: "nat \<Rightarrow> instant \<Rightarrow> bytes \<Rightarrow> 64 word \<Rightarrow> (64 word \<Rightarrow> window_log) \<Rightarrow> bool" where
  "spec_find w now k b L = log_has k (log_live (now - int w) (L b))"

definition spec_insert ::
  "nat \<Rightarrow> nat \<Rightarrow> instant \<Rightarrow> bytes \<Rightarrow> 64 word \<Rightarrow> (64 word \<Rightarrow> window_log) \<Rightarrow> 64 word \<Rightarrow> window_log" where
  "spec_insert cap w now k b L = L(b := log_after_add cap w now k (L b))"

fun spec_step ::
  "(bytes \<Rightarrow> 64 word) \<Rightarrow> nat \<Rightarrow> nat \<Rightarrow> nat \<Rightarrow> instant \<Rightarrow> replay_op \<Rightarrow> replay_spec \<Rightarrow> bool \<times> replay_spec" where
  "spec_step hasher cap w tw now (Op_handshake k) r =
    (spec_find w now k (hasher k AND 63) (hs_logs r),
     r\<lparr>hs_logs := spec_insert cap w now k (hasher k AND 63) (hs_logs r)\<rparr>)"
| "spec_step hasher cap w tw now (Op_add_handshake k) r =
    (False, r\<lparr>hs_logs := spec_insert cap w now k (hasher k AND 63) (hs_logs r)\<rparr>)"
| "spec_step hasher cap w tw now (Op_check_tls k) r =
    (spec_find tw now k (hasher k AND 63) (tls_logs r),
     r\<lparr>tls_logs := (tls_logs r)(hasher k AND 63 := log_live (now - int tw) (tls_logs r (hasher k AND 63)))\<rparr>)"
| "spec_step hasher cap w tw now (Op_add_tls k) r =
    (False, r\<lparr>tls_logs := spec_insert cap tw now k (hasher k AND 63) (tls_logs r)\<rparr>)"
| "spec_step hasher cap w tw now (Op_check_add_tls k) r =
    (spec_find tw now k (hasher k AND 63) (tls_logs r),
     r\<lparr>tls_logs := spec_insert cap tw now k (hasher k AND 63) (tls_logs r)\<rparr>)"
| "spec_step hasher cap w tw now Op_cleanup r =
    (False, r\<lparr>hs_logs := \<lambda>b. log_live (now - int w) (hs_logs r b),
              tls_logs := \<lambda>b. log_live (now - int tw) (tls_logs r b)\<rparr>)"

fun spec_run where
  "spec_run hasher cap w tw [] r = ([], r)"
| "spec_run hasher cap w tw ((now, op) # evs) r =
    (let (b, r) = spec_step hasher cap w tw now op r; (bs, r) = spec_run hasher cap w tw evs r in (b # bs, r))"

definition spec_empty :: replay_spec where
  "spec_empty = \<lparr>hs_logs = \<lambda>_. [], tls_logs = \<lambda>_. []\<rparr>"

definition refines_spec where
  "refines_spec ops hasher cap w c r \<longleftrightarrow> checker_inv ops cap w c \<and>
    (\<forall>k. key_log hasher k (handshake_shards c) = hs_logs r (hasher k AND 63)) \<and>
    (\<forall>k. key_log hasher k (tls_shards c) = tls_logs r (hasher k AND 63))"

lemma refines_fields:
  assumes "refines_spec ops hasher cap w c r"
  shows "family_ok ops cap (handshake_shards c)" "family_ok ops cap (tls_shards c)" "shard_mask c = 63"
    "rc_window c = w" "tls_window c = max w MIN_TLS_REPLAY_WINDOW"
    "key_log hasher k (handshake_shards c) = hs_logs r (hasher k AND 63)"
    "key_log hasher k (tls_shards c) = tls_logs r (hasher k AND 63)"
  using assms by (auto simp: refines_spec_def checker_inv_def)

lemma refines_hs_update:
  assumes "refines_spec ops hasher cap w c r" "shard_inv ops s" "capacity s = cap"
  shows "refines_spec ops hasher cap w
    (c\<lparr>rc_checks := a, rc_hits := b, rc_additions := d,
       handshake_shards := (handshake_shards c)[unat (hasher k AND 63) := s]\<rparr>)
    (r\<lparr>hs_logs := (hs_logs r)(hasher k AND 63 := shard_log s)\<rparr>)"
  using assms family_update [OF _ assms(2,3), of "handshake_shards c"]
  by (simp add: refines_spec_def checker_inv_def key_log_update [of ops cap])

lemma refines_tls_update:
  assumes "refines_spec ops hasher cap w c r" "shard_inv ops s" "capacity s = cap"
  shows "refines_spec ops hasher cap w
    (c\<lparr>rc_checks := a, rc_hits := b, rc_additions := d,
       tls_shards := (tls_shards c)[unat (hasher k AND 63) := s]\<rparr>)
    (r\<lparr>tls_logs := (tls_logs r)(hasher k AND 63 := shard_log s)\<rparr>)"
  using assms family_update [OF _ assms(2,3), of "tls_shards c"]
  by (simp add: refines_spec_def checker_inv_def key_log_update [of ops cap])

lemma tls_window_pos: "0 < max w MIN_TLS_REPLAY_WINDOW"
  by (simp add: MIN_TLS_REPLAY_WINDOW_def)

lemma replay_step_refines:
  assumes "lru_laws ops" "refines_spec ops hasher cap w c r" "0 < w"
    and "base \<le> now - int (max w MIN_TLS_REPLAY_WINDOW)"
  shows "\<exists>c'. replay_step ops hasher base now op c =
      Some (fst (spec_step hasher cap w (max w MIN_TLS_REPLAY_WINDOW) now op r), c') \<and>
    refines_spec ops hasher cap w c' (snd (spec_step hasher cap w (max w MIN_TLS_REPLAY_WINDOW) now op r))"
proof -
  note f = refines_fields [OF assms(2)]
  have b: "base \<le> now - int w" using assms(4) by linarith
  note hs = f(1,3) assms(3) b and tls = f(2,3) tls_window_pos assms(4)
  note up = refines_hs_update [OF assms(2)] refines_tls_update [OF assms(2)]
  show ?thesis
  proof (cases op)
    case (Op_handshake k)
    then show ?thesis
      using internal_check_and_add [OF assms(1) hs, of hasher k] up(1) [where k = k]
      by (fastforce simp: check_and_add_handshake_def f spec_find_def spec_insert_def)
  next
    case (Op_add_handshake k)
    then show ?thesis
      using internal_add_only [OF assms(1) hs, of hasher k] up(1) [where k = k and a = "rc_checks c" and b = "rc_hits c"]
      by (fastforce simp: add_handshake_def f spec_insert_def)
  next
    case (Op_check_tls k)
    then show ?thesis
      using internal_check_only [OF assms(1) tls, of hasher k] up(2) [where k = k and d = "rc_additions c"]
      by (fastforce simp: check_tls_digest_def f spec_find_def)
  next
    case (Op_add_tls k)
    then show ?thesis
      using internal_add_only [OF assms(1) tls, of hasher k] up(2) [where k = k and a = "rc_checks c" and b = "rc_hits c"]
      by (fastforce simp: add_tls_digest_def f spec_insert_def)
  next
    case (Op_check_add_tls k)
    then show ?thesis
      using internal_check_and_add [OF assms(1) tls, of hasher k] up(2) [where k = k]
      by (fastforce simp: check_and_add_tls_digest_def f spec_find_def spec_insert_def)
  next
    case Op_cleanup
    then show ?thesis
      using assms(2) family_cleanup [OF assms(1) f(1) assms(3) b] family_cleanup [OF assms(1) f(2) tls_window_pos assms(4)]
      by (simp add: periodic_cleanup_def f refines_spec_def checker_inv_def)
  qed
qed

lemma replay_run_refines:
  assumes "lru_laws ops" "refines_spec ops hasher cap w c r" "0 < w"
    and "\<forall>(now, op)\<in>set evs. base \<le> now - int (max w MIN_TLS_REPLAY_WINDOW)"
  shows "\<exists>c'. replay_run ops hasher base evs c =
      Some (fst (spec_run hasher cap w (max w MIN_TLS_REPLAY_WINDOW) evs r), c') \<and>
    refines_spec ops hasher cap w c' (snd (spec_run hasher cap w (max w MIN_TLS_REPLAY_WINDOW) evs r))"
  using assms(2,4)
proof (induction evs arbitrary: c r)
  case (Cons ev evs)
  obtain now op where ev: "ev = (now, op)" by (cases ev)
  obtain c1 where c1: "replay_step ops hasher base now op c =
      Some (fst (spec_step hasher cap w (max w MIN_TLS_REPLAY_WINDOW) now op r), c1)"
    "refines_spec ops hasher cap w c1 (snd (spec_step hasher cap w (max w MIN_TLS_REPLAY_WINDOW) now op r))"
    using replay_step_refines [OF assms(1) Cons.prems(1) assms(3), of base now op] Cons.prems(2) by (auto simp: ev)
  show ?case using Cons.IH [OF c1(2)] Cons.prems(2) c1(1) by (auto simp: ev split_def Let_def)
qed simp

lemma new_checker_refines:
  assumes "lru_laws ops"
  shows "refines_spec ops hasher (max (tot div 64) 1) w (ReplayChecker_new ops tot w) spec_empty"
proof -
  have "key_log hasher k (replicate 64 (ReplayShard_new ops n)) = []" for k n
    using shard_range [of "hasher k"] by (simp add: key_log_def new_shard_spec)
  then show ?thesis
    using new_shard_spec(1) [OF assms, of "max (tot div 64) 1"]
    by (simp add: refines_spec_def checker_inv_def ReplayChecker_new_def family_ok_def spec_empty_def Let_def)
       (simp add: ReplayShard_new_def)
qed

lemma spec_run_append:
  "spec_run hasher cap w tw (evs @ evs') r =
    (let (bs, r) = spec_run hasher cap w tw evs r; (bs', r) = spec_run hasher cap w tw evs' r in (bs @ bs', r))"
  by (induction evs arbitrary: r) (auto simp: split_def Let_def)

lemma spec_run_length: "length (fst (spec_run hasher cap w tw evs r)) = length evs"
  by (induction evs arbitrary: r) (auto simp: split_def Let_def)

fun family_logs :: "replay_family \<Rightarrow> replay_spec \<Rightarrow> 64 word \<Rightarrow> window_log" where
  "family_logs Handshake_keys r = hs_logs r"
| "family_logs Tls_digests r = tls_logs r"

abbreviation known_key where
  "known_key hasher w f now k r \<equiv> spec_find (family_window f w) now k (hasher k AND 63) (family_logs f r)"

lemma asked_answer:
  "asks_key L = Some (f, k) \<Longrightarrow>
   fst (spec_step hasher cap w (max w MIN_TLS_REPLAY_WINDOW) now L r) = known_key hasher w f now k r"
  by (cases L) auto

lemma added_held:
  assumes "adds_key A = Some (f, k)" "\<not> known_key hasher w f t k r"
  shows "held {} t k (family_logs f (snd (spec_step hasher cap w (max w MIN_TLS_REPLAY_WINDOW) t A r)) (hasher k AND 63))"
  using assms held_new by (cases A) (auto simp: spec_find_def spec_insert_def log_after_add_def)

lemma held_known:
  assumes "held K t k (family_logs f r (hasher k AND 63))" "now \<le> t + int (family_window f w)"
  shows "known_key hasher w f now k r"
  using held_live [OF assms(1), of "now - int (family_window f w)"] assms(2) by (simp add: spec_find_def held_has)

lemma spec_step_held:
  assumes "held K t k (family_logs f r (hasher k AND 63))" "finite K" "card K < cap" "now \<le> t + int (family_window f w)"
    and "\<And>k'. adds_key op = Some (f, k') \<Longrightarrow> hasher k' AND 63 = hasher k AND 63 \<Longrightarrow> k' \<in> insert k K"
  shows "held K t k (family_logs f (snd (spec_step hasher cap w (max w MIN_TLS_REPLAY_WINDOW) now op r)) (hasher k AND 63))"
proof -
  have live: "held K t k (log_live (now - int (family_window f w)) (family_logs f r (hasher k AND 63)))"
    using held_live [OF assms(1)] assms(4) by simp
  note add = held_add [OF live assms(2,3)]
  show ?thesis
    using assms(1,5) add live by (cases op; cases f) (auto simp: spec_insert_def log_after_add_def)
qed

lemma keys_added_Cons:
  "set (keys_added f ((now, op) # evs)) = {k. adds_key op = Some (f, k)} \<union> set (keys_added f evs)"
  by (auto simp: keys_added_def split: option.splits)

lemma rivals_Cons:
  "rivals hasher f k ((now, op) # evs) =
    {k'. adds_key op = Some (f, k') \<and> k' \<noteq> k \<and> hasher k' AND 63 = hasher k AND 63} \<union> rivals hasher f k evs"
  unfolding rivals_def keys_added_Cons by blast

lemma spec_run_held:
  assumes "held K t k (family_logs f r (hasher k AND 63))" "finite K" "card K < cap" "rivals hasher f k evs \<subseteq> K"
    and "\<forall>(now, op)\<in>set evs. now \<le> t + int (family_window f w)"
  shows "held K t k (family_logs f (snd (spec_run hasher cap w (max w MIN_TLS_REPLAY_WINDOW) evs r)) (hasher k AND 63))"
  using assms(1,4,5)
proof (induction evs arbitrary: r)
  case (Cons ev evs)
  obtain now op where ev: "ev = (now, op)" by (cases ev)
  have "held K t k (family_logs f (snd (spec_step hasher cap w (max w MIN_TLS_REPLAY_WINDOW) now op r)) (hasher k AND 63))"
    using Cons.prems(2,3) by (intro spec_step_held [where hasher = hasher, OF Cons.prems(1) assms(2,3)]) (auto simp: ev rivals_Cons)
  from Cons.IH [OF this] show ?case using Cons.prems by (simp add: ev rivals_Cons split_def Let_def)
qed simp

text \<open>On the reference: a new key is known until its window passes or its shard is full of other keys.\<close>

lemma spec_added_known:
  assumes "adds_key A = Some (f, k)" "\<not> known_key hasher w f t k r" "card (rivals hasher f k mid) < cap"
    and "\<forall>(now, op)\<in>set mid. now \<le> t + int (family_window f w)" "t' \<le> t + int (family_window f w)"
  shows "known_key hasher w f t' k (snd (spec_run hasher cap w (max w MIN_TLS_REPLAY_WINDOW) mid
    (snd (spec_step hasher cap w (max w MIN_TLS_REPLAY_WINDOW) t A r))))"
proof -
  have fin: "finite (rivals hasher f k mid)" by (simp add: rivals_def)
  have "held (rivals hasher f k mid) t k
      (family_logs f (snd (spec_step hasher cap w (max w MIN_TLS_REPLAY_WINDOW) t A r)) (hasher k AND 63))"
    using added_held [where hasher = hasher, OF assms(1,2)] by (rule held_mono) simp
  from held_known [where hasher = hasher, OF spec_run_held [where hasher = hasher, OF this fin assms(3) order_refl assms(4)] assms(5)] show ?thesis .
qed

text \<open>A cache that satisfies the laws, for the concrete runs below.\<close>

definition demo_lru :: "(nat \<times> (bytes \<times> nat) list) lru_ops" where
  "demo_lru = \<lparr>lru_new = \<lambda>cap. (cap, []), lru_cap = fst,
    lru_len = \<lambda>c. length (remdups (map fst (snd c))),
    lru_peek = \<lambda>c. map_of (snd c), lru_get = \<lambda>c k. (map_of (snd c) k, c),
    lru_put = \<lambda>c k v. (fst c, (rk_as_slice k, v) # snd c),
    lru_pop = \<lambda>c k. (fst c, filter (\<lambda>e. fst e \<noteq> k) (snd c)), lru_clear = \<lambda>c. (fst c, [])\<rparr>"

lemma map_of_without: "map_of (filter (\<lambda>e. fst e \<noteq> k) l) = (map_of l)(k := None)"
  by (induction l) (auto intro!: ext)

lemma demo_lru_laws: "lru_laws demo_lru"
  by (simp add: lru_laws_def demo_lru_def finite_dom_map_of dom_map_of_conv_image_fst length_remdups_card_conv map_of_without)

section \<open>Properties\<close>

text \<open>C34.
  The replay checker implements a simple specification: per shard, a list of at most
  \<open>capacity\<close> recently admitted keys with their times.  For any sequence of handshake checks,
  digest checks, additions and cleanup rounds, every operation returns (no loop spins, no index
  is out of range), and each answer is whether the key is in its shard's list once the entries
  older than the window are dropped.  In particular the capacity of the cache below and its
  own eviction order never influence an answer.
\<close>

theorem replay_checker_refines:
  assumes "lru_laws ops" "0 < w" "\<forall>(now, op)\<in>set evs. base \<le> now - int (max w MIN_TLS_REPLAY_WINDOW)"
  shows "map_option fst (replay_run ops hasher base evs (ReplayChecker_new ops tot w)) =
    Some (fst (spec_run hasher (max (tot div 64) 1) w (max w MIN_TLS_REPLAY_WINDOW) evs spec_empty))"
  using replay_run_refines [OF assms(1) new_checker_refines [OF assms(1)] assms(2,3)] by auto

theorem replay_checker_refines_witness:
  "map_option fst (replay_run demo_lru (\<lambda>_. 7) 0
      [(200000000000, Op_handshake [1]), (200000000002, Op_handshake [2]), (200000000004, Op_handshake [1])]
      (ReplayChecker_new demo_lru 0 3)) = Some [False, False, False]"
  using replay_checker_refines [OF demo_lru_laws, of 3
      "[(200000000000, Op_handshake [1]), (200000000002, Op_handshake [2]), (200000000004, Op_handshake [1])]"
      0 "\<lambda>_. 7" 0]
  by (simp add: MIN_TLS_REPLAY_WINDOW_def spec_empty_def spec_find_def spec_insert_def log_after_add_def log_add_def
      log_live_def log_has_def split_def Let_def)

text \<open>C35.
  What was added is found.  Take any history of the checker and any operation that adds a key, be it
  a handshake or a TLS digest, checked first or not.  If a lookup in place of that operation would
  not have known the key, then every later lookup in the same family finds it, as long as no more
  than the window of the family has passed and fewer different other keys than a shard holds were
  added to the shard of the key in between, whatever else happened.
\<close>

theorem added_key_detected:
  assumes "lru_laws ops" "0 < w" "adds_key A = Some (f, k)" "asks_key L = Some (f, k)"
    and "\<forall>(now, op)\<in>set (pre @ (t, A) # mid @ [(t', L)]). base \<le> now - int (max w MIN_TLS_REPLAY_WINDOW)"
    and "\<forall>(now, op)\<in>set mid. now \<le> t + int (family_window f w)" "t' \<le> t + int (family_window f w)"
    and "card (rivals hasher f k mid) < max (tot div 64) 1"
  shows "\<exists>as known c bs found c'.
    replay_run ops hasher base (pre @ [(t, L)]) (ReplayChecker_new ops tot w) = Some (as @ [known], c) \<and>
    replay_run ops hasher base (pre @ (t, A) # mid @ [(t', L)]) (ReplayChecker_new ops tot w) = Some (bs @ [found], c') \<and>
    (\<not> known \<longrightarrow> found)"
proof -
  let ?tw = "max w MIN_TLS_REPLAY_WINDOW" and ?cap = "max (tot div 64) 1"
  let ?r1 = "snd (spec_run hasher ?cap w ?tw pre spec_empty)"
  let ?r3 = "snd (spec_run hasher ?cap w ?tw mid (snd (spec_step hasher ?cap w ?tw t A ?r1)))"
  have "known_key hasher w f t' k ?r3" if "\<not> known_key hasher w f t k ?r1"
    by (rule spec_added_known [where hasher = hasher, OF assms(3) that assms(8,6,7)])
  moreover have "\<exists>as. fst (spec_run hasher ?cap w ?tw (pre @ [(t, L)]) spec_empty) = as @ [known_key hasher w f t k ?r1]"
    by (simp add: spec_run_append split_def Let_def asked_answer [OF assms(4)])
  moreover have "\<exists>bs. fst (spec_run hasher ?cap w ?tw (pre @ (t, A) # mid @ [(t', L)]) spec_empty) = bs @ [known_key hasher w f t' k ?r3]"
    by (simp add: spec_run_append split_def Let_def asked_answer [OF assms(4)])
  moreover have "\<forall>(now, op)\<in>set (pre @ [(t, L)]). base \<le> now - int ?tw" using assms(5) by auto
  ultimately show ?thesis
    using replay_run_refines [OF assms(1) new_checker_refines [OF assms(1)] assms(2,5), of hasher tot]
      replay_run_refines [OF assms(1) new_checker_refines [OF assms(1)] assms(2), of "pre @ [(t, L)]" base hasher tot]
    by fastforce
qed

theorem added_key_detected_witness:
  "\<exists>as known c bs found c'.
    replay_run demo_lru (\<lambda>_. 7) 0 ([(200000000000, Op_add_handshake [1])] @ [(200000000000, Op_check_tls [1])])
      (ReplayChecker_new demo_lru 128 3) = Some (as @ [known], c) \<and>
    replay_run demo_lru (\<lambda>_. 7) 0 ([(200000000000, Op_add_handshake [1])] @ (200000000000, Op_add_tls [1]) #
        [(200000000001, Op_check_add_tls [2]), (200000000002, Op_add_tls [2]), (200000000003, Op_add_handshake [3])] @
        [(200000000009, Op_check_tls [1])])
      (ReplayChecker_new demo_lru 128 3) = Some (bs @ [found], c') \<and> (\<not> known \<longrightarrow> found)"
proof -
  let ?mid = "[(200000000001, Op_check_add_tls [2]), (200000000002, Op_add_tls [2]), (200000000003, Op_add_handshake [3])]"
  have "rivals (\<lambda>_. 7) Tls_digests [1] ?mid = {[2]}" by (auto simp: rivals_Cons) (auto simp: rivals_def keys_added_def)
  then show ?thesis
    by (intro added_key_detected [OF demo_lru_laws, where f = Tls_digests and k = "[1]"]) (simp_all add: MIN_TLS_REPLAY_WINDOW_def)
qed

end
