(* ===== verification/Auth_Probe.thy ===== *)
theory Auth_Probe
  imports Std_Net Assoc_Sum Replay_Checker
begin

text \<open>
  Throttling of clients that fail to authenticate (\<open>src/proxy/handshake/auth_probe.rs\<close>) and the
  state the handshakes share (\<open>HandshakeSharedState\<close> of \<open>src/proxy/shared_state.rs\<close>).

  The concurrent maps (\<open>DashMap\<close>) are association lists with distinct keys.  The order in which
  such a map is iterated and the seeded hash that picks where a scan starts are code outside the
  repository: they are the fields of the parameter \<open>env\<close>.  Instants and durations are in
  nanoseconds; \<open>duration_since\<close> an instant in the future is zero.  The random delay before a
  rejection changes no state and is left out.
\<close>

section \<open>Constants and state\<close>

definition AUTH_PROBE_TRACK_RETENTION_SECS :: nat where "AUTH_PROBE_TRACK_RETENTION_SECS = 10 * 60"
definition AUTH_PROBE_TRACK_MAX_ENTRIES :: nat where "AUTH_PROBE_TRACK_MAX_ENTRIES = 65536"
definition AUTH_PROBE_PRUNE_SCAN_LIMIT :: nat where "AUTH_PROBE_PRUNE_SCAN_LIMIT = 1024"
definition AUTH_PROBE_BACKOFF_START_FAILS :: nat where "AUTH_PROBE_BACKOFF_START_FAILS = 4"
definition AUTH_PROBE_SATURATION_GRACE_FAILS :: nat where "AUTH_PROBE_SATURATION_GRACE_FAILS = 2"
definition AUTH_PROBE_BACKOFF_BASE_MS :: nat where "AUTH_PROBE_BACKOFF_BASE_MS = 25"
definition AUTH_PROBE_BACKOFF_MAX_MS :: nat where "AUTH_PROBE_BACKOFF_MAX_MS = 1000"
definition EXPENSIVE_INVALID_SCAN_SATURATION_THRESHOLD :: nat where
  "EXPENSIVE_INVALID_SCAN_SATURATION_THRESHOLD = 64"
definition UNKNOWN_SNI_WARN_COOLDOWN_SECS :: nat where "UNKNOWN_SNI_WARN_COOLDOWN_SECS = 5"

definition from_secs :: "nat \<Rightarrow> nat" where "from_secs s = s * 1000000000"
definition from_millis :: "nat \<Rightarrow> nat" where "from_millis ms = ms * 1000000"

record AuthProbeState =
  fail_streak :: nat
  blocked_until :: instant
  last_seen :: instant

record AuthProbeSaturationState =
  sat_fail_streak :: nat
  sat_blocked_until :: instant
  sat_last_seen :: instant

record HandshakeSharedState =
  auth_probe :: "(IpAddr \<times> AuthProbeState) list"
  auth_probe_saturation :: "AuthProbeSaturationState option"
  invalid_secret_warned :: "(bytes \<times> bytes) list"
  unknown_sni_warn_next_allowed :: "instant option"
  sticky_user_by_ip :: "(IpAddr \<times> nat) list"
  sticky_user_by_ip_prefix :: "(nat \<times> nat) list"
  sticky_user_by_sni_hash :: "(nat \<times> nat) list"
  recent_user_ring :: "nat list"
  recent_user_ring_seq :: nat
  auth_expensive_checks_total :: nat
  auth_budget_exhausted_total :: nat

definition HANDSHAKE_RECENT_USER_RING_LEN :: nat where "HANDSHAKE_RECENT_USER_RING_LEN = 64"

definition HandshakeSharedState_new :: HandshakeSharedState where
  "HandshakeSharedState_new = \<lparr>auth_probe = [], auth_probe_saturation = None, invalid_secret_warned = [],
    unknown_sni_warn_next_allowed = None, sticky_user_by_ip = [], sticky_user_by_ip_prefix = [],
    sticky_user_by_sni_hash = [], recent_user_ring = replicate HANDSHAKE_RECENT_USER_RING_LEN 0,
    recent_user_ring_seq = 0, auth_expensive_checks_total = 0, auth_budget_exhausted_total = 0\<rparr>"

record probe_env =
  iter_order :: "(IpAddr \<times> AuthProbeState) list \<Rightarrow> (IpAddr \<times> AuthProbeState) list"
  eviction_hash :: "IpAddr \<Rightarrow> instant \<Rightarrow> nat"

section \<open>Operations\<close>

definition should_emit_unknown_sni_warn :: "instant \<Rightarrow> HandshakeSharedState \<Rightarrow> bool \<times> HandshakeSharedState" where
  "should_emit_unknown_sni_warn now sh =
    (case unknown_sni_warn_next_allowed sh of
       Some next_allowed \<Rightarrow>
         if now < next_allowed then (False, sh)
         else (True, sh\<lparr>unknown_sni_warn_next_allowed := Some (now + int (from_secs UNKNOWN_SNI_WARN_COOLDOWN_SECS))\<rparr>)
     | None \<Rightarrow> (True, sh\<lparr>unknown_sni_warn_next_allowed := Some (now + int (from_secs UNKNOWN_SNI_WARN_COOLDOWN_SECS))\<rparr>))"

fun normalize_auth_probe_ip :: "IpAddr \<Rightarrow> IpAddr" where
  "normalize_auth_probe_ip (V4 ip) = V4 ip"
| "normalize_auth_probe_ip (V6 segs) = V6 (take 4 segs @ [0, 0, 0, 0])"

definition auth_probe_backoff :: "nat \<Rightarrow> nat" where
  "auth_probe_backoff streak =
    (if streak < AUTH_PROBE_BACKOFF_START_FAILS then 0
     else let shift = min (streak - AUTH_PROBE_BACKOFF_START_FAILS) 10;
              multiplier = (if shift < 64 then 2 ^ shift else U64_MAX);
              ms = min (sat_mul U64_MAX AUTH_PROBE_BACKOFF_BASE_MS multiplier) AUTH_PROBE_BACKOFF_MAX_MS
          in from_millis ms)"

definition auth_probe_state_expired :: "AuthProbeState \<Rightarrow> instant \<Rightarrow> bool" where
  "auth_probe_state_expired st now \<longleftrightarrow> int (from_secs AUTH_PROBE_TRACK_RETENTION_SECS) < now - last_seen st"

definition auth_probe_scan_start_offset :: "probe_env \<Rightarrow> IpAddr \<Rightarrow> instant \<Rightarrow> nat \<Rightarrow> nat \<Rightarrow> nat" where
  "auth_probe_scan_start_offset env peer_ip now state_len scan_limit =
    (if state_len = 0 \<or> scan_limit = 0 then 0 else eviction_hash env peer_ip now mod state_len)"

definition auth_probe_is_throttled :: "IpAddr \<Rightarrow> instant \<Rightarrow> HandshakeSharedState \<Rightarrow> bool \<times> HandshakeSharedState" where
  "auth_probe_is_throttled peer_ip now sh =
    (let peer_ip = normalize_auth_probe_ip peer_ip in
     case map_of (auth_probe sh) peer_ip of
       None \<Rightarrow> (False, sh)
     | Some entry \<Rightarrow>
         if auth_probe_state_expired entry now then (False, sh\<lparr>auth_probe := AList.delete peer_ip (auth_probe sh)\<rparr>)
         else (now < blocked_until entry, sh))"

definition auth_probe_saturation_grace_exhausted ::
  "IpAddr \<Rightarrow> instant \<Rightarrow> HandshakeSharedState \<Rightarrow> bool \<times> HandshakeSharedState" where
  "auth_probe_saturation_grace_exhausted peer_ip now sh =
    (let peer_ip = normalize_auth_probe_ip peer_ip in
     case map_of (auth_probe sh) peer_ip of
       None \<Rightarrow> (False, sh)
     | Some entry \<Rightarrow>
         if auth_probe_state_expired entry now then (False, sh\<lparr>auth_probe := AList.delete peer_ip (auth_probe sh)\<rparr>)
         else (AUTH_PROBE_BACKOFF_START_FAILS + AUTH_PROBE_SATURATION_GRACE_FAILS \<le> fail_streak entry, sh))"

definition auth_probe_saturation_is_throttled :: "instant \<Rightarrow> HandshakeSharedState \<Rightarrow> bool \<times> HandshakeSharedState" where
  "auth_probe_saturation_is_throttled now sh =
    (case auth_probe_saturation sh of
       None \<Rightarrow> (False, sh)
     | Some st \<Rightarrow>
         if int (from_secs AUTH_PROBE_TRACK_RETENTION_SECS) < now - sat_last_seen st
         then (False, sh\<lparr>auth_probe_saturation := None\<rparr>)
         else (now < sat_blocked_until st, sh))"

definition auth_probe_should_apply_preauth_throttle ::
  "IpAddr \<Rightarrow> instant \<Rightarrow> HandshakeSharedState \<Rightarrow> bool \<times> HandshakeSharedState" where
  "auth_probe_should_apply_preauth_throttle peer_ip now sh =
    (let (throttled, sh) = auth_probe_is_throttled peer_ip now sh in
     if \<not> throttled then (False, sh)
     else let (saturated, sh) = auth_probe_saturation_is_throttled now sh in
       if \<not> saturated then (True, sh)
       else auth_probe_saturation_grace_exhausted peer_ip now sh)"

definition auth_probe_note_saturation :: "instant \<Rightarrow> HandshakeSharedState \<Rightarrow> HandshakeSharedState" where
  "auth_probe_note_saturation now sh =
    (let fresh = \<lparr>sat_fail_streak = AUTH_PROBE_BACKOFF_START_FAILS,
           sat_blocked_until = now + int (auth_probe_backoff AUTH_PROBE_BACKOFF_START_FAILS), sat_last_seen = now\<rparr> in
     sh\<lparr>auth_probe_saturation := Some (case auth_probe_saturation sh of
          Some st \<Rightarrow>
            if now - sat_last_seen st \<le> int (from_secs AUTH_PROBE_TRACK_RETENTION_SECS)
            then let n = sat_add U32_MAX (sat_fail_streak st) 1
                 in \<lparr>sat_fail_streak = n, sat_blocked_until = now + int (auth_probe_backoff n), sat_last_seen = now\<rparr>
            else fresh
        | None \<Rightarrow> fresh)\<rparr>)"

definition auth_probe_note_expensive_invalid_scan ::
  "instant \<Rightarrow> nat \<Rightarrow> bool \<Rightarrow> HandshakeSharedState \<Rightarrow> HandshakeSharedState" where
  "auth_probe_note_expensive_invalid_scan now validation_checks overload sh =
    (if overload \<or> validation_checks < EXPENSIVE_INVALID_SCAN_SATURATION_THRESHOLD then sh
     else auth_probe_note_saturation now sh)"

text \<open>Which entry a scan gives up first: the smallest streak, the oldest among equal ones.\<close>

type_synonym candidate = "(IpAddr \<times> nat \<times> instant) option"

fun eviction_candidate :: "candidate \<Rightarrow> IpAddr \<times> AuthProbeState \<Rightarrow> candidate" where
  "eviction_candidate (Some (key0, current_fail, current_seen)) (key, st) =
    (if current_fail < fail_streak st \<or> (fail_streak st = current_fail \<and> current_seen \<le> last_seen st)
     then Some (key0, current_fail, current_seen) else Some (key, fail_streak st, last_seen st))"
| "eviction_candidate None (key, st) = Some (key, fail_streak st, last_seen st)"

definition scanned_entries :: "probe_env \<Rightarrow> IpAddr \<Rightarrow> instant \<Rightarrow> (IpAddr \<times> AuthProbeState) list \<Rightarrow> (IpAddr \<times> AuthProbeState) list" where
  "scanned_entries env peer_ip now state =
    (let state_len = length state;
         scan_limit = min state_len AUTH_PROBE_PRUNE_SCAN_LIMIT
     in if state_len \<le> AUTH_PROBE_PRUNE_SCAN_LIMIT then iter_order env state
        else let start_offset = auth_probe_scan_start_offset env peer_ip now state_len scan_limit;
                 first = take scan_limit (drop start_offset (iter_order env state))
             in if length first < scan_limit
                then first @ take (scan_limit - length first) (iter_order env state) else first)"

text \<open>The loop that makes room; the result is \<^term>\<open>False\<close> where the code returns early.\<close>

function prune_rounds :: "probe_env \<Rightarrow> IpAddr \<Rightarrow> instant \<Rightarrow> nat \<Rightarrow> HandshakeSharedState \<Rightarrow> bool \<times> HandshakeSharedState" where
  "prune_rounds env peer_ip now rounds sh =
    (if length (auth_probe sh) < AUTH_PROBE_TRACK_MAX_ENTRIES then (True, sh)
     else let rounds = rounds + 1 in
       if 8 < rounds then
         let sh = auth_probe_note_saturation now sh in
         (case foldl eviction_candidate None (take AUTH_PROBE_PRUNE_SCAN_LIMIT (iter_order env (auth_probe sh))) of
            None \<Rightarrow> (False, sh)
          | Some (evict_key, _, _) \<Rightarrow> (True, sh\<lparr>auth_probe := AList.delete evict_key (auth_probe sh)\<rparr>))
       else
         let scanned = scanned_entries env peer_ip now (auth_probe sh);
             candidate = foldl eviction_candidate None scanned;
             stale_keys = map fst (filter (\<lambda>(_, st). auth_probe_state_expired st now) scanned);
             sh = sh\<lparr>auth_probe := fold AList.delete stale_keys (auth_probe sh)\<rparr>
         in if length (auth_probe sh) < AUTH_PROBE_TRACK_MAX_ENTRIES then (True, sh)
            else (case candidate of
                    None \<Rightarrow> (False, auth_probe_note_saturation now sh)
                  | Some (evict_key, _, _) \<Rightarrow>
                      prune_rounds env peer_ip now rounds
                        (auth_probe_note_saturation now (sh\<lparr>auth_probe := AList.delete evict_key (auth_probe sh)\<rparr>))))"
  by pat_completeness auto
termination
  by (relation "measure (\<lambda>(env, peer_ip, now, rounds, sh). 9 - rounds)") auto

declare prune_rounds.simps [simp del]

definition new_probe_state :: "instant \<Rightarrow> AuthProbeState" where
  "new_probe_state now = \<lparr>fail_streak = 1, blocked_until = now + int (auth_probe_backoff 1), last_seen = now\<rparr>"

definition failed_probe_state :: "instant \<Rightarrow> AuthProbeState \<Rightarrow> AuthProbeState" where
  "failed_probe_state now entry =
    (if auth_probe_state_expired entry now then new_probe_state now
     else let n = sat_add U32_MAX (fail_streak entry) 1
          in \<lparr>fail_streak = n, blocked_until = now + int (auth_probe_backoff n), last_seen = now\<rparr>)"

definition auth_probe_record_failure_with_state ::
  "probe_env \<Rightarrow> IpAddr \<Rightarrow> instant \<Rightarrow> HandshakeSharedState \<Rightarrow> HandshakeSharedState" where
  "auth_probe_record_failure_with_state env peer_ip now sh =
    (case map_of (auth_probe sh) peer_ip of
       Some entry \<Rightarrow> sh\<lparr>auth_probe := AList.update peer_ip (failed_probe_state now entry) (auth_probe sh)\<rparr>
     | None \<Rightarrow>
         let (go_on, sh) = prune_rounds env peer_ip now 0 sh in
         if \<not> go_on then sh
         else case map_of (auth_probe sh) peer_ip of
                Some entry \<Rightarrow> sh\<lparr>auth_probe := AList.update peer_ip (failed_probe_state now entry) (auth_probe sh)\<rparr>
              | None \<Rightarrow> sh\<lparr>auth_probe := AList.update peer_ip (new_probe_state now) (auth_probe sh)\<rparr>)"

definition auth_probe_record_failure :: "probe_env \<Rightarrow> IpAddr \<Rightarrow> instant \<Rightarrow> HandshakeSharedState \<Rightarrow> HandshakeSharedState" where
  "auth_probe_record_failure env peer_ip now sh =
    auth_probe_record_failure_with_state env (normalize_auth_probe_ip peer_ip) now sh"

definition auth_probe_record_success :: "IpAddr \<Rightarrow> HandshakeSharedState \<Rightarrow> HandshakeSharedState" where
  "auth_probe_record_success peer_ip sh =
    sh\<lparr>auth_probe := AList.delete (normalize_auth_probe_ip peer_ip) (auth_probe sh)\<rparr>"

end
