(* ===== verification/User_Auth.thy ===== *)
theory User_Auth
  imports Auth_Probe
begin

text \<open>
  Who may connect: the snapshot of user secrets (\<open>src/config/load/runtime_auth.rs\<close>), the hints that
  order the candidates and the bounded search through them (\<open>src/proxy/handshake/auth_candidates.rs\<close>
  and the \<open>try_user_id!\<close> loops of \<open>mtproto.rs\<close> and \<open>tls_validation.rs\<close>, which differ only in the
  check of one secret and in the hints).

  \<open>hexd\<close> is the hexadecimal decoder of the \<open>hex\<close> crate, \<open>sip\<close> the standard library's default hash
  of a byte string (with its fixed keys).  A user id is a \<open>u32\<close> read as a number.
\<close>

section \<open>The snapshot\<close>

definition ACCESS_SECRET_BYTES :: nat where "ACCESS_SECRET_BYTES = 16"
definition STICKY_HINT_MAX_ENTRIES :: nat where "STICKY_HINT_MAX_ENTRIES = 65536"
definition CANDIDATE_HINT_TRACK_CAP :: nat where "CANDIDATE_HINT_TRACK_CAP = 64"
definition OVERLOAD_CANDIDATE_BUDGET_HINTED :: nat where "OVERLOAD_CANDIDATE_BUDGET_HINTED = 16"
definition OVERLOAD_CANDIDATE_BUDGET_UNHINTED :: nat where "OVERLOAD_CANDIDATE_BUDGET_UNHINTED = 8"
definition RECENT_USER_RING_SCAN_LIMIT :: nat where "RECENT_USER_RING_SCAN_LIMIT = 32"
definition WARNED_SECRET_MAX_ENTRIES :: nat where "WARNED_SECRET_MAX_ENTRIES = 1024"

record UserAuthEntry =
  ua_user :: bytes
  ua_secret :: bytes

record UserAuthSnapshot =
  ua_entries :: "UserAuthEntry list"
  by_name :: "(bytes \<times> nat) list"
  sni_index :: "(nat \<times> nat list) list"
  sni_initial_index :: "(byte \<times> nat list) list"

datatype auth_config_error = InvalidSecret bytes | Too_many_users

definition to_ascii_lowercase :: "byte \<Rightarrow> byte" where
  "to_ascii_lowercase b = (if 65 \<le> unat b \<and> unat b \<le> 90 then b + 32 else b)"

definition sni_lookup_hash :: "(bytes \<Rightarrow> nat) \<Rightarrow> bytes \<Rightarrow> nat" where
  "sni_lookup_hash sip v = sip (map to_ascii_lowercase v)"

definition push_id :: "'k \<Rightarrow> nat \<Rightarrow> ('k \<times> nat list) list \<Rightarrow> ('k \<times> nat list) list" where
  "push_id k uid index = AList.update k ((case map_of index k of Some ids \<Rightarrow> ids | None \<Rightarrow> []) @ [uid]) index"

fun from_users_loop where
  "from_users_loop hexd sip [] snap = Inr snap"
| "from_users_loop hexd sip ((user, secret_hex) # users) snap =
    (case hexd secret_hex of
       None \<Rightarrow> Inl (InvalidSecret user)
     | Some decoded \<Rightarrow>
         if length decoded \<noteq> ACCESS_SECRET_BYTES then Inl (InvalidSecret user)
         else case try_from U32_MAX (length (ua_entries snap)) of
                None \<Rightarrow> Inl Too_many_users
              | Some user_id \<Rightarrow>
                  from_users_loop hexd sip users
                    \<lparr>ua_entries = ua_entries snap @ [\<lparr>ua_user = user, ua_secret = decoded\<rparr>],
                     by_name = AList.update user user_id (by_name snap),
                     sni_index = push_id (sni_lookup_hash sip user) user_id (sni_index snap),
                     sni_initial_index = (case user of
                        b # _ \<Rightarrow> push_id (to_ascii_lowercase b) user_id (sni_initial_index snap)
                      | [] \<Rightarrow> sni_initial_index snap)\<rparr>)"

definition from_users ::
  "(bytes \<Rightarrow> bytes option) \<Rightarrow> (bytes \<Rightarrow> nat) \<Rightarrow> (bytes \<times> bytes) list \<Rightarrow> auth_config_error + UserAuthSnapshot" where
  "from_users hexd sip users =
    from_users_loop hexd sip users \<lparr>ua_entries = [], by_name = [], sni_index = [], sni_initial_index = []\<rparr>"

definition user_id_by_name :: "UserAuthSnapshot \<Rightarrow> bytes \<Rightarrow> nat option" where
  "user_id_by_name snap user = map_of (by_name snap) user"

definition entry_by_id :: "UserAuthSnapshot \<Rightarrow> nat \<Rightarrow> UserAuthEntry option" where
  "entry_by_id snap user_id = idx (ua_entries snap) user_id"

definition sni_candidates :: "(bytes \<Rightarrow> nat) \<Rightarrow> UserAuthSnapshot \<Rightarrow> bytes \<Rightarrow> nat list option" where
  "sni_candidates sip snap sni = map_of (sni_index snap) (sni_lookup_hash sip sni)"

definition sni_initial_candidates :: "UserAuthSnapshot \<Rightarrow> bytes \<Rightarrow> nat list option" where
  "sni_initial_candidates snap sni =
    (case sni of [] \<Rightarrow> None | b # _ \<Rightarrow> map_of (sni_initial_index snap) (to_ascii_lowercase b))"

section \<open>Secrets from the configuration\<close>

definition warn_invalid_secret_once :: "bytes \<Rightarrow> bytes \<Rightarrow> HandshakeSharedState \<Rightarrow> HandshakeSharedState" where
  "warn_invalid_secret_once name reason sh =
    (let key = (name, reason); warned = invalid_secret_warned sh in
     if key \<notin> set warned \<and> WARNED_SECRET_MAX_ENTRIES \<le> length warned then sh
     else sh\<lparr>invalid_secret_warned := List.insert key warned\<rparr>)"

definition invalid_length :: bytes where "invalid_length = map of_char ''invalid_length''"
definition invalid_hex :: bytes where "invalid_hex = map of_char ''invalid_hex''"

definition decode_user_secret where
  "decode_user_secret hexd name secret_hex sh =
    (case hexd secret_hex of
       Some decoded \<Rightarrow>
         if length decoded = ACCESS_SECRET_BYTES then (Some decoded, sh)
         else (None, warn_invalid_secret_once name invalid_length sh)
     | None \<Rightarrow> (None, warn_invalid_secret_once name invalid_hex sh))"

fun decode_user_secrets_loop where
  "decode_user_secrets_loop hexd preferred [] secrets sh = (secrets, sh)"
| "decode_user_secrets_loop hexd preferred ((name, secret_hex) # users) secrets sh =
    (if preferred = Some name then decode_user_secrets_loop hexd preferred users secrets sh
     else case decode_user_secret hexd name secret_hex sh of
            (Some decoded, sh) \<Rightarrow> decode_user_secrets_loop hexd preferred users (secrets @ [(name, decoded)]) sh
          | (None, sh) \<Rightarrow> decode_user_secrets_loop hexd preferred users secrets sh)"

definition decode_user_secrets where
  "decode_user_secrets hexd users preferred_user sh =
    (let (secrets, sh) =
       (case preferred_user of
          None \<Rightarrow> ([], sh)
        | Some preferred \<Rightarrow>
            (case map_of users preferred of
               None \<Rightarrow> ([], sh)
             | Some secret_hex \<Rightarrow>
                 (case decode_user_secret hexd preferred secret_hex sh of
                    (Some decoded, sh) \<Rightarrow> ([(preferred, decoded)], sh)
                  | (None, sh) \<Rightarrow> ([], sh))))
     in decode_user_secrets_loop hexd preferred_user users secrets sh)"

section \<open>Hints\<close>

definition octets_v6 :: "nat list \<Rightarrow> bytes" where
  "octets_v6 segs = concat (map (nat_be 2) segs)"

fun ip_prefix_hint_key :: "IpAddr \<Rightarrow> nat" where
  "ip_prefix_hint_key (V4 ip) = be_nat (0x04 # take 3 ip @ [0, 0, 0, 0])"
| "ip_prefix_hint_key (V6 segs) = be_nat (0x06 # take 7 (octets_v6 segs))"

definition sticky_hint_get_by_ip :: "HandshakeSharedState \<Rightarrow> IpAddr \<Rightarrow> nat option" where
  "sticky_hint_get_by_ip sh peer_ip = map_of (sticky_user_by_ip sh) peer_ip"

definition sticky_hint_get_by_ip_prefix :: "HandshakeSharedState \<Rightarrow> IpAddr \<Rightarrow> nat option" where
  "sticky_hint_get_by_ip_prefix sh peer_ip = map_of (sticky_user_by_ip_prefix sh) (ip_prefix_hint_key peer_ip)"

definition sni_hint_hash :: "(bytes \<Rightarrow> nat) \<Rightarrow> bytes \<Rightarrow> nat" where
  "sni_hint_hash sip sni = sip (map to_ascii_lowercase sni)"

definition sticky_hint_get_by_sni :: "(bytes \<Rightarrow> nat) \<Rightarrow> HandshakeSharedState \<Rightarrow> bytes \<Rightarrow> nat option" where
  "sticky_hint_get_by_sni sip sh sni = map_of (sticky_user_by_sni_hash sh) (sni_hint_hash sip sni)"

text \<open>A hint table is emptied once it has outgrown its bound.\<close>

definition remember_hint :: "'k \<Rightarrow> nat \<Rightarrow> ('k \<times> nat) list \<Rightarrow> ('k \<times> nat) list" where
  "remember_hint k uid hints = AList.update k uid (if STICKY_HINT_MAX_ENTRIES < length hints then [] else hints)"

definition sticky_hint_record_success ::
  "(bytes \<Rightarrow> nat) \<Rightarrow> IpAddr \<Rightarrow> nat \<Rightarrow> bytes option \<Rightarrow> HandshakeSharedState \<Rightarrow> HandshakeSharedState" where
  "sticky_hint_record_success sip peer_ip user_id sni sh =
    (let sh = sh\<lparr>sticky_user_by_ip := remember_hint peer_ip user_id (sticky_user_by_ip sh)\<rparr>;
         sh = sh\<lparr>sticky_user_by_ip_prefix :=
                 remember_hint (ip_prefix_hint_key peer_ip) user_id (sticky_user_by_ip_prefix sh)\<rparr>
     in case sni of
          None \<Rightarrow> sh
        | Some sni \<Rightarrow> sh\<lparr>sticky_user_by_sni_hash :=
            remember_hint (sni_hint_hash sip sni) user_id (sticky_user_by_sni_hash sh)\<rparr>)"

definition record_recent_user_success :: "nat \<Rightarrow> HandshakeSharedState \<Rightarrow> HandshakeSharedState" where
  "record_recent_user_success user_id sh =
    (let ring = recent_user_ring sh in
     if ring = [] then sh
     else let seq = recent_user_ring_seq sh;
              i = seq mod length ring
          in sh\<lparr>recent_user_ring_seq := (seq + 1) mod 2 ^ 64,
                recent_user_ring := ring[i := sat_add U32_MAX user_id 1]\<rparr>)"

section \<open>The bounded search\<close>

text \<open>
  \<open>sc_tried\<close> is the filled part of the array of tried ids; once the array is full further ids are
  tried without being remembered.
\<close>

record scan =
  sc_tried :: "nat list"
  sc_checks :: nat
  sc_exhausted :: bool

definition scan_start :: scan where
  "scan_start = \<lparr>sc_tried = [], sc_checks = 0, sc_exhausted = False\<rparr>"

definition mark_candidate_if_new :: "nat list \<Rightarrow> nat \<Rightarrow> bool \<times> nat list" where
  "mark_candidate_if_new tried user_id =
    (if user_id \<in> set tried then (False, tried)
     else (True, if length tried < CANDIDATE_HINT_TRACK_CAP then tried @ [user_id] else tried))"

definition budget_for_validation :: "nat \<Rightarrow> bool \<Rightarrow> bool \<Rightarrow> nat" where
  "budget_for_validation total_users overload has_hint =
    (if total_users = 0 then 0
     else if \<not> overload then total_users
     else let cap = (if has_hint then OVERLOAD_CANDIDATE_BUDGET_HINTED else OVERLOAD_CANDIDATE_BUDGET_UNHINTED)
          in min total_users (max cap 1))"

type_synonym 'v matched = "(nat \<times> UserAuthEntry \<times> 'v) option"

definition try_user_id ::
  "UserAuthSnapshot \<Rightarrow> (bytes \<Rightarrow> 'v option) \<Rightarrow> nat \<Rightarrow> nat \<Rightarrow> scan \<Rightarrow> 'v matched \<times> scan" where
  "try_user_id snap validate budget user_id sc =
    (if budget \<le> sc_checks sc then (None, sc\<lparr>sc_exhausted := True\<rparr>)
     else let (is_new, tried) = mark_candidate_if_new (sc_tried sc) user_id;
              sc = sc\<lparr>sc_tried := tried\<rparr>
          in if \<not> is_new then (None, sc)
             else case entry_by_id snap user_id of
                    None \<Rightarrow> (None, sc)
                  | Some entry \<Rightarrow>
                      let sc = sc\<lparr>sc_checks := sc_checks sc + 1\<rparr>
                      in (map_option (\<lambda>v. (user_id, entry, v)) (validate (ua_secret entry)), sc))"

definition try_hint where
  "try_hint snap validate budget hint r =
    (case r of (m, sc) \<Rightarrow>
      (case (m, hint) of (None, Some user_id) \<Rightarrow> try_user_id snap validate budget user_id sc | _ \<Rightarrow> r))"

fun try_each where
  "try_each snap validate budget [] sc = (None, sc)"
| "try_each snap validate budget (user_id # user_ids) sc =
    (case try_user_id snap validate budget user_id sc of
       (Some m, sc) \<Rightarrow> (Some m, sc)
     | (None, sc) \<Rightarrow> if sc_exhausted sc then (None, sc) else try_each snap validate budget user_ids sc)"

definition try_list where
  "try_list snap validate budget user_ids r =
    (case r of (m, sc) \<Rightarrow> if m = None \<and> \<not> sc_exhausted sc then try_each snap validate budget user_ids sc else r)"

definition ring_candidates :: "HandshakeSharedState \<Rightarrow> nat list" where
  "ring_candidates sh =
    (let ring = recent_user_ring sh; next_seq = recent_user_ring_seq sh;
         scan_limit = min (length ring) RECENT_USER_RING_SCAN_LIMIT
     in map (\<lambda>encoded. encoded - 1)
          (filter (\<lambda>encoded. encoded \<noteq> 0)
            (map (\<lambda>offset. ring ! ((next_seq + length ring - 1 - offset) mod 2 ^ 64 mod length ring)) [0..<scan_limit])))"

definition all_candidates :: "UserAuthSnapshot \<Rightarrow> nat list" where
  "all_candidates snap = takeWhile (\<lambda>i. i \<le> U32_MAX) [0..<length (ua_entries snap)]"

text \<open>The two searches, with the hints in the order the code tries them.\<close>

definition mtproto_search where
  "mtproto_search snap validate budget sticky_ip preferred sticky_prefix sh =
    (let r = (None, scan_start);
         r = try_hint snap validate budget sticky_ip r;
         r = try_hint snap validate budget preferred r;
         r = try_hint snap validate budget sticky_prefix r;
         r = try_list snap validate budget (ring_candidates sh) r
     in try_list snap validate budget (all_candidates snap) r)"

definition tls_search where
  "tls_search snap validate budget sticky_ip preferred sticky_sni sticky_prefix by_sni by_initial sh =
    (let r = (None, scan_start);
         r = try_hint snap validate budget sticky_ip r;
         r = try_hint snap validate budget preferred r;
         r = try_hint snap validate budget sticky_sni r;
         r = try_hint snap validate budget sticky_prefix r;
         r = (case by_sni of Some ids \<Rightarrow> try_list snap validate budget ids r | None \<Rightarrow> r);
         r = (case by_initial of Some ids \<Rightarrow> try_list snap validate budget ids r | None \<Rightarrow> r);
         r = try_list snap validate budget (ring_candidates sh) r
     in try_list snap validate budget (all_candidates snap) r)"

end
