(* ===== verification/Proxy_Config.thy ===== *)
theory Proxy_Config
  imports User_Auth Tls_Stream
begin

text \<open>
  The configuration values the handshakes read (\<open>src/config/types\<close>), the outcome type of a
  handshake (\<open>src/error.rs\<close>), and the code outside the repository that they call.

  Networks come from the \<open>ipnetwork\<close> crate; whether one contains an address is the parameter
  \<open>net_contains\<close>.  A \<open>SocketAddr\<close> is an address with a port.
\<close>

datatype UnknownSniAction = Drop_connection | Mask | Accept | RejectHandshake

datatype TlsFingerprintProfile = FP_Chrome | FP_Firefox | FP_Compat | FP_Legacy

record 'n ProxyConfig =
  modes_classic :: bool
  modes_secure :: bool
  modes_tls :: bool
  crypto_pending_buffer :: nat
  users :: "(bytes \<times> bytes) list"
  user_source_deny :: "(bytes \<times> 'n list) list"
  ignore_time_skew :: bool
  replay_window_secs :: nat
  runtime_user_auth :: "UserAuthSnapshot option"
  tls_domain :: bytes
  tls_domains :: "bytes list"
  tls_fingerprints :: "(bytes \<times> TlsFingerprintProfile) list"
  unknown_sni_action :: UnknownSniAction
  fake_cert_len :: nat
  tls_emulation :: bool
  tls_new_session_tickets :: nat
  serverhello_compact :: bool
  alpn_enforce :: bool
  tls_full_cert_ttl_secs :: nat

definition is_user_source_ip_denied :: "('n \<Rightarrow> IpAddr \<Rightarrow> bool) \<Rightarrow> 'n ProxyConfig \<Rightarrow> bytes \<Rightarrow> IpAddr \<Rightarrow> bool" where
  "is_user_source_ip_denied net_contains cfg username ip \<longleftrightarrow>
    (case map_of (user_source_deny cfg) username of
       None \<Rightarrow> False | Some nets \<Rightarrow> list_ex (\<lambda>n. net_contains n ip) nets)"

definition rebuild_runtime_user_auth where
  "rebuild_runtime_user_auth hexd sip cfg =
    (case from_users hexd sip (users cfg) of
       Inl e \<Rightarrow> Inl e | Inr snap \<Rightarrow> Inr (cfg\<lparr>runtime_user_auth := Some snap\<rparr>))"

type_synonym SocketAddr = "IpAddr \<times> nat"

datatype ProxyError = UnknownTlsSni | Io ErrorKind

datatype ('s, 'r, 'w) HandshakeResult = Success 's | BadClient 'r 'w | HandshakeError ProxyError

text \<open>
  Everything a handshake takes from outside: the throttle's map order and hash, the cache of the
  replay checker with its hash and clock base, the default hash, the hex decoder, the digest, the
  cipher and the network test.
\<close>

record ('c, 'n) world =
  w_probe :: probe_env
  w_lru :: "'c lru_ops"
  w_replay_hash :: "bytes \<Rightarrow> 64 word"
  w_base :: instant
  w_sip :: "bytes \<Rightarrow> nat"
  w_hexd :: "bytes \<Rightarrow> bytes option"
  w_sha :: "bytes \<Rightarrow> nat \<Rightarrow> byte"
  w_cipher :: "bytes \<Rightarrow> bytes \<Rightarrow> nat \<Rightarrow> byte"
  w_contains :: "'n \<Rightarrow> IpAddr \<Rightarrow> bool"

text \<open>The readings of the monotonic clock during one handshake, in the order they are taken.\<close>

record hs_clock =
  throttle_now :: instant
  overload_now :: instant
  replay_now :: instant
  failure_now :: instant

end
