(* ===== verification/Mtproto_Handshake.thy ===== *)
theory Mtproto_Handshake
  imports Obfuscation Proxy_Config
begin

text \<open>
  The MTProto handshake of a client (\<open>src/proxy/handshake/mtproto.rs\<close>, with the check of one secret
  from \<open>auth_candidates.rs\<close> and its result from \<open>session.rs\<close>): throttle, key derivation, search for
  the user, source deny list, replay check, and the encrypted streams handed on.

  The handler is one step on the shared state and the replay checker; \<^term>\<open>None\<close> stands for a
  panic or a loop without end in the replay checker.  Waiting before a rejection and logging leave
  no trace in the state and are left out.
\<close>

section \<open>One secret\<close>

record MtprotoCandidateValidation =
  mv_proto_tag :: ProtoTag
  mv_dc_idx :: int
  mv_dec_key :: bytes
  mv_dec_iv :: nat
  mv_enc_key :: bytes
  mv_enc_iv :: nat
  mv_decryptor :: AesCtr
  mv_encryptor :: AesCtr

fun mode_enabled_for_proto :: "'n ProxyConfig \<Rightarrow> ProtoTag \<Rightarrow> bool \<Rightarrow> bool" where
  "mode_enabled_for_proto cfg Secure is_tls = (if is_tls then modes_tls cfg else modes_secure cfg)"
| "mode_enabled_for_proto cfg Intermediate is_tls = modes_classic cfg"
| "mode_enabled_for_proto cfg Abridged is_tls = modes_classic cfg"

definition validate_mtproto_secret_candidate where
  "validate_mtproto_secret_candidate sha cipher handshake dec_prekey dec_iv enc_prekey enc_iv cfg is_tls secret =
    (let dec_key = sha256 sha (dec_prekey @ secret);
         (decrypted, d) = ctr_apply handshake (AesCtr_new cipher dec_key dec_iv);
         tag_bytes = [decrypted ! PROTO_TAG_POS, decrypted ! (PROTO_TAG_POS + 1),
                      decrypted ! (PROTO_TAG_POS + 2), decrypted ! (PROTO_TAG_POS + 3)]
     in case ProtoTag_from_bytes tag_bytes of
          None \<Rightarrow> None
        | Some proto_tag \<Rightarrow>
            if \<not> mode_enabled_for_proto cfg proto_tag is_tls then None
            else let dc_idx = i16_from_le [decrypted ! DC_IDX_POS, decrypted ! (DC_IDX_POS + 1)];
                     enc_key = sha256 sha (enc_prekey @ secret)
                 in Some \<lparr>mv_proto_tag = proto_tag, mv_dc_idx = dc_idx, mv_dec_key = dec_key, mv_dec_iv = dec_iv,
                     mv_enc_key = enc_key, mv_enc_iv = enc_iv, mv_decryptor = d,
                     mv_encryptor = AesCtr_new cipher enc_key enc_iv\<rparr>)"

text \<open>The prekeys and initial vectors of both directions, read off the handshake.\<close>

definition handshake_prekeys :: "bytes \<Rightarrow> bytes \<times> nat \<times> bytes \<times> nat" where
  "handshake_prekeys handshake =
    (let dec_prekey_iv = take (PREKEY_LEN + IV_LEN) (drop SKIP_LEN handshake);
         enc_prekey_iv = rev dec_prekey_iv
     in (take PREKEY_LEN dec_prekey_iv, be_nat (drop PREKEY_LEN dec_prekey_iv),
         take PREKEY_LEN enc_prekey_iv, be_nat (drop PREKEY_LEN enc_prekey_iv)))"

section \<open>The handler\<close>

record HandshakeSuccess =
  hs_user :: bytes
  hs_dc_idx :: int
  hs_proto_tag :: ProtoTag
  hs_dec_key :: bytes
  hs_dec_iv :: nat
  hs_enc_key :: bytes
  hs_enc_iv :: nat
  hs_peer :: SocketAddr
  hs_is_tls :: bool

fun legacy_search :: "(bytes \<Rightarrow> 'v option) \<Rightarrow> (bytes \<times> bytes) list \<Rightarrow> nat \<Rightarrow> (bytes \<times> 'v) option \<times> nat" where
  "legacy_search validate [] checks = (None, checks)"
| "legacy_search validate ((user, secret) # secrets) checks =
    (if length secret \<noteq> ACCESS_SECRET_BYTES then legacy_search validate secrets checks
     else case validate secret of
            Some v \<Rightarrow> (Some (user, v), checks + 1)
          | None \<Rightarrow> legacy_search validate secrets (checks + 1))"

text \<open>
  From a user whose secret passed to the result: the deny list, then the replay check, then
  success.  \<open>user_id\<close> is known on the snapshot path only.
\<close>

definition finish_mtproto where
  "finish_mtproto W ck handshake reader writer peer cfg is_tls user v user_id sh rc =
    (if is_user_source_ip_denied (w_contains W) cfg user (fst peer)
     then Some (BadClient reader writer, auth_probe_record_failure (w_probe W) (fst peer) (failure_now ck) sh, rc)
     else do {
       (replayed, rc) \<leftarrow> check_and_add_handshake (w_lru W) (w_replay_hash W) (w_base W) (replay_now ck)
          (take (PREKEY_LEN + IV_LEN) (drop SKIP_LEN handshake)) rc;
       if replayed
       then Some (BadClient reader writer, auth_probe_record_failure (w_probe W) (fst peer) (failure_now ck) sh, rc)
       else
         let success = \<lparr>hs_user = user, hs_dc_idx = mv_dc_idx v, hs_proto_tag = mv_proto_tag v,
               hs_dec_key = mv_dec_key v, hs_dec_iv = mv_dec_iv v, hs_enc_key = mv_enc_key v,
               hs_enc_iv = mv_enc_iv v, hs_peer = peer, hs_is_tls = is_tls\<rparr>;
             sh = auth_probe_record_success (fst peer) sh;
             sh = (case user_id of
                     None \<Rightarrow> sh
                   | Some uid \<Rightarrow> record_recent_user_success uid
                       (sticky_hint_record_success (w_sip W) (fst peer) uid None sh))
         in Some (Success (CryptoReader_new reader (mv_decryptor v),
                    CryptoWriter_new writer (mv_encryptor v) (crypto_pending_buffer cfg), success), sh, rc) })"

text \<open>With the snapshot of the running configuration, and without one.\<close>

definition mtproto_with_snapshot where
  "mtproto_with_snapshot W ck handshake reader writer peer cfg is_tls preferred_user validate snap sh rc =
    (let sticky_ip = sticky_hint_get_by_ip sh (fst peer);
         sticky_prefix = sticky_hint_get_by_ip_prefix sh (fst peer);
         preferred_id = Option.bind preferred_user (user_id_by_name snap);
         has_hint = (sticky_ip \<noteq> None \<or> sticky_prefix \<noteq> None \<or> preferred_id \<noteq> None);
         (overload, sh) = auth_probe_saturation_is_throttled (overload_now ck) sh;
         budget = budget_for_validation (length (ua_entries snap)) overload has_hint;
         (matched, sc) = mtproto_search snap validate budget sticky_ip preferred_id sticky_prefix sh;
         sh = sh\<lparr>auth_expensive_checks_total := (auth_expensive_checks_total sh + sc_checks sc) mod 2 ^ 64\<rparr>;
         sh = (if sc_exhausted sc
               then sh\<lparr>auth_budget_exhausted_total := (auth_budget_exhausted_total sh + 1) mod 2 ^ 64\<rparr> else sh)
     in case matched of
          None \<Rightarrow>
            let sh = auth_probe_note_expensive_invalid_scan (failure_now ck) (sc_checks sc) overload sh
            in Some (BadClient reader writer, auth_probe_record_failure (w_probe W) (fst peer) (failure_now ck) sh, rc)
        | Some (user_id, entry, v) \<Rightarrow>
            finish_mtproto W ck handshake reader writer peer cfg is_tls (ua_user entry) v (Some user_id) sh rc)"

definition mtproto_without_snapshot where
  "mtproto_without_snapshot W ck handshake reader writer peer cfg is_tls preferred_user validate sh rc =
    (let (decoded_users, sh) = decode_user_secrets (w_hexd W) (users cfg) preferred_user sh;
         (found, validation_checks) = legacy_search validate decoded_users 0;
         sh = sh\<lparr>auth_expensive_checks_total := (auth_expensive_checks_total sh + validation_checks) mod 2 ^ 64\<rparr>
     in case found of
          None \<Rightarrow>
            Some (BadClient reader writer, auth_probe_record_failure (w_probe W) (fst peer) (failure_now ck) sh, rc)
        | Some (user, v) \<Rightarrow>
            finish_mtproto W ck handshake reader writer peer cfg is_tls user v None sh rc)"

definition handle_mtproto_handshake where
  "handle_mtproto_handshake W ck handshake reader writer peer cfg is_tls preferred_user sh rc =
    (let (throttled, sh) = auth_probe_should_apply_preauth_throttle (fst peer) (throttle_now ck) sh in
     if throttled then Some (BadClient reader writer, sh, rc)
     else
       let (dec_prekey, dec_iv, enc_prekey, enc_iv) = handshake_prekeys handshake;
           validate = validate_mtproto_secret_candidate (w_sha W) (w_cipher W) handshake
             dec_prekey dec_iv enc_prekey enc_iv cfg is_tls
       in case runtime_user_auth cfg of
            Some snap \<Rightarrow>
              mtproto_with_snapshot W ck handshake reader writer peer cfg is_tls preferred_user validate snap sh rc
          | None \<Rightarrow>
              mtproto_without_snapshot W ck handshake reader writer peer cfg is_tls preferred_user validate sh rc)"

end
