(* ===== verification/User_Auth_Props.thy ===== *)
theory User_Auth_Props
  imports User_Auth
begin

text \<open>
  What the candidate search guarantees: it only ever returns a user whose own secret passes the
  check, it never performs more checks than its budget, and outside overload it finds a matching
  user as long as the hints fit into the array of tried ids; and where they do not, whom it misses.
\<close>

section \<open>Soundness and budget\<close>

definition match_ok :: "UserAuthSnapshot \<Rightarrow> (bytes \<Rightarrow> 'v option) \<Rightarrow> 'v matched \<Rightarrow> bool" where
  "match_ok snap validate m \<longleftrightarrow>
    (case m of None \<Rightarrow> True
     | Some (uid, entry, v) \<Rightarrow> entry_by_id snap uid = Some entry \<and> validate (ua_secret entry) = Some v)"

definition sound :: "UserAuthSnapshot \<Rightarrow> (bytes \<Rightarrow> 'v option) \<Rightarrow> nat \<Rightarrow> 'v matched \<times> scan \<Rightarrow> bool" where
  "sound snap validate budget r \<longleftrightarrow> match_ok snap validate (fst r) \<and> sc_checks (snd r) \<le> budget"

lemma sound_start: "sound snap validate budget (None, scan_start)"
  by (simp add: sound_def match_ok_def scan_start_def)

lemma try_user_sound:
  "sc_checks sc \<le> budget \<Longrightarrow> sound snap validate budget (try_user_id snap validate budget uid sc)"
  by (auto simp: try_user_id_def sound_def match_ok_def Let_def split_def split: option.splits)

lemma try_hint_sound:
  "sound snap validate budget r \<Longrightarrow> sound snap validate budget (try_hint snap validate budget hint r)"
  using try_user_sound [of "snd r" budget snap validate]
  by (cases r) (auto simp: try_hint_def sound_def split: option.split)

lemma try_each_sound:
  "sc_checks sc \<le> budget \<Longrightarrow> sound snap validate budget (try_each snap validate budget uids sc)"
proof (induction uids arbitrary: sc)
  case (Cons uid uids)
  obtain m sc' where t: "try_user_id snap validate budget uid sc = (m, sc')" by fastforce
  have "sound snap validate budget (m, sc')" using try_user_sound [OF Cons.prems] t by metis
  then show ?case using Cons.IH [of sc'] by (cases m) (auto simp: t sound_def)
qed (simp add: sound_def match_ok_def)

lemma try_list_sound:
  "sound snap validate budget r \<Longrightarrow> sound snap validate budget (try_list snap validate budget uids r)"
  using try_each_sound [of "snd r" budget snap validate uids] by (cases r) (simp add: try_list_def sound_def)

lemma mtproto_search_sound:
  "sound snap validate budget (mtproto_search snap validate budget h1 h2 h3 sh)"
  unfolding mtproto_search_def Let_def by (intro try_list_sound try_hint_sound sound_start)

lemma tls_search_sound:
  "sound snap validate budget (tls_search snap validate budget h1 h2 h3 h4 l1 l2 sh)"
  unfolding tls_search_def Let_def
  by (auto intro!: try_list_sound try_hint_sound sound_start split: option.split)

section \<open>Completeness outside overload\<close>

text \<open>No entry with an id in \<open>ids\<close> passes the check.\<close>

definition failing :: "UserAuthSnapshot \<Rightarrow> (bytes \<Rightarrow> 'v option) \<Rightarrow> nat set \<Rightarrow> bool" where
  "failing snap validate ids \<longleftrightarrow>
    (\<forall>i\<in>ids. i < length (ua_entries snap) \<longrightarrow> validate (ua_secret (ua_entries snap ! i)) = None)"

text \<open>
  While every tried id is remembered: the checks made are the valid ids tried, all in vain, and
  an exhausted budget means that nobody matches.
\<close>

definition tracked :: "UserAuthSnapshot \<Rightarrow> (bytes \<Rightarrow> 'v option) \<Rightarrow> nat \<Rightarrow> 'v matched \<times> scan \<Rightarrow> bool" where
  "tracked snap validate n r \<longleftrightarrow>
    (let sc = snd r; valid = {..<length (ua_entries snap)} in
     fst r = None \<longrightarrow>
       length (sc_tried sc) \<le> n \<and> sc_checks sc = card (set (sc_tried sc) \<inter> valid) \<and>
       failing snap validate (set (sc_tried sc)) \<and> (sc_exhausted sc \<longrightarrow> failing snap validate valid))"

lemma tracked_start: "tracked snap validate 0 (None, scan_start)"
  by (simp add: tracked_def scan_start_def failing_def)

lemma all_checked:
  assumes "length (ua_entries snap) \<le> card (S \<inter> {..<length (ua_entries snap)})" "failing snap validate S"
  shows "failing snap validate {..<length (ua_entries snap)}"
proof -
  have "S \<inter> {..<length (ua_entries snap)} = {..<length (ua_entries snap)}"
    using assms(1) by (intro card_subset_eq) (auto intro: le_antisym card_mono [of "{..<length (ua_entries snap)}", simplified])
  then show ?thesis using assms(2) by (auto simp: failing_def)
qed

lemma try_user_tracked:
  assumes "tracked snap validate n (None, sc)" "n < CANDIDATE_HINT_TRACK_CAP"
  shows "tracked snap validate (Suc n) (try_user_id snap validate (length (ua_entries snap)) uid sc)"
proof -
  let ?n = "length (ua_entries snap)" and ?S = "set (sc_tried sc)"
  have t: "length (sc_tried sc) \<le> n" "sc_checks sc = card (?S \<inter> {..<?n})" "failing snap validate ?S"
      "sc_exhausted sc \<Longrightarrow> failing snap validate {..<?n}"
    using assms(1) by (auto simp: tracked_def Let_def)
  show ?thesis
  proof (cases "?n \<le> sc_checks sc")
    case True
    then show ?thesis using t all_checked [of snap ?S validate] by (simp add: try_user_id_def tracked_def Let_def)
  next
    case False
    have "(insert uid ?S \<inter> {..<?n}) = (if uid < ?n then insert uid (?S \<inter> {..<?n}) else ?S \<inter> {..<?n})" by auto
    then have "uid \<notin> ?S \<Longrightarrow> card (insert uid ?S \<inter> {..<?n}) = card (?S \<inter> {..<?n}) + (if uid < ?n then 1 else 0)"
      by simp
    then show ?thesis
      using False t assms(2)
      by (auto simp: try_user_id_def tracked_def Let_def mark_candidate_if_new_def entry_by_id_def idx_def failing_def)
  qed
qed

lemma tracked_mono: "tracked snap validate n r \<Longrightarrow> n \<le> m \<Longrightarrow> tracked snap validate m r"
  by (auto simp: tracked_def Let_def)

lemma try_hint_tracked:
  assumes "tracked snap validate n r" "n < CANDIDATE_HINT_TRACK_CAP"
  shows "tracked snap validate (Suc n) (try_hint snap validate (length (ua_entries snap)) hint r)"
  using try_user_tracked [of snap validate n "snd r"] tracked_mono [OF assms(1), of "Suc n"] assms
  by (cases r) (auto simp: try_hint_def tracked_def split: option.split)

lemma try_each_tracked:
  assumes "tracked snap validate n (None, sc)" "n + length uids \<le> CANDIDATE_HINT_TRACK_CAP"
  shows "tracked snap validate (n + length uids) (try_each snap validate (length (ua_entries snap)) uids sc)"
  using assms
proof (induction uids arbitrary: n sc)
  case (Cons uid uids)
  obtain m sc' where t: "try_user_id snap validate (length (ua_entries snap)) uid sc = (m, sc')" by fastforce
  have r: "tracked snap validate (Suc n) (m, sc')"
    using try_user_tracked [OF Cons.prems(1), of uid] Cons.prems(2) t by simp
  show ?case
  proof (cases m)
    case None
    then show ?thesis
      using Cons.IH [of "Suc n" sc'] r Cons.prems(2) tracked_mono [of snap validate "Suc n" "(None, sc')"] by (simp add: t)
  next
    case (Some a)
    then show ?thesis by (simp add: t tracked_def)
  qed
qed simp

lemma try_list_tracked:
  assumes "tracked snap validate n r" "n + length uids \<le> CANDIDATE_HINT_TRACK_CAP"
  shows "tracked snap validate (n + length uids) (try_list snap validate (length (ua_entries snap)) uids r)"
  using try_each_tracked [of snap validate n "snd r" uids] tracked_mono [OF assms(1), of "n + length uids"] assms
  by (cases r) (auto simp: try_list_def)

text \<open>The final pass over all users repeats nobody: every id is either remembered or visited once.\<close>

definition visited :: "UserAuthSnapshot \<Rightarrow> nat \<Rightarrow> scan \<Rightarrow> nat set" where
  "visited snap i sc = {..<i} \<union> (set (sc_tried sc) \<inter> {..<length (ua_entries snap)})"

lemma try_user_full:
  assumes "i < length (ua_entries snap)" "sc_checks sc = card (visited snap i sc)" "failing snap validate (visited snap i sc)"
    and "try_user_id snap validate (length (ua_entries snap)) i sc = (None, sc')" "\<not> sc_exhausted sc"
  shows "if sc_exhausted sc' then failing snap validate {..<length (ua_entries snap)}
    else sc_checks sc' = card (visited snap (Suc i) sc') \<and> failing snap validate (visited snap (Suc i) sc')"
proof (cases "length (ua_entries snap) \<le> sc_checks sc")
  case True
  have "visited snap i sc \<inter> {..<length (ua_entries snap)} = visited snap i sc"
    using assms(1) by (auto simp: visited_def)
  then have "failing snap validate {..<length (ua_entries snap)}"
    using all_checked [of snap "visited snap i sc" validate] True assms(2,3) by simp
  then show ?thesis using True assms(4) by (auto simp: try_user_id_def)
next
  case False
  show ?thesis
  proof (cases "i \<in> set (sc_tried sc)")
    case True
    then have "visited snap (Suc i) sc = visited snap i sc"
      using assms(1) by (simp add: visited_def lessThan_Suc insert_absorb)
    moreover have "sc' = sc" using False True assms(4) by (simp add: try_user_id_def mark_candidate_if_new_def)
    ultimately show ?thesis using assms(2,3,5) by simp
  next
    case new: False
    let ?tried = "if length (sc_tried sc) < CANDIDATE_HINT_TRACK_CAP then sc_tried sc @ [i] else sc_tried sc"
    have "try_user_id snap validate (length (ua_entries snap)) i sc =
        (map_option (\<lambda>v. (i, ua_entries snap ! i, v)) (validate (ua_secret (ua_entries snap ! i))),
         sc\<lparr>sc_tried := ?tried, sc_checks := sc_checks sc + 1\<rparr>)"
      using False new assms(1) by (simp add: try_user_id_def mark_candidate_if_new_def entry_by_id_def)
    then have v: "validate (ua_secret (ua_entries snap ! i)) = None"
      and eq: "sc' = sc\<lparr>sc_tried := ?tried, sc_checks := sc_checks sc + 1\<rparr>"
      using assms(4) by simp_all
    have sc': "sc_checks sc' = sc_checks sc + 1" "\<not> sc_exhausted sc'" and tr: "sc_tried sc' = ?tried"
      using assms(5) by (simp_all add: eq)
    have "set (sc_tried sc') = set (sc_tried sc) \<or> set (sc_tried sc') = insert i (set (sc_tried sc))"
      unfolding tr by simp
    then have "visited snap (Suc i) sc' = insert i (visited snap i sc)"
      using assms(1) unfolding visited_def lessThan_Suc by auto
    moreover have "i \<notin> visited snap i sc" using new by (simp add: visited_def)
    moreover have "finite (visited snap i sc)" by (simp add: visited_def)
    ultimately show ?thesis using sc' v assms(2,3) by (simp add: failing_def)
  qed
qed

lemma full_pass:
  assumes "i \<le> length (ua_entries snap)" "sc_checks sc = card (visited snap i sc)"
    and "failing snap validate (visited snap i sc)" "\<not> sc_exhausted sc"
    and "fst (try_each snap validate (length (ua_entries snap)) [i..<length (ua_entries snap)] sc) = None"
  shows "failing snap validate {..<length (ua_entries snap)}"
  using assms
proof (induction "length (ua_entries snap) - i" arbitrary: i sc)
  case 0
  then show ?case by (auto simp: failing_def visited_def)
next
  case (Suc d)
  then have i: "i < length (ua_entries snap)" by simp
  then have l: "[i..<length (ua_entries snap)] = i # [Suc i..<length (ua_entries snap)]" by (simp add: upt_conv_Cons)
  obtain m sc' where t: "try_user_id snap validate (length (ua_entries snap)) i sc = (m, sc')" by fastforce
  have m: "m = None" using Suc.prems(5) by (cases m) (auto simp: l t)
  note step = try_user_full [OF i Suc.prems(2,3) t [unfolded m] Suc.prems(4)]
  show ?case
  proof (cases "sc_exhausted sc'")
    case True
    then show ?thesis using step by simp
  next
    case False
    then show ?thesis using Suc.hyps(1) [of "Suc i" sc'] Suc.hyps(2) step i Suc.prems(5) by (simp add: l t m)
  qed
qed

lemma all_candidates_upt:
  assumes "length (ua_entries snap) \<le> 2 ^ 32"
  shows "all_candidates snap = [0..<length (ua_entries snap)]"
  unfolding all_candidates_def using assms by (subst takeWhile_eq_all_conv) auto

lemma search_complete:
  assumes "tracked snap validate n r" "length (ua_entries snap) \<le> 2 ^ 32"
    and "fst (try_list snap validate (length (ua_entries snap)) (all_candidates snap) r) = None"
  shows "failing snap validate {..<length (ua_entries snap)}"
proof -
  obtain m sc where r: "r = (m, sc)" by fastforce
  have m: "m = None" using assms(3) by (cases m) (auto simp: r try_list_def)
  have t: "sc_checks sc = card (visited snap 0 sc)" "failing snap validate (visited snap 0 sc)"
      "sc_exhausted sc \<Longrightarrow> failing snap validate {..<length (ua_entries snap)}"
    using assms(1) by (auto simp: tracked_def r m Let_def visited_def failing_def)
  show ?thesis
  proof (cases "sc_exhausted sc")
    case False
    then show ?thesis
      using full_pass [OF _ t(1,2) False] assms(3) by (simp add: r m try_list_def all_candidates_upt [OF assms(2)])
  qed (rule t(3))
qed

lemma length_ring_candidates: "length (ring_candidates sh) \<le> 32"
  unfolding ring_candidates_def Let_def
  by (simp only: length_map) (rule order_trans [OF length_filter_le], simp add: RECENT_USER_RING_SCAN_LIMIT_def)

lemma mtproto_search_complete:
  assumes "length (ua_entries snap) \<le> 2 ^ 32"
    and "fst (mtproto_search snap validate (length (ua_entries snap)) h1 h2 h3 sh) = None"
  shows "failing snap validate {..<length (ua_entries snap)}"
proof -
  let ?n = "length (ua_entries snap)"
  have cap: "CANDIDATE_HINT_TRACK_CAP = 64" by (simp add: CANDIDATE_HINT_TRACK_CAP_def)
  have "tracked snap validate (Suc (Suc (Suc 0)))
      (try_hint snap validate ?n h3 (try_hint snap validate ?n h2 (try_hint snap validate ?n h1 (None, scan_start))))"
    by (intro try_hint_tracked tracked_start) (simp_all add: cap)
  from try_list_tracked [OF this, of "ring_candidates sh"]
  have "tracked snap validate (3 + length (ring_candidates sh)) (try_list snap validate ?n (ring_candidates sh)
      (try_hint snap validate ?n h3 (try_hint snap validate ?n h2 (try_hint snap validate ?n h1 (None, scan_start)))))"
    using length_ring_candidates [of sh] by (simp add: cap numeral_eq_Suc)
  from search_complete [OF this assms(1)] show ?thesis using assms(2) by (simp add: mtproto_search_def Let_def)
qed

lemma tls_search_complete:
  assumes "length (ua_entries snap) \<le> 2 ^ 32"
    and "length (case l1 of Some ids \<Rightarrow> ids | None \<Rightarrow> []) + length (case l2 of Some ids \<Rightarrow> ids | None \<Rightarrow> []) \<le> 28"
    and "fst (tls_search snap validate (length (ua_entries snap)) h1 h2 h3 h4 l1 l2 sh) = None"
  shows "failing snap validate {..<length (ua_entries snap)}"
proof -
  let ?n = "length (ua_entries snap)"
  have cap: "CANDIDATE_HINT_TRACK_CAP = 64" by (simp add: CANDIDATE_HINT_TRACK_CAP_def)
  define r0 where "r0 = try_hint snap validate ?n h4 (try_hint snap validate ?n h3
      (try_hint snap validate ?n h2 (try_hint snap validate ?n h1 (None, scan_start))))"
  define r1 where "r1 = (case l1 of Some ids \<Rightarrow> try_list snap validate ?n ids r0 | None \<Rightarrow> r0)"
  define r2 where "r2 = (case l2 of Some ids \<Rightarrow> try_list snap validate ?n ids r1 | None \<Rightarrow> r1)"
  have "tracked snap validate (Suc (Suc (Suc (Suc 0)))) r0"
    unfolding r0_def by (intro try_hint_tracked tracked_start) (simp_all add: cap)
  then have "tracked snap validate (4 + length (case l1 of Some ids \<Rightarrow> ids | None \<Rightarrow> [])) r1"
    using try_list_tracked [of snap validate 4 r0] assms(2) by (auto simp: r1_def cap numeral_eq_Suc split: option.splits)
  then have "tracked snap validate (4 + length (case l1 of Some ids \<Rightarrow> ids | None \<Rightarrow> []) +
      length (case l2 of Some ids \<Rightarrow> ids | None \<Rightarrow> [])) r2"
    using try_list_tracked [of snap validate _ r1] assms(2) by (auto simp: r2_def cap split: option.splits)
  from try_list_tracked [OF this, of "ring_candidates sh"]
  obtain k where "tracked snap validate k (try_list snap validate ?n (ring_candidates sh) r2)"
    using length_ring_candidates [of sh] assms(2) by (auto simp: cap)
  from search_complete [OF this assms(1)] show ?thesis
    using assms(3) unfolding tls_search_def Let_def r0_def [symmetric] r1_def [symmetric] r2_def [symmetric] by simp
qed

section \<open>When the hints do not fit\<close>

lemma try_each_append:
  "try_each snap validate budget (us @ vs) sc =
    (case try_each snap validate budget us sc of
       (None, sc') \<Rightarrow> if us \<noteq> [] \<and> sc_exhausted sc' then (None, sc') else try_each snap validate budget vs sc'
     | r \<Rightarrow> r)"
  by (induction us arbitrary: sc) (auto split: prod.splits option.splits)

lemma try_each_in_vain:
  assumes "\<forall>u\<in>set us. u < length (ua_entries snap) \<and> u \<notin> set (sc_tried sc) \<and>
      validate (ua_secret (ua_entries snap ! u)) = None"
    and "distinct us" "sc_checks sc + length us \<le> budget" "\<not> sc_exhausted sc"
  shows "try_each snap validate budget us sc =
    (None, sc\<lparr>sc_tried := sc_tried sc @ take (CANDIDATE_HINT_TRACK_CAP - length (sc_tried sc)) us,
             sc_checks := sc_checks sc + length us\<rparr>)"
  using assms
proof (induction us arbitrary: sc)
  case (Cons u us)
  let ?cap = CANDIDATE_HINT_TRACK_CAP
  define sc' where "sc' = sc\<lparr>sc_tried := (if length (sc_tried sc) < ?cap then sc_tried sc @ [u] else sc_tried sc),
      sc_checks := sc_checks sc + 1\<rparr>"
  have "try_user_id snap validate budget u sc = (None, sc')"
    using Cons.prems by (simp add: try_user_id_def mark_candidate_if_new_def entry_by_id_def sc'_def)
  moreover have "try_each snap validate budget us sc' =
      (None, sc'\<lparr>sc_tried := sc_tried sc' @ take (?cap - length (sc_tried sc')) us, sc_checks := sc_checks sc' + length us\<rparr>)"
    using Cons.prems by (intro Cons.IH) (auto simp: sc'_def)
  moreover have "sc_tried sc' @ take (?cap - length (sc_tried sc')) us = sc_tried sc @ take (?cap - length (sc_tried sc)) (u # us)"
    by (auto simp: sc'_def take_Cons' Suc_diff_Suc less_Suc_eq)
  ultimately show ?case using Cons.prems(4) by (simp add: sc'_def)
qed simp

lemma try_each_known:
  assumes "set us \<subseteq> set (sc_tried sc)" "sc_checks sc < budget" "\<not> sc_exhausted sc"
  shows "try_each snap validate budget us sc = (None, sc)"
  using assms by (induction us) (auto simp: try_user_id_def mark_candidate_if_new_def)

lemma ring_empty: "\<forall>e\<in>set (recent_user_ring sh). e = 0 \<Longrightarrow> ring_candidates sh = []"
proof -
  assume z: "\<forall>e\<in>set (recent_user_ring sh). e = 0"
  have "recent_user_ring sh ! (k mod length (recent_user_ring sh)) = 0" if "recent_user_ring sh \<noteq> []" for k
    using z that by simp
  then show ?thesis by (cases "recent_user_ring sh = []") (simp_all add: ring_candidates_def Let_def filter_False)
qed

lemma try_each_found:
  assumes "u < length (ua_entries snap)" "validate (ua_secret (ua_entries snap ! u)) = Some v"
    and "\<forall>i<u. validate (ua_secret (ua_entries snap ! i)) = None"
  shows "fst (try_each snap validate (length (ua_entries snap)) [0..<length (ua_entries snap)] scan_start) =
    Some (u, ua_entries snap ! u, v)"
proof -
  let ?n = "length (ua_entries snap)"
  have l: "[0..<?n] = [0..<u] @ u # [Suc u..<?n]"
    using assms(1) upt_add_eq_append [of 0 u "?n - u"] by (simp add: upt_conv_Cons)
  have "try_each snap validate ?n [0..<u] scan_start =
      (None, scan_start\<lparr>sc_tried := take CANDIDATE_HINT_TRACK_CAP [0..<u], sc_checks := u\<rparr>)"
    using try_each_in_vain [of "[0..<u]" snap scan_start validate ?n] assms by (simp add: scan_start_def)
  moreover have "u \<notin> set (take CANDIDATE_HINT_TRACK_CAP [0..<u])" by (auto dest: in_set_takeD)
  ultimately show ?thesis
    using assms(1,2) by (simp add: l try_each_append try_user_id_def mark_candidate_if_new_def entry_by_id_def scan_start_def)
qed

section \<open>Properties\<close>

text \<open>C38.
  The search for the user of a handshake is sound, bounded and, outside overload, complete.
  Whatever the hints are, a user it returns is the entry of the returned id and passes the check
  with its own secret, and it performs at most as many checks as its budget: all users, or 16
  (8 without a hint) under overload.  Without overload the MTProto search returns some user
  whenever any configured secret passes the check, and so does the FakeTLS search if the lists of
  users suggested by the server name have at most 28 entries together.
\<close>

theorem candidate_search_correct:
  assumes "length (ua_entries snap) \<le> 2 ^ 32"
  shows "sound snap validate budget (mtproto_search snap validate budget h1 h2 h3 sh) \<and>
    sound snap validate budget (tls_search snap validate budget h1 h2 h3 h4 l1 l2 sh) \<and>
    budget_for_validation n overload hint \<le> n \<and> (overload \<longrightarrow> budget_for_validation n overload hint \<le> 16) \<and>
    (\<forall>i v. i < length (ua_entries snap) \<and> validate (ua_secret (ua_entries snap ! i)) = Some v \<longrightarrow>
      fst (mtproto_search snap validate (budget_for_validation (length (ua_entries snap)) False hint) h1 h2 h3 sh) \<noteq> None \<and>
      (length (case l1 of Some ids \<Rightarrow> ids | None \<Rightarrow> []) + length (case l2 of Some ids \<Rightarrow> ids | None \<Rightarrow> []) \<le> 28 \<longrightarrow>
       fst (tls_search snap validate (budget_for_validation (length (ua_entries snap)) False hint) h1 h2 h3 h4 l1 l2 sh) \<noteq> None))"
proof -
  have b: "budget_for_validation (length (ua_entries snap)) False hint = length (ua_entries snap)"
    by (simp add: budget_for_validation_def)
  have "budget_for_validation n overload hint \<le> n" "overload \<longrightarrow> budget_for_validation n overload hint \<le> 16"
    by (auto simp: budget_for_validation_def Let_def OVERLOAD_CANDIDATE_BUDGET_HINTED_def
        OVERLOAD_CANDIDATE_BUDGET_UNHINTED_def)
  moreover have "\<not> failing snap validate {..<length (ua_entries snap)}"
    if "i < length (ua_entries snap)" "validate (ua_secret (ua_entries snap ! i)) = Some v" for i v
    using that by (auto simp: failing_def)
  ultimately show ?thesis
    using mtproto_search_sound [of snap validate budget h1 h2 h3 sh]
      tls_search_sound [of snap validate budget h1 h2 h3 h4 l1 l2 sh]
      mtproto_search_complete [OF assms, of validate h1 h2 h3 sh] tls_search_complete [OF assms, of l1 l2 validate h1 h2 h3 h4 sh]
    unfolding b by blast
qed

definition demo_snap :: "nat \<Rightarrow> UserAuthSnapshot" where
  "demo_snap n = \<lparr>ua_entries = replicate n \<lparr>ua_user = [97], ua_secret = [1]\<rparr> @ [\<lparr>ua_user = [122], ua_secret = [2]\<rparr>],
    by_name = [], sni_index = [], sni_initial_index = []\<rparr>"

definition demo_check :: "bytes \<Rightarrow> nat option" where
  "demo_check secret = (if secret = [2] then Some 5 else None)"

theorem candidate_search_correct_witness:
  "fst (mtproto_search (demo_snap 3) demo_check (budget_for_validation 4 False False) (Some 1) None (Some 9)
     HandshakeSharedState_new) \<noteq> None"
proof -
  have "length (ua_entries (demo_snap 3)) = 4" "ua_entries (demo_snap 3) ! 3 = \<lparr>ua_user = [122], ua_secret = [2]\<rparr>"
    by (simp_all add: demo_snap_def nth_append)
  then show ?thesis
    using candidate_search_correct [of "demo_snap 3" demo_check 0 "Some 1" None "Some 9" HandshakeSharedState_new
        None None None 0 False False]
    by (auto simp: demo_check_def dest!: spec [of _ 3])
qed

text \<open>C39.
  With more suggestions than it can remember, the FakeTLS search loses users.  Let more than 64
  users, the first \<open>m\<close> ones, have names that start like the requested server name.  They are all
  tried first, but only 64 of them are remembered; the final pass tries the others a second time,
  and these repeated checks count against the budget of one check per user.  So the last \<open>m - 64\<close>
  users are never tried, not even outside overload: a client with a valid secret is rejected,
  although it is found when the server name suggests nobody.
\<close>

theorem tls_search_misses_user:
  assumes "64 < m" "m \<le> u" "length (ua_entries snap) + 64 \<le> u + m" "u < length (ua_entries snap)"
    and "length (ua_entries snap) \<le> 2 ^ 32" "validate (ua_secret (ua_entries snap ! u)) = Some v"
    and "\<forall>i<length (ua_entries snap). i \<noteq> u \<longrightarrow> validate (ua_secret (ua_entries snap ! i)) = None"
    and "\<forall>e\<in>set (recent_user_ring sh). e = 0"
  defines "budget \<equiv> budget_for_validation (length (ua_entries snap)) False True"
  shows "fst (tls_search snap validate budget None None None None None (Some [0..<m]) sh) = None \<and>
    fst (tls_search snap validate budget None None None None None None sh) = Some (u, ua_entries snap ! u, v)"
proof
  let ?n = "length (ua_entries snap)"
  define k where "k = ?n + 64 - m"
  have b: "budget = ?n" by (simp add: budget_def budget_for_validation_def)
  have cap: "CANDIDATE_HINT_TRACK_CAP = 64" by (simp add: CANDIDATE_HINT_TRACK_CAP_def)
  have k: "64 \<le> k" "k \<le> u" "m < ?n" "k < ?n" "k - 64 = ?n - m" using assms(1-4) by (auto simp: k_def)
  define s1 where "s1 = \<lparr>sc_tried = [0..<64], sc_checks = m, sc_exhausted = False\<rparr>"
  have 1: "try_each snap validate ?n [0..<m] scan_start = (None, s1)"
    using try_each_in_vain [of "[0..<m]" snap scan_start validate ?n] assms(1,2,7) k(3)
    by (simp add: scan_start_def s1_def cap take_upt)
  have 2: "try_each snap validate ?n [0..<64] s1 = (None, s1)"
    by (rule try_each_known) (use k in \<open>auto simp: s1_def\<close>)
  have 3: "try_each snap validate ?n [64..<k] s1 = (None, s1\<lparr>sc_checks := ?n\<rparr>)"
    using try_each_in_vain [of "[64..<k]" snap s1 validate ?n] assms(7) k by (simp add: s1_def cap)
  have l: "[0..<?n] = [0..<64] @ [64..<k] @ k # [Suc k..<?n]"
    using k upt_add_eq_append [of 0 64 "?n - 64"] upt_add_eq_append [of 64 k "?n - k"] by (simp add: upt_conv_Cons)
  have "fst (try_each snap validate ?n [0..<?n] s1) = None"
    unfolding l using 2 3 by (simp add: try_each_append try_user_id_def s1_def)
  then show "fst (tls_search snap validate budget None None None None None (Some [0..<m]) sh) = None"
    using 1 by (simp add: tls_search_def try_hint_def try_list_def b ring_empty [OF assms(8)] scan_start_def
        all_candidates_upt [OF assms(5)] s1_def)
  show "fst (tls_search snap validate budget None None None None None None sh) = Some (u, ua_entries snap ! u, v)"
    using try_each_found [of u snap validate v] assms(4,6,7)
    by (simp add: tls_search_def try_hint_def try_list_def b ring_empty [OF assms(8)] scan_start_def
        all_candidates_upt [OF assms(5)])
qed

theorem tls_search_misses_user_witness:
  "fst (tls_search (demo_snap 129) demo_check 130 None None None None None (Some [0..<100]) HandshakeSharedState_new) = None \<and>
   fst (tls_search (demo_snap 129) demo_check 130 None None None None None None HandshakeSharedState_new) =
     Some (129, \<lparr>ua_user = [122], ua_secret = [2]\<rparr>, 5)"
proof -
  let ?s = "demo_snap 129"
  have l: "length (ua_entries ?s) = 130" by (simp add: demo_snap_def)
  have u: "ua_entries ?s ! 129 = \<lparr>ua_user = [122], ua_secret = [2]\<rparr>" by (simp add: demo_snap_def nth_append)
  have o: "\<forall>i<130. i \<noteq> 129 \<longrightarrow> demo_check (ua_secret (ua_entries ?s ! i)) = None"
    by (auto simp: demo_snap_def nth_append demo_check_def)
  have r: "\<forall>e\<in>set (recent_user_ring HandshakeSharedState_new). e = 0" by (simp add: HandshakeSharedState_new_def)
  have b: "budget_for_validation 130 False True = 130" by (simp add: budget_for_validation_def)
  show ?thesis
    using tls_search_misses_user [of 100 129 ?s demo_check 5 HandshakeSharedState_new] o r
    by (simp add: l u b demo_check_def)
qed

end
