(* ===== verification/Auth_Probe_Props.thy ===== *)
theory Auth_Probe_Props
  imports Auth_Probe "HOL-Library.Multiset"
begin

text \<open>
  What the throttle guarantees: the table stays bounded, a failure is recorded for its client
  whatever has to make room for it, and the rate at which one client gets guesses evaluated is
  bounded.
\<close>

section \<open>The eviction candidate\<close>

definition entry_ok :: "AuthProbeState \<Rightarrow> bool" where
  "entry_ok st \<longleftrightarrow> blocked_until st = last_seen st + int (auth_probe_backoff (fail_streak st))"

definition entries_ok :: "(IpAddr \<times> AuthProbeState) list \<Rightarrow> bool" where
  "entries_ok l \<longleftrightarrow> (\<forall>j st. map_of l j = Some st \<longrightarrow> entry_ok st)"

definition probe_inv :: "HandshakeSharedState \<Rightarrow> bool" where
  "probe_inv sh \<longleftrightarrow> distinct (map fst (auth_probe sh)) \<and> length (auth_probe sh) \<le> AUTH_PROBE_TRACK_MAX_ENTRIES \<and>
    entries_ok (auth_probe sh)"

definition env_ok :: "probe_env \<Rightarrow> bool" where
  "env_ok env \<longleftrightarrow> (\<forall>l. mset (iter_order env l) = mset l)"

lemma iter_props:
  assumes "env_ok env"
  shows "set (iter_order env l) = set l" "length (iter_order env l) = length l"
    "distinct (map fst l) \<Longrightarrow> distinct (map fst (iter_order env l))"
proof -
  have m: "mset (iter_order env l) = mset l" using assms by (simp add: env_ok_def)
  show "set (iter_order env l) = set l" "length (iter_order env l) = length l"
    using mset_eq_setD [OF m] mset_eq_length [OF m] by auto
  have "mset (map fst (iter_order env l)) = mset (map fst l)" using m by (simp add: mset_map)
  then show "distinct (map fst l) \<Longrightarrow> distinct (map fst (iter_order env l))"
    using mset_eq_imp_distinct_iff by blast
qed

definition candidate_of :: "candidate \<Rightarrow> (IpAddr \<times> AuthProbeState) list \<Rightarrow> bool" where
  "candidate_of c l \<longleftrightarrow> (\<exists>k st. c = Some (k, fail_streak st, last_seen st) \<and> (k, st) \<in> set l \<and>
     (\<forall>(j, s)\<in>set l. fail_streak st \<le> fail_streak s))"

lemma candidate_step:
  assumes "candidate_of c l"
  shows "candidate_of (eviction_candidate c e) (l @ [e])"
proof -
  obtain k st where c: "c = Some (k, fail_streak st, last_seen st)" "(k, st) \<in> set l"
      "\<forall>(j, s)\<in>set l. fail_streak st \<le> fail_streak s"
    using assms by (auto simp: candidate_of_def)
  obtain a b where e: "e = (a, b)" by (cases e)
  show ?thesis
  proof (cases "fail_streak st < fail_streak b \<or> (fail_streak b = fail_streak st \<and> last_seen st \<le> last_seen b)")
    case True
    then show ?thesis using c unfolding candidate_of_def e by (intro exI [of _ k] exI [of _ st]) auto
  next
    case False
    then have "fail_streak b \<le> fail_streak st" by auto
    then have "\<forall>(j, s)\<in>set (l @ [e]). fail_streak b \<le> fail_streak s" using c(3) by (fastforce simp: e)
    then show ?thesis using False c(1) unfolding candidate_of_def e by (intro exI [of _ a] exI [of _ b]) auto
  qed
qed

lemma candidate_scan:
  assumes "l \<noteq> []"
  shows "candidate_of (foldl eviction_candidate None l) l"
  using assms
proof (induction l rule: rev_induct)
  case (snoc e l)
  show ?case
  proof (cases "l = []")
    case True
    then show ?thesis by (cases e) (simp add: candidate_of_def)
  next
    case False
    then show ?thesis using snoc candidate_step by simp
  qed
qed simp

lemma wrapped_scan:
  fixes xs :: "'a list" and i :: nat
  assumes "distinct xs" "n \<le> length xs"
  defines "a \<equiv> take n (drop i xs)"
  shows "distinct (a @ take (n - length a) xs)" "length (a @ take (n - length a) xs) = n"
proof -
  show "length (a @ take (n - length a) xs) = n" using assms(2) by (auto simp: a_def)
  have "set (drop i xs) \<inter> set (take i xs) = {}"
    using assms(1) set_take_disj_set_drop_if_distinct [of xs i i] by auto
  moreover have "set (take (n - length a) xs) \<subseteq> set (take i xs)"
  proof (cases "length a < n")
    case True
    then have "n - length a \<le> i" using assms(2) by (auto simp: a_def)
    then show ?thesis by (rule set_take_subset_set_take)
  qed simp
  moreover have "set a \<subseteq> set (drop i xs)" unfolding a_def by (rule set_take_subset)
  ultimately show "distinct (a @ take (n - length a) xs)"
    using assms(1) by (auto simp: a_def)
qed

lemma scanned_props:
  assumes "env_ok env" "distinct (map fst l)" "AUTH_PROBE_PRUNE_SCAN_LIMIT \<le> length l"
  shows "set (scanned_entries env p now l) \<subseteq> set l"
    "AUTH_PROBE_PRUNE_SCAN_LIMIT \<le> length (scanned_entries env p now l)"
    "distinct (map fst (scanned_entries env p now l))"
proof -
  note it = iter_props [OF assms(1), of l]
  let ?n = AUTH_PROBE_PRUNE_SCAN_LIMIT and ?it = "iter_order env l"
  let ?off = "auth_probe_scan_start_offset env p now (length l) ?n"
  let ?a = "take ?n (drop ?off ?it)"
  have "scanned_entries env p now l = (if length l \<le> ?n then ?it else ?a @ take (?n - length ?a) ?it)"
    using assms(3) by (auto simp: scanned_entries_def Let_def min_def)
  moreover have "set (?a @ take (?n - length ?a) ?it) \<subseteq> set ?it"
    by (auto dest: in_set_takeD in_set_dropD)
  moreover have "length (?a @ take (?n - length ?a) ?it) = ?n"
    using assms(3) it(2) by auto
  moreover have "distinct (map fst (?a @ take (?n - length ?a) ?it))"
    using wrapped_scan(1) [OF it(3) [OF assms(2)], of ?n ?off] assms(3) it(2) by (simp add: take_map drop_map)
  ultimately show "set (scanned_entries env p now l) \<subseteq> set l"
    "AUTH_PROBE_PRUNE_SCAN_LIMIT \<le> length (scanned_entries env p now l)"
    "distinct (map fst (scanned_entries env p now l))"
    using it assms(2,3) by (auto split: if_splits)
qed

section \<open>Making room\<close>

text \<open>
  An entry may be given up only if it has expired or if a whole scan's worth of clients has failed
  at least as often.
\<close>

definition expendable :: "instant \<Rightarrow> (IpAddr \<times> AuthProbeState) list \<Rightarrow> AuthProbeState \<Rightarrow> bool" where
  "expendable now l st \<longleftrightarrow> auth_probe_state_expired st now \<or>
    AUTH_PROBE_PRUNE_SCAN_LIMIT \<le> card {j. \<exists>s. map_of l j = Some s \<and> fail_streak st \<le> fail_streak s}"

definition pruned :: "instant \<Rightarrow> (IpAddr \<times> AuthProbeState) list \<Rightarrow> (IpAddr \<times> AuthProbeState) list \<Rightarrow> bool" where
  "pruned now l l' \<longleftrightarrow> distinct (map fst l') \<and>
    (\<forall>j. map_of l' j = map_of l j \<or> (map_of l' j = None \<and> (\<exists>st. map_of l j = Some st \<and> expendable now l st)))"

lemma map_of_fold_delete:
  "map_of (fold AList.delete ks l) j = (if j \<in> set ks then None else map_of l j)"
  by (induction ks arbitrary: l) (auto simp: map_of_delete)

lemma distinct_fold_delete: "distinct (map fst l) \<Longrightarrow> distinct (map fst (fold AList.delete ks l))"
  by (induction ks arbitrary: l) (auto simp: distinct_delete)

lemma length_delete_present: "k \<in> keys l \<Longrightarrow> length (AList.delete k l) < length l"
  by (auto simp: AList.delete_eq intro: length_filter_less)

lemma length_delete_le: "length (AList.delete k l) \<le> length l"
  by (simp add: AList.delete_eq)

lemma note_saturation_fields [simp]:
  "auth_probe (auth_probe_note_saturation now sh) = auth_probe sh"
  by (simp add: auth_probe_note_saturation_def Let_def)

lemma candidate_expendable:
  assumes "env_ok env" "distinct (map fst l)" "AUTH_PROBE_PRUNE_SCAN_LIMIT \<le> length l"
  shows "\<exists>k f t st. foldl eviction_candidate None (scanned_entries env p now l) = Some (k, f, t) \<and>
    map_of l k = Some st \<and> expendable now l st"
proof -
  let ?sc = "scanned_entries env p now l"
  note sc = scanned_props [OF assms, of p now]
  have "?sc \<noteq> []" using sc(2) by (auto simp: AUTH_PROBE_PRUNE_SCAN_LIMIT_def)
  then obtain k st where c: "foldl eviction_candidate None ?sc = Some (k, fail_streak st, last_seen st)"
      "(k, st) \<in> set ?sc" "\<forall>(j, s)\<in>set ?sc. fail_streak st \<le> fail_streak s"
    using candidate_scan [of ?sc] by (auto simp: candidate_of_def)
  let ?S = "{j. \<exists>s. map_of l j = Some s \<and> fail_streak st \<le> fail_streak s}"
  have "fst ` set ?sc \<subseteq> ?S"
  proof (rule image_subsetI)
    fix e assume e: "e \<in> set ?sc"
    obtain j s where js: "e = (j, s)" by (cases e)
    have "map_of l j = Some s" using e sc(1) assms(2) js by (auto intro: map_of_is_SomeI)
    then show "fst e \<in> ?S" using c(3) e js by auto
  qed
  moreover have "finite ?S" by (rule finite_subset [of _ "dom (map_of l)"]) (auto simp: finite_dom_map_of)
  moreover have "card (fst ` set ?sc) = length ?sc" using distinct_card [OF sc(3)] by simp
  ultimately have "length ?sc \<le> card ?S" using card_mono [of ?S "fst ` set ?sc"] by simp
  then have "expendable now l st" using sc(2) unfolding expendable_def by linarith
  moreover have "map_of l k = Some st" using c(2) sc(1) assms(2) by (auto intro: map_of_is_SomeI)
  ultimately show ?thesis using c(1) by blast
qed

lemma length_fold_delete:
  fixes l :: "('a \<times> 'b) list"
  assumes "set ks \<subseteq> keys l" "ks \<noteq> []"
  shows "length (fold AList.delete ks l) < length l"
proof -
  have shrink: "length (fold AList.delete js m) \<le> length m" for js and m :: "('a \<times> 'b) list"
  proof (induction js arbitrary: m)
    case (Cons j js)
    have "length (AList.delete j m) \<le> length m" by (simp add: AList.delete_eq)
    with Cons [of "AList.delete j m"] show ?case by simp
  qed simp
  obtain k ks' where ks: "ks = k # ks'" using assms(2) by (cases ks) auto
  then show ?thesis
    using shrink [of ks' "AList.delete k l"] length_delete_present [of k l] assms(1) by auto
qed

lemma pruned_delete:
  assumes "distinct (map fst l)" "map_of l k = Some st" "expendable now l st"
  shows "pruned now l (AList.delete k l)"
  using assms by (auto simp: pruned_def map_of_delete distinct_delete)

lemma prune_spec:
  assumes "env_ok env" "probe_inv sh"
  shows "\<exists>sh'. prune_rounds env p now 0 sh = (True, sh') \<and> length (auth_probe sh') < AUTH_PROBE_TRACK_MAX_ENTRIES \<and>
    pruned now (auth_probe sh) (auth_probe sh') \<and>
    (length (auth_probe sh) < AUTH_PROBE_TRACK_MAX_ENTRIES \<longrightarrow> sh' = sh)"
proof (cases "length (auth_probe sh) < AUTH_PROBE_TRACK_MAX_ENTRIES")
  case True
  then show ?thesis using assms(2) by (simp add: prune_rounds.simps pruned_def probe_inv_def)
next
  case False
  let ?l = "auth_probe sh"
  have full: "length ?l = AUTH_PROBE_TRACK_MAX_ENTRIES" and d: "distinct (map fst ?l)"
    using False assms(2) by (auto simp: probe_inv_def)
  then have lim: "AUTH_PROBE_PRUNE_SCAN_LIMIT \<le> length ?l"
    by (simp add: AUTH_PROBE_PRUNE_SCAN_LIMIT_def AUTH_PROBE_TRACK_MAX_ENTRIES_def)
  let ?sc = "scanned_entries env p now ?l"
  let ?stale = "map fst (filter (\<lambda>(_, st). auth_probe_state_expired st now) ?sc)"
  have stale: "map_of ?l k = Some st \<Longrightarrow> k \<in> set ?stale \<Longrightarrow> auth_probe_state_expired st now" for k st
    using scanned_props(1) [OF assms(1) d lim] d by (force simp: map_of_eq_Some_iff dest: eq_key_imp_eq_value)
  have keys: "set ?stale \<subseteq> keys ?l" using scanned_props(1) [OF assms(1) d lim, of p now] by auto
  show ?thesis
  proof (cases "?stale = []")
    case False
    let ?sh = "sh\<lparr>auth_probe := fold AList.delete ?stale ?l\<rparr>"
    have less: "length (fold AList.delete ?stale ?l) < AUTH_PROBE_TRACK_MAX_ENTRIES"
      using length_fold_delete [OF keys False] full by simp
    then have "prune_rounds env p now 0 sh = (True, ?sh)"
      by (simp add: prune_rounds.simps [of env p now 0 sh] full Let_def del: fold_map)
    moreover have "pruned now ?l (fold AList.delete ?stale ?l)"
      unfolding pruned_def
    proof (intro conjI allI)
      show "distinct (map fst (fold AList.delete ?stale ?l))" using d by (rule distinct_fold_delete)
      fix j
      show "map_of (fold AList.delete ?stale ?l) j = map_of ?l j \<or>
        (map_of (fold AList.delete ?stale ?l) j = None \<and> (\<exists>st. map_of ?l j = Some st \<and> expendable now ?l st))"
        unfolding map_of_fold_delete using stale [of j] by (cases "map_of ?l j") (auto simp: expendable_def)
    qed
    ultimately show ?thesis using less full by simp
  next
    case True
    obtain k f t st where c: "foldl eviction_candidate None ?sc = Some (k, f, t)" "map_of ?l k = Some st"
        "expendable now ?l st"
      using candidate_expendable [OF assms(1) d lim] by blast
    let ?sh = "auth_probe_note_saturation now (sh\<lparr>auth_probe := AList.delete k ?l\<rparr>)"
    have less: "length (AList.delete k ?l) < AUTH_PROBE_TRACK_MAX_ENTRIES"
      using length_delete_present [of k ?l] c(2) full by (force dest: map_of_SomeD)
    then have "prune_rounds env p now (Suc 0) ?sh = (True, ?sh)"
      by (simp add: prune_rounds.simps [of env p now "Suc 0"])
    then have "prune_rounds env p now 0 sh = (True, ?sh)"
      using True by (simp add: prune_rounds.simps [of env p now 0 sh] full Let_def c(1))
    then show ?thesis using less full pruned_delete [OF d c(2,3)] by simp
  qed
qed

section \<open>Recording a failure\<close>

definition probe_after :: "instant \<Rightarrow> AuthProbeState option \<Rightarrow> AuthProbeState" where
  "probe_after now e = (case e of None \<Rightarrow> new_probe_state now | Some st \<Rightarrow> failed_probe_state now st)"

lemma probe_after_ok:
  "entry_ok (probe_after now e)" "last_seen (probe_after now e) = now"
  by (auto simp: entry_ok_def probe_after_def new_probe_state_def failed_probe_state_def Let_def split: option.split)

lemma entries_ok_mono:
  "entries_ok l \<Longrightarrow> (\<And>j. map_of l' j = map_of l j \<or> map_of l' j = None) \<Longrightarrow> entries_ok l'"
  unfolding entries_ok_def by (metis option.distinct(1))

lemma entries_ok_update:
  "entries_ok l \<Longrightarrow> entry_ok st \<Longrightarrow> entries_ok (AList.update k st l)"
  by (auto simp: entries_ok_def map_of_update)

lemma record_failure_spec:
  fixes p :: IpAddr and now :: instant and sh :: HandshakeSharedState
  assumes "env_ok env" "probe_inv sh"
  defines "k \<equiv> normalize_auth_probe_ip p"
  defines "sh' \<equiv> auth_probe_record_failure env p now sh"
  shows "probe_inv sh'" "map_of (auth_probe sh') k = Some (probe_after now (map_of (auth_probe sh) k))"
    "j \<noteq> k \<Longrightarrow> map_of (auth_probe sh') j = map_of (auth_probe sh) j \<or>
      (map_of (auth_probe sh') j = None \<and> length (auth_probe sh) = AUTH_PROBE_TRACK_MAX_ENTRIES \<and>
       (\<exists>st. map_of (auth_probe sh) j = Some st \<and> expendable now (auth_probe sh) st))"
proof -
  obtain sh1 where r: "prune_rounds env k now 0 sh = (True, sh1)"
      "length (auth_probe sh1) < AUTH_PROBE_TRACK_MAX_ENTRIES" "pruned now (auth_probe sh) (auth_probe sh1)"
      "length (auth_probe sh) < AUTH_PROBE_TRACK_MAX_ENTRIES \<Longrightarrow> sh1 = sh"
    using prune_spec [OF assms(1,2)] by blast
  have len: "length (auth_probe sh) \<le> AUTH_PROBE_TRACK_MAX_ENTRIES" and d: "distinct (map fst (auth_probe sh))"
    using assms(2) by (simp_all add: probe_inv_def)
  have p: "distinct (map fst (auth_probe sh1))"
      "\<And>j. map_of (auth_probe sh1) j = map_of (auth_probe sh) j \<or> (map_of (auth_probe sh1) j = None \<and>
        (\<exists>st. map_of (auth_probe sh) j = Some st \<and> expendable now (auth_probe sh) st))"
    using r(3) by (auto simp: pruned_def)
  have ok: "entries_ok (auth_probe sh)" using assms(2) by (simp add: probe_inv_def)
  have ok1: "entries_ok (auth_probe sh1)" 
  proof (rule entries_ok_mono [OF ok])
    show "map_of (auth_probe sh1) j = map_of (auth_probe sh) j \<or> map_of (auth_probe sh1) j = None" for j
      using p(2) [of j] by auto
  qed
  show "probe_inv sh'"
  proof (cases "map_of (auth_probe sh) k")
    case None
    then have "map_of (auth_probe sh1) k = None" using p(2) [of k] by auto
    then show ?thesis
      using None r(1,2) p(1) entries_ok_update [OF ok1 probe_after_ok(1) [of now None]]
      by (simp add: sh'_def auth_probe_record_failure_def k_def [symmetric] auth_probe_record_failure_with_state_def
          probe_inv_def probe_after_def alist_simps)
  next
    case (Some e)
    then have "k \<in> keys (auth_probe sh)" by (force dest: map_of_SomeD)
    then show ?thesis
      using Some len d entries_ok_update [OF ok probe_after_ok(1) [of now "Some e"]]
      by (simp add: sh'_def auth_probe_record_failure_def k_def [symmetric] auth_probe_record_failure_with_state_def
          probe_inv_def probe_after_def alist_simps)
  qed
  have k1: "map_of (auth_probe sh) k = None \<Longrightarrow> map_of (auth_probe sh1) k = None" using p(2) [of k] by auto
  show "map_of (auth_probe sh') k = Some (probe_after now (map_of (auth_probe sh) k))"
    using r(1) k1
    by (simp add: sh'_def auth_probe_record_failure_def k_def [symmetric] auth_probe_record_failure_with_state_def
        probe_after_def alist_simps split: option.split)
  show "map_of (auth_probe sh') j = map_of (auth_probe sh) j \<or>
      (map_of (auth_probe sh') j = None \<and> length (auth_probe sh) = AUTH_PROBE_TRACK_MAX_ENTRIES \<and>
       (\<exists>st. map_of (auth_probe sh) j = Some st \<and> expendable now (auth_probe sh) st))" if "j \<noteq> k"
  proof (cases "map_of (auth_probe sh) k")
    case None
    then show ?thesis
      using that r(1,4) k1 p(2) [of j] len
      by (cases "length (auth_probe sh) = AUTH_PROBE_TRACK_MAX_ENTRIES")
        (auto simp: sh'_def auth_probe_record_failure_def k_def [symmetric] auth_probe_record_failure_with_state_def alist_simps)
  next
    case (Some e)
    then show ?thesis
      using that
      by (simp add: sh'_def auth_probe_record_failure_def k_def [symmetric] auth_probe_record_failure_with_state_def alist_simps)
  qed
qed

section \<open>The rate of evaluated guesses\<close>

text \<open>
  The calls of the handlers on the table: the throttle is asked, and an attempt that it lets through
  ends with a failure, a success, or without a trace.
\<close>

datatype probe_event = Asked IpAddr | Failed IpAddr | Succeeded IpAddr

fun event_peer :: "probe_event \<Rightarrow> IpAddr" where
  "event_peer (Asked p) = normalize_auth_probe_ip p"
| "event_peer (Failed p) = normalize_auth_probe_ip p"
| "event_peer (Succeeded p) = normalize_auth_probe_ip p"

text \<open>One call, with whether the throttle refuses.\<close>

fun probe_step :: "probe_env \<Rightarrow> instant \<Rightarrow> probe_event \<Rightarrow> HandshakeSharedState \<Rightarrow> bool \<times> HandshakeSharedState" where
  "probe_step env now (Asked p) sh = auth_probe_should_apply_preauth_throttle p now sh"
| "probe_step env now (Failed p) sh = (False, auth_probe_record_failure env p now sh)"
| "probe_step env now (Succeeded p) sh = (False, auth_probe_record_success p sh)"

text \<open>
  The attempts of client \<open>k\<close> come one after another: a failure is recorded only for an attempt that was let
  through, and the client has not begun another one since.
\<close>

fun one_by_one :: "probe_env \<Rightarrow> IpAddr \<Rightarrow> bool \<Rightarrow> (instant \<times> probe_event) list \<Rightarrow> HandshakeSharedState \<Rightarrow> bool" where
  "one_by_one env k opened [] sh = True"
| "one_by_one env k opened ((now, ev) # evs) sh =
    (let (refused, sh) = probe_step env now ev sh
     in if event_peer ev \<noteq> k then one_by_one env k opened evs sh
        else case ev of
            Asked _ \<Rightarrow> one_by_one env k (\<not> refused) evs sh
          | Failed _ \<Rightarrow> opened \<and> one_by_one env k False evs sh
          | Succeeded _ \<Rightarrow> one_by_one env k False evs sh)"

text \<open>The failed attempts of client \<open>k\<close>, and how often its entry is removed, by a success or for want of room.\<close>

definition failures_of :: "IpAddr \<Rightarrow> (instant \<times> probe_event) list \<Rightarrow> nat" where
  "failures_of k evs = length (filter (\<lambda>(_, ev). case ev of Failed p \<Rightarrow> normalize_auth_probe_ip p = k | _ \<Rightarrow> False) evs)"

fun removals_of :: "probe_env \<Rightarrow> IpAddr \<Rightarrow> (instant \<times> probe_event) list \<Rightarrow> HandshakeSharedState \<Rightarrow> nat" where
  "removals_of env k [] sh = 0"
| "removals_of env k ((now, ev) # evs) sh =
    (let (_, sh') = probe_step env now ev sh
     in (case ev of Asked _ \<Rightarrow> 0 | _ \<Rightarrow> if map_of (auth_probe sh) k \<noteq> None \<and> map_of (auth_probe sh') k = None then 1 else 0)
        + removals_of env k evs sh')"

lemma backoff_bounds:
  "auth_probe_backoff n \<le> 1000000000" "10 \<le> n \<Longrightarrow> auth_probe_backoff n = 1000000000"
  "n < 4 \<Longrightarrow> auth_probe_backoff n = 0"
proof -
  show "auth_probe_backoff n \<le> 1000000000"
    by (simp add: auth_probe_backoff_def Let_def from_millis_def AUTH_PROBE_BACKOFF_MAX_MS_def)
  show "n < 4 \<Longrightarrow> auth_probe_backoff n = 0"
    by (simp add: auth_probe_backoff_def AUTH_PROBE_BACKOFF_START_FAILS_def)
  assume n: "10 \<le> n"
  define s where "s = min (n - 4) 10"
  have s: "6 \<le> s" "s \<le> 10" using n by (auto simp: s_def)
  have "(2 :: nat) ^ 6 \<le> 2 ^ s" using s(1) by (intro power_increasing) auto
  then have "(64 :: nat) \<le> 2 ^ s" by simp
  then have "min (sat_mul U64_MAX 25 (2 ^ s)) 1000 = 1000" by (simp add: sat_mul_def min_def)
  moreover have "min (n - 4) 10 < 64" by simp
  ultimately show "auth_probe_backoff n = 1000000000"
    using n s by (simp add: auth_probe_backoff_def Let_def s_def from_millis_def AUTH_PROBE_BACKOFF_START_FAILS_def
        AUTH_PROBE_BACKOFF_BASE_MS_def AUTH_PROBE_BACKOFF_MAX_MS_def)
qed

lemma probe_after_streak:
  "fail_streak (probe_after now e) =
    (case e of None \<Rightarrow> 1 | Some st \<Rightarrow> if auth_probe_state_expired st now then 1 else sat_add U32_MAX (fail_streak st) 1)"
  by (auto simp: probe_after_def new_probe_state_def failed_probe_state_def Let_def split: option.split)

text \<open>What the throttle answers, and what it leaves of the table.\<close>

definition drop_expired :: "IpAddr \<Rightarrow> instant \<Rightarrow> (IpAddr \<times> AuthProbeState) list \<Rightarrow> (IpAddr \<times> AuthProbeState) list" where
  "drop_expired k now l =
    (case map_of l k of Some st \<Rightarrow> if auth_probe_state_expired st now then AList.delete k l else l | None \<Rightarrow> l)"

lemma throttle_spec:
  assumes "auth_probe_should_apply_preauth_throttle p now sh = (throttled, sh')"
  shows "auth_probe sh' = drop_expired (normalize_auth_probe_ip p) now (auth_probe sh)"
    and "throttled \<Longrightarrow> \<exists>st. map_of (auth_probe sh) (normalize_auth_probe_ip p) = Some st \<and>
      \<not> auth_probe_state_expired st now \<and> now < blocked_until st"
    and "map_of (auth_probe sh) (normalize_auth_probe_ip p) = Some st \<Longrightarrow> \<not> auth_probe_state_expired st now \<Longrightarrow>
      now < blocked_until st \<Longrightarrow> 6 \<le> fail_streak st \<Longrightarrow> throttled"
  using assms
  by (auto simp: auth_probe_should_apply_preauth_throttle_def auth_probe_is_throttled_def drop_expired_def
      auth_probe_saturation_is_throttled_def auth_probe_saturation_grace_exhausted_def Let_def
      AUTH_PROBE_BACKOFF_START_FAILS_def AUTH_PROBE_SATURATION_GRACE_FAILS_def
      split: option.splits if_splits prod.splits)

lemma drop_expired_props:
  "distinct (map fst l) \<Longrightarrow> distinct (map fst (drop_expired k now l))"
  "length (drop_expired k now l) \<le> length l"
  "j \<noteq> k \<Longrightarrow> map_of (drop_expired k now l) j = map_of l j"
  "map_of (drop_expired k now l) k =
    (case map_of l k of Some st \<Rightarrow> if auth_probe_state_expired st now then None else Some st | None \<Rightarrow> None)"
  by (auto simp: drop_expired_def alist_simps distinct_delete length_delete_le split: option.split)

abbreviation SEC :: int where "SEC \<equiv> 1000000000"

text \<open>
  The account of the client after \<open>n\<close> failures and \<open>r\<close> removals of its entry, with the clock at \<open>cur\<close>: beyond
  ten per new start, each failure has cost a second.  An entry from before the period has none on the account.
\<close>

definition guesses_paid :: "IpAddr \<Rightarrow> instant \<Rightarrow> nat \<Rightarrow> nat \<Rightarrow> instant \<Rightarrow> HandshakeSharedState \<Rightarrow> bool" where
  "guesses_paid k t0 n r cur sh \<longleftrightarrow> probe_inv sh \<and> t0 \<le> cur \<and>
    (case map_of (auth_probe sh) k of
       None \<Rightarrow> int n \<le> 10 * int r + (cur - t0) div SEC
     | Some st \<Rightarrow> last_seen st \<le> cur \<and>
         (if last_seen st < t0 then n = 0 else int n \<le> 10 * int r + int (min (fail_streak st) 10) + (last_seen st - t0) div SEC))"

text \<open>An attempt that was let through: its back-off is over.\<close>

definition waited :: "IpAddr \<Rightarrow> instant \<Rightarrow> HandshakeSharedState \<Rightarrow> bool" where
  "waited k cur sh \<longleftrightarrow> (\<forall>st. map_of (auth_probe sh) k = Some st \<longrightarrow> \<not> auth_probe_state_expired st cur \<longrightarrow>
    10 \<le> fail_streak st \<longrightarrow> blocked_until st \<le> cur)"

lemma sec_mono: "a \<le> b \<Longrightarrow> (a - t0) div SEC \<le> (b - t0) div SEC"
  by (simp add: zdiv_mono1)

lemma sec_later: "a + d * SEC \<le> b \<Longrightarrow> (a - t0) div SEC + d \<le> (b - t0) div SEC"
  using zdiv_mono1 [of "a - t0 + d * SEC" "b - t0" SEC] by simp

lemma sec_nonneg: "t0 \<le> a \<Longrightarrow> 0 \<le> (a - t0) div SEC"
  by (simp add: pos_imp_zdiv_nonneg_iff)

lemma expired_mono: "\<not> auth_probe_state_expired st b \<Longrightarrow> a \<le> b \<Longrightarrow> \<not> auth_probe_state_expired st a"
  by (auto simp: auth_probe_state_expired_def)

lemma expired_later: "auth_probe_state_expired st now \<Longrightarrow> last_seen st + 10 * SEC \<le> now"
  by (simp add: auth_probe_state_expired_def from_secs_def AUTH_PROBE_TRACK_RETENTION_SECS_def)

lemma waited_mono: "waited k cur sh \<Longrightarrow> cur \<le> now \<Longrightarrow> waited k now sh"
  using expired_mono unfolding waited_def by (meson order_trans)

lemma guesses_later: "guesses_paid k t0 n r cur sh \<Longrightarrow> cur \<le> now \<Longrightarrow> guesses_paid k t0 n r now sh"
  using sec_mono [of cur now t0] by (auto simp: guesses_paid_def split: option.splits)

lemma guesses_bound:
  assumes "guesses_paid k t0 n r cur sh"
  shows "int n \<le> 10 * int (Suc r) + (cur - t0) div SEC"
  using assms sec_mono [of _ cur t0] sec_nonneg [of t0 cur]
  by (fastforce simp: guesses_paid_def split: option.splits if_splits)

text \<open>The entry of the client stays as it is, or goes.\<close>

lemma guesses_kept:
  assumes "guesses_paid k t0 n r cur sh" "probe_inv sh'" "map_of (auth_probe sh') k = map_of (auth_probe sh) k"
  shows "guesses_paid k t0 n r cur sh'"
  using assms by (simp add: guesses_paid_def)

lemma guesses_removed:
  assumes "guesses_paid k t0 n r cur sh" "probe_inv sh'" "map_of (auth_probe sh') k = None"
  shows "guesses_paid k t0 n (Suc r) cur sh'"
  using assms guesses_bound [OF assms(1)] by (simp add: guesses_paid_def)

lemma guesses_expired:
  assumes "guesses_paid k t0 n r cur sh" "probe_inv sh'" "map_of (auth_probe sh') k = None"
    and "map_of (auth_probe sh) k = Some st" "auth_probe_state_expired st cur"
  shows "guesses_paid k t0 n r cur sh'"
  using assms sec_later [OF expired_later [OF assms(5)], of t0] sec_nonneg [of t0 cur]
  by (auto simp: guesses_paid_def split: if_splits)

text \<open>One more failure is paid for, whether it came first, late or after its back-off.\<close>

lemma guess_cost:
  assumes "guesses_paid k t0 n r now sh" "waited k now sh"
    and "probe_inv sh'" "map_of (auth_probe sh') k = Some (probe_after now (map_of (auth_probe sh) k))"
  shows "guesses_paid k t0 (Suc n) r now sh'"
proof -
  have t0: "t0 \<le> now" using assms(1) by (simp add: guesses_paid_def)
  let ?e = "map_of (auth_probe sh) k"
  have "int (Suc n) \<le> 10 * int r + int (min (fail_streak (probe_after now ?e)) 10) + (now - t0) div SEC"
  proof (cases ?e)
    case None
    then show ?thesis using assms(1) by (simp add: probe_after_streak guesses_paid_def)
  next
    case (Some st)
    have ok: "entry_ok st" "last_seen st \<le> now" using assms(1) Some by (auto simp: guesses_paid_def probe_inv_def entries_ok_def)
    have pos: "1 \<le> fail_streak (probe_after now ?e)" by (simp add: Some probe_after_streak sat_add_def)
    show ?thesis
    proof (cases "last_seen st < t0")
      case True
      then have "n = 0" using assms(1) Some by (simp add: guesses_paid_def)
      then show ?thesis using pos sec_nonneg [OF t0] by simp
    next
      case False
      then have paid: "int n \<le> 10 * int r + int (min (fail_streak st) 10) + (last_seen st - t0) div SEC"
        using assms(1) Some by (simp add: guesses_paid_def)
      show ?thesis
      proof (cases "auth_probe_state_expired st now")
        case True
        then show ?thesis using paid pos sec_later [OF expired_later [OF True], of t0] by simp
      next
        case fresh: False
        have e: "fail_streak (probe_after now ?e) = sat_add U32_MAX (fail_streak st) 1" using Some fresh by (simp add: probe_after_streak)
        show ?thesis
        proof (cases "10 \<le> fail_streak st")
          case True
          then have "last_seen st + 1 * SEC \<le> now"
            using assms(2) Some fresh ok(1) backoff_bounds(2) [OF True] by (simp add: entry_ok_def waited_def)
          from sec_later [OF this, of t0] show ?thesis using paid True unfolding e by (simp add: sat_add_def)
        next
          case False
          then show ?thesis using paid sec_mono [OF ok(2), of t0] unfolding e by (simp add: sat_add_def)
        qed
      qed
    qed
  qed
  then show ?thesis using t0 assms(3,4) by (simp add: guesses_paid_def probe_after_ok)
qed

lemma entries_ok_drop: "entries_ok l \<Longrightarrow> entries_ok (drop_expired k now l)"
  by (auto simp: entries_ok_def drop_expired_def alist_simps split: option.splits if_splits)

lemma success_inv:
  assumes "probe_inv sh"
  shows "probe_inv (auth_probe_record_success p sh)"
    "map_of (auth_probe (auth_probe_record_success p sh)) k =
      (if k = normalize_auth_probe_ip p then None else map_of (auth_probe sh) k)"
  using assms length_delete_le [of "normalize_auth_probe_ip p" "auth_probe sh"]
    entries_ok_mono [of "auth_probe sh" "AList.delete (normalize_auth_probe_ip p) (auth_probe sh)"]
  by (auto simp: auth_probe_record_success_def probe_inv_def alist_simps distinct_delete)

text \<open>The throttle leaves the account alone, and lets only a client through that has waited.\<close>

lemma asked_paid:
  assumes "guesses_paid k t0 n r now sh" "auth_probe_should_apply_preauth_throttle p now sh = (refused, sh')"
  shows "guesses_paid k t0 n r now sh'" "normalize_auth_probe_ip p = k \<Longrightarrow> \<not> refused \<Longrightarrow> waited k now sh'"
    "waited k now sh \<Longrightarrow> waited k now sh'"
proof -
  let ?q = "normalize_auth_probe_ip p"
  have inv: "probe_inv sh" using assms(1) by (simp add: guesses_paid_def)
  note l = throttle_spec(1) [OF assms(2)]
  have inv': "probe_inv sh'"
    using inv drop_expired_props(1,2) [where l = "auth_probe sh" and k = ?q and now = now] entries_ok_drop [of "auth_probe sh" ?q now]
    by (auto simp: probe_inv_def l)
  have m: "map_of (auth_probe sh') k = (case map_of (auth_probe sh) k of
      Some st \<Rightarrow> if ?q = k \<and> auth_probe_state_expired st now then None else Some st | None \<Rightarrow> None)"
    using drop_expired_props(3,4) [where l = "auth_probe sh" and now = now] by (cases "?q = k") (auto simp: l split: option.splits)
  show "guesses_paid k t0 n r now sh'"
  proof (cases "map_of (auth_probe sh') k = map_of (auth_probe sh) k")
    case True
    then show ?thesis by (rule guesses_kept [OF assms(1) inv'])
  next
    case False
    then obtain st where "map_of (auth_probe sh) k = Some st" "auth_probe_state_expired st now" "map_of (auth_probe sh') k = None"
      using m by (auto split: option.splits if_splits)
    then show ?thesis using guesses_expired [OF assms(1) inv'] by blast
  qed
  show "waited k now sh \<Longrightarrow> waited k now sh'" using m by (auto simp: waited_def split: option.splits if_splits)
  show "waited k now sh'" if "?q = k" "\<not> refused"
  proof -
    have "blocked_until st \<le> now" if "map_of (auth_probe sh) k = Some st" "\<not> auth_probe_state_expired st now" "10 \<le> fail_streak st" for st
      using throttle_spec(3) [OF assms(2), of st] that \<open>?q = k\<close> \<open>\<not> refused\<close> by force
    then show ?thesis using m by (auto simp: waited_def split: option.splits if_splits)
  qed
qed

lemma entry_kept_or_gone:
  assumes "guesses_paid k t0 n r now sh" "probe_inv sh'"
    and "map_of (auth_probe sh') k = map_of (auth_probe sh) k \<or> map_of (auth_probe sh') k = None"
  shows "guesses_paid k t0 n (r + (if map_of (auth_probe sh) k \<noteq> None \<and> map_of (auth_probe sh') k = None then 1 else 0)) now sh'"
    "waited k now sh \<Longrightarrow> waited k now sh'"
  using assms guesses_kept [OF assms(1,2)] guesses_removed [OF assms(1,2)] by (auto simp: waited_def)

lemma guesses_run:
  assumes "env_ok env" "guesses_paid k t0 n r cur sh" "opened \<Longrightarrow> waited k cur sh" "cur \<le> fin"
    and "sorted_wrt (\<lambda>a b. fst a \<le> fst b) evs" "\<forall>(now, ev)\<in>set evs. cur \<le> now \<and> now \<le> fin" "one_by_one env k opened evs sh"
  shows "int (n + failures_of k evs) \<le> 10 * int (Suc (r + removals_of env k evs sh)) + (fin - t0) div SEC"
  using assms(2-)
proof (induction evs arbitrary: n r cur sh opened)
  case Nil
  then show ?case using guesses_bound [OF Nil(1)] sec_mono [of cur fin t0] by (simp add: failures_of_def)
next
  case (Cons x evs)
  obtain now ev where x: "x = (now, ev)" by (cases x)
  obtain refused sh' where st: "probe_step env now ev sh = (refused, sh')" by fastforce
  have now: "cur \<le> now" "now \<le> fin" and rest: "sorted_wrt (\<lambda>a b. fst a \<le> fst b) evs" "\<forall>(t, ev)\<in>set evs. now \<le> t \<and> t \<le> fin"
    using Cons.prems(4,5) by (auto simp: x)
  note paid = guesses_later [OF Cons.prems(1) now(1)]
  have inv: "probe_inv sh" using paid by (simp add: guesses_paid_def)
  have w: "waited k now sh" if opened using waited_mono [OF Cons.prems(2) [OF that] now(1)] .
  note IH = Cons.IH [OF _ _ now(2) rest]
  show ?case
  proof (cases ev)
    case (Asked p)
    note a = asked_paid [OF paid st [unfolded Asked probe_step.simps]]
    have o: "one_by_one env k (if normalize_auth_probe_ip p = k then \<not> refused else opened) evs sh'"
      using Cons.prems(6) st by (simp add: x Asked split: if_splits)
    have w': "waited k now sh'" if "if normalize_auth_probe_ip p = k then \<not> refused else opened"
      using a(2,3) w that by (auto split: if_splits)
    from IH [OF a(1) w' o] show ?thesis using st by (simp add: x Asked failures_of_def)
  next
    case (Failed p)
    have sh': "sh' = auth_probe_record_failure env p now sh" using st Failed by simp
    note f = record_failure_spec [OF assms(1) inv, where p = p and now = now, folded sh']
    show ?thesis
    proof (cases "normalize_auth_probe_ip p = k")
      case True
      have o: opened "one_by_one env k False evs sh'" using Cons.prems(6) st True by (simp_all add: x Failed)
      have "guesses_paid k t0 (Suc n) r now sh'" by (rule guess_cost [OF paid w [OF o(1)] f(1)]) (use f(2) True in simp)
      from IH [OF this _ o(2)] show ?thesis using st f(2) True by (simp add: x Failed failures_of_def)
    next
      case False
      have o: "one_by_one env k opened evs sh'" using Cons.prems(6) st False by (simp add: x Failed)
      have "map_of (auth_probe sh') k = map_of (auth_probe sh) k \<or> map_of (auth_probe sh') k = None" using f(3) [of k] False by auto
      note e = entry_kept_or_gone [OF paid f(1) this]
      from IH [OF e(1) e(2) [OF w] o] show ?thesis using st False by (simp add: x Failed failures_of_def)
    qed
  next
    case (Succeeded p)
    have sh': "sh' = auth_probe_record_success p sh" using st Succeeded by simp
    note f = success_inv [OF inv, of p, folded sh']
    have o: "one_by_one env k (opened \<and> normalize_auth_probe_ip p \<noteq> k) evs sh'"
      using Cons.prems(6) st by (auto simp: x Succeeded split: if_splits)
    have "map_of (auth_probe sh') k = map_of (auth_probe sh) k \<or> map_of (auth_probe sh') k = None" using f(2) [of k] by auto
    note e = entry_kept_or_gone [OF paid f(1) this]
    from IH [OF e(1) e(2) [OF w] o] show ?thesis using st by (simp add: x Succeeded failures_of_def)
  qed
qed

section \<open>Properties\<close>

text \<open>C37.
  Recording a failed handshake.  The table of failing clients never exceeds its 65536 entries.
  The client (an IPv4 address, or an IPv6 address reduced to its /64) always gets its failure
  recorded, even when the table is full: a new streak of one, or the streak extended by one with
  the back-off that belongs to it.  Every other client keeps its entry, except that a full table
  may give one up, and then only an expired one or one that at least 1024 recorded clients have
  matched or exceeded in failures.
\<close>

theorem auth_probe_failure_effect:
  assumes "env_ok env" "probe_inv sh"
  shows "probe_inv (auth_probe_record_failure env p now sh) \<and>
    map_of (auth_probe (auth_probe_record_failure env p now sh)) (normalize_auth_probe_ip p) =
      Some (probe_after now (map_of (auth_probe sh) (normalize_auth_probe_ip p))) \<and>
    (\<forall>j. j \<noteq> normalize_auth_probe_ip p \<longrightarrow>
      map_of (auth_probe (auth_probe_record_failure env p now sh)) j = map_of (auth_probe sh) j \<or>
      (map_of (auth_probe (auth_probe_record_failure env p now sh)) j = None \<and>
       length (auth_probe sh) = AUTH_PROBE_TRACK_MAX_ENTRIES \<and>
       (\<exists>st. map_of (auth_probe sh) j = Some st \<and> expendable now (auth_probe sh) st)))"
  using record_failure_spec [OF assms, where p = p and now = now] by blast

lemma fresh_state_inv: "probe_inv HandshakeSharedState_new"
  by (simp add: probe_inv_def entries_ok_def HandshakeSharedState_new_def)

definition demo_env :: probe_env where
  "demo_env = \<lparr>iter_order = rev, eviction_hash = \<lambda>_ _. 7\<rparr>"

lemma demo_env_ok: "env_ok demo_env"
  by (simp add: env_ok_def demo_env_def)

theorem auth_probe_failure_effect_witness:
  "map_of (auth_probe (auth_probe_record_failure demo_env (V4 [10, 0, 0, 1]) 5 HandshakeSharedState_new)) (V4 [10, 0, 0, 1]) =
     Some \<lparr>fail_streak = 1, blocked_until = 5, last_seen = 5\<rparr>"
  using auth_probe_failure_effect [OF demo_env_ok fresh_state_inv, of "V4 [10, 0, 0, 1]" 5]
  by (simp add: HandshakeSharedState_new_def probe_after_def new_probe_state_def backoff_bounds)

text \<open>C36.
  Guessing is slow.  Take any history of the throttle, of recorded failures and of successes of all
  clients, in any order, also across a full table and the expiry of entries, in which the attempts of one client (one
  IPv4 address, one IPv6 /64) come one after another.  Its failed attempts in a period, which
  begins after those already on record, number at most ten, plus ten for each time its entry is removed by a success or given up for want of room, plus
  one per second of the period.  And nobody is locked out for long: an attempt is only ever
  refused within a second of a recorded failure.
\<close>

theorem guess_rate_bounded:
  assumes "env_ok env" "probe_inv sh" "\<forall>st. map_of (auth_probe sh) k = Some st \<longrightarrow> last_seen st \<le> t0" "t0 \<le> fin"
    and "sorted_wrt (\<lambda>a b. fst a \<le> fst b) evs" "\<forall>(now, ev)\<in>set evs. t0 \<le> now \<and> now \<le> fin" "one_by_one env k False evs sh"
  shows "int (failures_of k evs) \<le> 10 * int (1 + removals_of env k evs sh) + (fin - t0) div 1000000000 \<and>
    (\<forall>p now. fst (auth_probe_should_apply_preauth_throttle p now sh) \<longrightarrow>
       (\<exists>st. map_of (auth_probe sh) (normalize_auth_probe_ip p) = Some st \<and> now < last_seen st + 1000000000))"
proof (intro conjI allI impI)
  have "guesses_paid k t0 0 0 t0 sh" using assms(2,3) by (simp add: guesses_paid_def split: option.split)
  from guesses_run [OF assms(1) this _ assms(4-7)]
  show "int (failures_of k evs) \<le> 10 * int (1 + removals_of env k evs sh) + (fin - t0) div 1000000000" by simp
next
  fix p now
  assume "fst (auth_probe_should_apply_preauth_throttle p now sh)"
  then obtain st where st: "map_of (auth_probe sh) (normalize_auth_probe_ip p) = Some st" "now < blocked_until st"
    using throttle_spec(2) [of p now sh True] by (metis prod.collapse)
  have "entry_ok st" using assms(2) st(1) by (auto simp: probe_inv_def entries_ok_def)
  then show "\<exists>st. map_of (auth_probe sh) (normalize_auth_probe_ip p) = Some st \<and> now < last_seen st + 1000000000"
    using st backoff_bounds(1) [of "fail_streak st"] by (auto simp: entry_ok_def)
qed

theorem guess_rate_bounded_witness:
  "let k = V4 [10, 0, 0, 1];
       evs = [(7, Asked k), (8, Asked (V4 [10, 0, 0, 2])), (8, Failed k), (9, Succeeded (V4 [10, 0, 0, 2])), (9, Asked k), (9, Failed k)]
   in int (failures_of k evs) \<le> 10 * int (1 + removals_of demo_env k evs HandshakeSharedState_new) + (9 - 7) div 1000000000 \<and>
      failures_of k evs = 2"
proof -
  let ?k = "V4 [10, 0, 0, 1]"
  let ?evs = "[(7, Asked ?k), (8, Asked (V4 [10, 0, 0, 2])), (8, Failed ?k), (9, Succeeded (V4 [10, 0, 0, 2])), (9, Asked ?k), (9, Failed ?k)]"
  have o: "one_by_one demo_env ?k False ?evs HandshakeSharedState_new"
    by (simp add: auth_probe_should_apply_preauth_throttle_def auth_probe_is_throttled_def auth_probe_saturation_is_throttled_def
        HandshakeSharedState_new_def auth_probe_record_failure_def auth_probe_record_failure_with_state_def
        auth_probe_record_success_def prune_rounds.simps Let_def new_probe_state_def backoff_bounds auth_probe_state_expired_def
        AUTH_PROBE_TRACK_MAX_ENTRIES_def from_secs_def AUTH_PROBE_TRACK_RETENTION_SECS_def)
  have "failures_of ?k ?evs = 2" by (simp add: failures_of_def)
  then show ?thesis
    using guess_rate_bounded [OF demo_env_ok fresh_state_inv _ _ _ _ o, of 7 9] by (simp add: Let_def HandshakeSharedState_new_def)
qed

end
