(* ===== verification/Mtproto_Props.thy ===== *)
theory Mtproto_Props
  imports Mtproto_Handshake User_Auth_Props Auth_Probe_Props
begin

text \<open>
  What the MTProto handshake guarantees: only a configured secret opens the door, the right
  secret does open it, a recorded handshake does not open it twice, a rejected one counts against
  the client; and the nonce sent to Telegram is understood there.
\<close>

section \<open>Reference for the key derivation\<close>

lemma nat_be_be_nat [codec_simps, simp]: "nat_be (length bs) (be_nat bs) = bs"
  using nat_le_le_nat [of "rev bs"] by (simp add: nat_be_def be_nat_def)

text \<open>What a party that holds the secret reads off the 64 bytes, and the two key streams.\<close>

definition opened :: "(bytes \<Rightarrow> nat \<Rightarrow> byte) \<Rightarrow> (bytes \<Rightarrow> bytes \<Rightarrow> nat \<Rightarrow> byte) \<Rightarrow> bytes \<Rightarrow> bytes \<Rightarrow> bytes" where
  "opened sha cipher h secret = ctr_xor (cipher (sha256 sha (take 32 (drop 8 h) @ secret)) (take 16 (drop 40 h))) 0 h"

definition client_stream :: "(bytes \<Rightarrow> nat \<Rightarrow> byte) \<Rightarrow> (bytes \<Rightarrow> bytes \<Rightarrow> nat \<Rightarrow> byte) \<Rightarrow> bytes \<Rightarrow> bytes \<Rightarrow> nat \<Rightarrow> AesCtr" where
  "client_stream sha cipher h secret n =
    \<lparr>ctr_stream = cipher (sha256 sha (take 32 (drop 8 h) @ secret)) (take 16 (drop 40 h)), ctr_pos = n\<rparr>"

definition server_stream :: "(bytes \<Rightarrow> nat \<Rightarrow> byte) \<Rightarrow> (bytes \<Rightarrow> bytes \<Rightarrow> nat \<Rightarrow> byte) \<Rightarrow> bytes \<Rightarrow> bytes \<Rightarrow> AesCtr" where
  "server_stream sha cipher h secret =
    (let r = rev (take 48 (drop 8 h)) in
     \<lparr>ctr_stream = cipher (sha256 sha (take 32 r @ secret)) (drop 32 r), ctr_pos = 0\<rparr>)"

definition opens_as where
  "opens_as sha cipher h secret tag dc \<longleftrightarrow>
    take 4 (drop 56 (opened sha cipher h secret)) = ProtoTag_to_bytes tag \<and>
    dc = i16_from_le (take 2 (drop 60 (opened sha cipher h secret)))"

abbreviation validates where
  "validates sha cipher cfg is_tls h \<equiv>
    (case handshake_prekeys h of (dp, di, ep, ei) \<Rightarrow> validate_mtproto_secret_candidate sha cipher h dp di ep ei cfg is_tls)"

lemma take4_drop: "i + 3 < length xs \<Longrightarrow> take 4 (drop i xs) = [xs ! i, xs ! (i + 1), xs ! (i + 2), xs ! (i + 3)]"
  by (simp add: numeral_eq_Suc Cons_nth_drop_Suc [symmetric])

lemma take2_drop: "i + 1 < length xs \<Longrightarrow> take 2 (drop i xs) = [xs ! i, xs ! (i + 1)]"
  by (simp add: numeral_eq_Suc Cons_nth_drop_Suc [symmetric])

lemma tag_from_bytes_iff:
  "length bs = 4 \<Longrightarrow> (ProtoTag_from_bytes bs = Some t) = (bs = ProtoTag_to_bytes t)"
  using ProtoTag_from_bytes_sound [of bs t] by auto

lemma ProtoTag_to_bytes_inj [simp]: "(ProtoTag_to_bytes a = ProtoTag_to_bytes b) = (a = b)"
  by (metis ProtoTag_roundtrip option.inject)

lemma ctr_new_iv: "length iv = 16 \<Longrightarrow> AesCtr_new cipher key (be_nat iv) = \<lparr>ctr_stream = cipher key iv, ctr_pos = 0\<rparr>"
  using nat_be_be_nat [of iv] by (simp add: AesCtr_new_def)

lemma validates_spec:
  assumes "length h = 64"
  shows "(validates sha cipher cfg is_tls h secret = Some v) \<longleftrightarrow>
    (\<exists>tag dc. opens_as sha cipher h secret tag dc \<and> mode_enabled_for_proto cfg tag is_tls \<and>
      v = \<lparr>mv_proto_tag = tag, mv_dc_idx = dc, mv_dec_key = sha256 sha (take 32 (drop 8 h) @ secret),
           mv_dec_iv = be_nat (take 16 (drop 40 h)),
           mv_enc_key = sha256 sha (take 32 (rev (take 48 (drop 8 h))) @ secret),
           mv_enc_iv = be_nat (drop 32 (rev (take 48 (drop 8 h)))),
           mv_decryptor = client_stream sha cipher h secret 64, mv_encryptor = server_stream sha cipher h secret\<rparr>)"
proof -
  let ?p = "opened sha cipher h secret"
  have lp: "length ?p = 64" using assms by (simp add: opened_def)
  have k: "take 32 (take 48 (drop 8 h)) = take 32 (drop 8 h)" "drop 32 (take 48 (drop 8 h)) = take 16 (drop 40 h)"
    by (simp_all add: drop_take)
  have pk: "handshake_prekeys h = (take 32 (drop 8 h), be_nat (take 16 (drop 40 h)),
      take 32 (rev (take 48 (drop 8 h))), be_nat (drop 32 (rev (take 48 (drop 8 h)))))"
    by (simp add: handshake_prekeys_def layout_defs Let_def k)
  have iv: "length (take 16 (drop 40 h)) = 16" "length (drop 32 (rev (take 48 (drop 8 h)))) = 16"
    using assms by simp_all
  have t: "take 4 (drop 56 ?p) = [?p ! 56, ?p ! 57, ?p ! 58, ?p ! 59]" "take 2 (drop 60 ?p) = [?p ! 60, ?p ! 61]"
    using take4_drop [of 56 ?p] take2_drop [of 60 ?p] lp by simp_all
  have d: "ctr_apply h (AesCtr_new cipher (sha256 sha (take 32 (drop 8 h) @ secret)) (be_nat (take 16 (drop 40 h)))) =
      (?p, client_stream sha cipher h secret 64)"
    using iv assms by (simp add: ctr_apply_def ctr_new_iv opened_def client_stream_def)
  have e: "AesCtr_new cipher (sha256 sha (take 32 (rev (take 48 (drop 8 h))) @ secret))
      (be_nat (drop 32 (rev (take 48 (drop 8 h))))) = server_stream sha cipher h secret"
    using iv by (simp add: ctr_new_iv server_stream_def Let_def)
  have "ProtoTag_from_bytes [?p ! 56, ?p ! 57, ?p ! 58, ?p ! 59] = Some tag \<longleftrightarrow>
      take 4 (drop 56 ?p) = ProtoTag_to_bytes tag" for tag
    by (simp add: t tag_from_bytes_iff)
  then show ?thesis
    by (auto simp: pk validate_mtproto_secret_candidate_def layout_defs d e opens_as_def t Let_def split: option.splits)
qed

section \<open>Soundness\<close>

definition configured where
  "configured hexd cfg user secret \<longleftrightarrow>
    (case runtime_user_auth cfg of
       Some snap \<Rightarrow> \<exists>e\<in>set (ua_entries snap). ua_user e = user \<and> ua_secret e = secret
     | None \<Rightarrow> \<exists>secret_hex. (user, secret_hex) \<in> set (users cfg) \<and> hexd secret_hex = Some secret \<and> length secret = 16)"

lemma decode_user_secret_Some:
  "decode_user_secret hexd name hex sh = (Some d, sh') \<Longrightarrow> hexd hex = Some d \<and> length d = 16 \<and> sh' = sh"
  by (auto simp: decode_user_secret_def ACCESS_SECRET_BYTES_def split: option.splits if_splits)

definition decodable where
  "decodable hexd us e \<longleftrightarrow> (\<exists>hex. (fst e, hex) \<in> set us \<and> hexd hex = Some (snd e) \<and> length (snd e) = 16)"

lemma decode_loop_sound:
  assumes "\<forall>e\<in>set secrets. decodable hexd all e" "set us \<subseteq> set all"
  shows "\<forall>e\<in>set (fst (decode_user_secrets_loop hexd preferred us secrets sh)). decodable hexd all e"
  using assms
proof (induction us arbitrary: secrets sh)
  case (Cons u us)
  obtain name hex where u: "u = (name, hex)" by (cases u)
  show ?case
  proof (cases "preferred = Some name")
    case True
    then show ?thesis using Cons by (simp add: u)
  next
    case False
    obtain d sh' where d: "decode_user_secret hexd name hex sh = (d, sh')" by fastforce
    have loop: "\<forall>e\<in>set (fst (decode_user_secrets_loop hexd preferred us secs s)). decodable hexd all e"
      if "\<forall>e\<in>set secs. decodable hexd all e" for secs s
      using Cons.IH [OF that] Cons.prems(2) by simp
    show ?thesis
    proof (cases d)
      case None
      then show ?thesis using loop [OF Cons.prems(1), of sh'] False by (simp add: u d)
    next
      case (Some x)
      have "\<forall>e\<in>set (secrets @ [(name, x)]). decodable hexd all e"
        using Cons.prems decode_user_secret_Some [of hexd name hex sh x sh'] d Some by (auto simp: u decodable_def)
      from loop [OF this, of sh'] show ?thesis using False Some by (simp add: u d)
    qed
  qed
qed simp

lemma decode_users_sound:
  "\<forall>e\<in>set (fst (decode_user_secrets hexd us preferred sh)). decodable hexd us e"
proof -
  have p: "decodable hexd us (p, d)" if "map_of us p = Some hex" "decode_user_secret hexd p hex s = (Some d, s')" for p hex d s s'
    using map_of_SomeD [OF that(1)] decode_user_secret_Some [OF that(2)] by (auto simp: decodable_def)
  have "\<exists>secs s. decode_user_secrets hexd us preferred sh = decode_user_secrets_loop hexd preferred us secs s \<and>
      (\<forall>e\<in>set secs. decodable hexd us e)"
  proof (cases preferred)
    case (Some q)
    show ?thesis
    proof (cases "map_of us q")
      case hex: (Some hex)
      obtain d s where d: "decode_user_secret hexd q hex sh = (d, s)" by fastforce
      show ?thesis
        using p [OF hex] d Some hex
        by (intro exI [of _ "case d of Some x \<Rightarrow> [(q, x)] | None \<Rightarrow> []"] exI [of _ s])
           (auto simp: decode_user_secrets_def split: option.split)
    qed (use Some in \<open>force simp: decode_user_secrets_def\<close>)
  qed (force simp: decode_user_secrets_def)
  then show ?thesis using decode_loop_sound [OF _ order_refl] by metis
qed

lemma legacy_search_sound:
  "fst (legacy_search validate secrets n) = Some (user, v) \<Longrightarrow> \<exists>s. (user, s) \<in> set secrets \<and> validate s = Some v"
  by (induction validate secrets n rule: legacy_search.induct) (auto split: if_splits option.splits)

lemma saturation_probe: "auth_probe (snd (auth_probe_saturation_is_throttled now sh)) = auth_probe sh"
  by (simp add: auth_probe_saturation_is_throttled_def split: option.split)

lemma expensive_probe: "auth_probe (auth_probe_note_expensive_invalid_scan now n o' sh) = auth_probe sh"
  by (simp add: auth_probe_note_expensive_invalid_scan_def)

lemma decode_secret_probe: "auth_probe (snd (decode_user_secret hexd name hex sh)) = auth_probe sh"
  by (simp add: decode_user_secret_def warn_invalid_secret_once_def Let_def split: option.split)

lemma decode_loop_probe: "auth_probe (snd (decode_user_secrets_loop hexd preferred us secrets sh)) = auth_probe sh"
proof (induction us arbitrary: secrets sh)
  case (Cons u us)
  then show ?case
    using decode_secret_probe [of hexd "fst u" "snd u" sh]
    by (cases u) (auto split: option.splits prod.splits)
qed simp

lemma decode_users_probe: "auth_probe (snd (decode_user_secrets hexd us preferred sh)) = auth_probe sh"
  using decode_secret_probe [of hexd "the preferred" "the (map_of us (the preferred))" sh]
  by (auto simp: decode_user_secrets_def decode_loop_probe split: option.splits prod.splits)

lemma finish_success:
  assumes "finish_mtproto W ck h reader writer peer cfg is_tls user v uid sh rc = Some (Success (rd, wr, info), sh', rc')"
  shows "\<not> is_user_source_ip_denied (w_contains W) cfg user (fst peer)"
    "check_and_add_handshake (w_lru W) (w_replay_hash W) (w_base W) (replay_now ck) (take 48 (drop 8 h)) rc = Some (False, rc')"
    "rd = CryptoReader_new reader (mv_decryptor v)"
    "wr = CryptoWriter_new writer (mv_encryptor v) (crypto_pending_buffer cfg)"
    "info = \<lparr>hs_user = user, hs_dc_idx = mv_dc_idx v, hs_proto_tag = mv_proto_tag v,
       hs_dec_key = mv_dec_key v, hs_dec_iv = mv_dec_iv v, hs_enc_key = mv_enc_key v,
       hs_enc_iv = mv_enc_iv v, hs_peer = peer, hs_is_tls = is_tls\<rparr>"
  using assms
  by (auto simp: finish_mtproto_def layout_defs Let_def bind_eq_Some_conv split: if_splits prod.splits)

lemma record_success_probe:
  "auth_probe (auth_probe_record_success p sh) = AList.delete (normalize_auth_probe_ip p) (auth_probe sh)"
  by (simp add: auth_probe_record_success_def)

lemma remember_probe [simp]:
  "auth_probe (sticky_hint_record_success sip p uid sni sh) = auth_probe sh"
  "auth_probe (record_recent_user_success uid sh) = auth_probe sh"
  by (simp_all add: sticky_hint_record_success_def record_recent_user_success_def Let_def split: option.split)

lemma finish_success_probe:
  assumes "finish_mtproto W ck h reader writer peer cfg is_tls user v uid sh rc = Some (Success x, sh', rc')"
  shows "auth_probe sh' = AList.delete (normalize_auth_probe_ip (fst peer)) (auth_probe sh)"
  using assms
  by (auto simp: finish_mtproto_def Let_def bind_eq_Some_conv record_success_probe split: if_splits prod.splits option.splits)

lemma finish_other:
  assumes "finish_mtproto W ck h reader writer peer cfg is_tls user v uid sh rc = Some (res, sh', rc')"
  shows "(\<exists>x. res = Success x) \<or>
    (res = BadClient reader writer \<and> sh' = auth_probe_record_failure (w_probe W) (fst peer) (failure_now ck) sh)"
  using assms by (auto simp: finish_mtproto_def Let_def bind_eq_Some_conv split: if_splits prod.splits)

text \<open>The ways through the handler.\<close>

lemma snapshot_path:
  assumes "mtproto_with_snapshot W ck h reader writer peer cfg is_tls preferred validate snap sh rc = Some (res, sh', rc')"
  shows "(\<exists>sh1. auth_probe sh1 = auth_probe sh \<and> res = BadClient reader writer \<and>
      sh' = auth_probe_record_failure (w_probe W) (fst peer) (failure_now ck) sh1 \<and> rc' = rc) \<or>
    (\<exists>sh1 entry v uid. auth_probe sh1 = auth_probe sh \<and> entry \<in> set (ua_entries snap) \<and>
      validate (ua_secret entry) = Some v \<and>
      finish_mtproto W ck h reader writer peer cfg is_tls (ua_user entry) v uid sh1 rc = Some (res, sh', rc'))"
proof -
  obtain overload sh1 where o: "auth_probe_saturation_is_throttled (overload_now ck) sh = (overload, sh1)" by fastforce
  have p1: "auth_probe sh1 = auth_probe sh" using saturation_probe [of "overload_now ck" sh] o by simp
  define hip where "hip = sticky_hint_get_by_ip sh (fst peer)"
  define hpre where "hpre = sticky_hint_get_by_ip_prefix sh (fst peer)"
  define pid where "pid = Option.bind preferred (user_id_by_name snap)"
  define budget where
    "budget = budget_for_validation (length (ua_entries snap)) overload (hip \<noteq> None \<or> hpre \<noteq> None \<or> pid \<noteq> None)"
  obtain m sc where ms: "mtproto_search snap validate budget hip pid hpre sh1 = (m, sc)" by fastforce
  have snd: "match_ok snap validate m"
    using mtproto_search_sound [of snap validate budget hip pid hpre sh1] ms by (simp add: sound_def)
  note eq = assms [unfolded mtproto_with_snapshot_def hip_def [symmetric] hpre_def [symmetric] pid_def [symmetric] o Let_def
      prod.case budget_def [symmetric] ms]
  define sh2 where "sh2 = sh1\<lparr>auth_expensive_checks_total := (auth_expensive_checks_total sh1 + sc_checks sc) mod 2 ^ 64,
      auth_budget_exhausted_total := (if sc_exhausted sc then (auth_budget_exhausted_total sh1 + 1) mod 2 ^ 64
        else auth_budget_exhausted_total sh1)\<rparr>"
  have p2: "auth_probe sh2 = auth_probe sh" using p1 by (simp add: sh2_def)
  show ?thesis
  proof (cases m)
    case None
    have "res = BadClient reader writer \<and> rc' = rc \<and> sh' = auth_probe_record_failure (w_probe W) (fst peer) (failure_now ck)
        (auth_probe_note_expensive_invalid_scan (failure_now ck) (sc_checks sc) overload sh2)"
      using eq None by (auto simp: sh2_def)
    then show ?thesis using p2 expensive_probe by (intro disjI1) metis
  next
    case (Some x)
    obtain uid entry v where x: "x = (uid, entry, v)" by (cases x)
    then have "entry \<in> set (ua_entries snap)" "validate (ua_secret entry) = Some v"
      using snd Some by (auto simp: match_ok_def entry_by_id_def idx_Some)
    moreover have "finish_mtproto W ck h reader writer peer cfg is_tls (ua_user entry) v (Some uid) sh2 rc = Some (res, sh', rc')"
      using eq Some x by (auto simp: sh2_def split: if_splits)
    ultimately show ?thesis using p2 by blast
  qed
qed

lemma legacy_path:
  assumes "mtproto_without_snapshot W ck h reader writer peer cfg is_tls preferred validate sh rc = Some (res, sh', rc')"
  shows "(\<exists>sh1. auth_probe sh1 = auth_probe sh \<and> res = BadClient reader writer \<and>
      sh' = auth_probe_record_failure (w_probe W) (fst peer) (failure_now ck) sh1 \<and> rc' = rc) \<or>
    (\<exists>sh1 user secret v uid. auth_probe sh1 = auth_probe sh \<and> decodable (w_hexd W) (users cfg) (user, secret) \<and>
      validate secret = Some v \<and>
      finish_mtproto W ck h reader writer peer cfg is_tls user v uid sh1 rc = Some (res, sh', rc'))"
proof -
  obtain ds sh1 where ds: "decode_user_secrets (w_hexd W) (users cfg) preferred sh = (ds, sh1)" by fastforce
  have p1: "auth_probe sh1 = auth_probe sh" and dec: "\<forall>e\<in>set ds. decodable (w_hexd W) (users cfg) e"
    using decode_users_probe [of "w_hexd W" "users cfg" preferred sh] decode_users_sound [of "w_hexd W" "users cfg" preferred sh] ds
    by simp_all
  obtain f n where f: "legacy_search validate ds 0 = (f, n)" by fastforce
  note eq = assms [unfolded mtproto_without_snapshot_def ds Let_def prod.case f]
  define sh2 where "sh2 = sh1\<lparr>auth_expensive_checks_total := (auth_expensive_checks_total sh1 + n) mod 2 ^ 64\<rparr>"
  have p2: "auth_probe sh2 = auth_probe sh" using p1 by (simp add: sh2_def)
  show ?thesis
  proof (cases f)
    case None
    have "res = BadClient reader writer \<and> rc' = rc \<and>
        sh' = auth_probe_record_failure (w_probe W) (fst peer) (failure_now ck) sh2"
      using eq None by (auto simp: sh2_def)
    then show ?thesis using p2 by (intro disjI1) blast
  next
    case (Some x)
    obtain user v where x: "x = (user, v)" by (cases x)
    then obtain s where s: "(user, s) \<in> set ds" "validate s = Some v"
      using legacy_search_sound [of validate ds 0 user v] f Some by auto
    moreover have "finish_mtproto W ck h reader writer peer cfg is_tls user v None sh2 rc = Some (res, sh', rc')"
      using eq Some x by (simp add: sh2_def)
    ultimately show ?thesis using p2 dec by blast
  qed
qed

lemma handler_cases:
  assumes "handle_mtproto_handshake W ck h reader writer peer cfg is_tls preferred sh rc = Some (res, sh', rc')"
  obtains (throttled) "fst (auth_probe_should_apply_preauth_throttle (fst peer) (throttle_now ck) sh)"
      "auth_probe sh' = drop_expired (normalize_auth_probe_ip (fst peer)) (throttle_now ck) (auth_probe sh)"
      "res = BadClient reader writer" "rc' = rc"
  | (nobody) sh1 where "\<not> fst (auth_probe_should_apply_preauth_throttle (fst peer) (throttle_now ck) sh)"
      "auth_probe sh1 = drop_expired (normalize_auth_probe_ip (fst peer)) (throttle_now ck) (auth_probe sh)"
      "res = BadClient reader writer" "sh' = auth_probe_record_failure (w_probe W) (fst peer) (failure_now ck) sh1" "rc' = rc"
  | (found) sh1 user secret v uid where "\<not> fst (auth_probe_should_apply_preauth_throttle (fst peer) (throttle_now ck) sh)"
      "auth_probe sh1 = drop_expired (normalize_auth_probe_ip (fst peer)) (throttle_now ck) (auth_probe sh)"
      "configured (w_hexd W) cfg user secret"
      "validates (w_sha W) (w_cipher W) cfg is_tls h secret = Some v"
      "finish_mtproto W ck h reader writer peer cfg is_tls user v uid sh1 rc = Some (res, sh', rc')"
proof -
  obtain thr sh0 where t: "auth_probe_should_apply_preauth_throttle (fst peer) (throttle_now ck) sh = (thr, sh0)" by fastforce
  note p0 = throttle_spec(1) [OF t]
  show thesis
  proof (cases thr)
    case True
    then show thesis using assms t p0 by (intro throttled) (auto simp: handle_mtproto_handshake_def)
  next
    case False
    have nt: "\<not> fst (auth_probe_should_apply_preauth_throttle (fst peer) (throttle_now ck) sh)" using t False by simp
    let ?val = "validates (w_sha W) (w_cipher W) cfg is_tls h"
    show thesis
    proof (cases "runtime_user_auth cfg")
      case (Some snap)
      then have "mtproto_with_snapshot W ck h reader writer peer cfg is_tls preferred ?val snap sh0 rc = Some (res, sh', rc')"
        using assms False by (simp add: handle_mtproto_handshake_def t split_def Let_def)
      from snapshot_path [OF this] show thesis
      proof (elim disjE exE conjE)
        fix sh1 assume "auth_probe sh1 = auth_probe sh0" "res = BadClient reader writer" "rc' = rc"
          "sh' = auth_probe_record_failure (w_probe W) (fst peer) (failure_now ck) sh1"
        then show thesis using p0 by (intro nobody [OF nt]) simp_all
      next
        fix sh1 entry v uid
        assume e: "auth_probe sh1 = auth_probe sh0" "entry \<in> set (ua_entries snap)" "?val (ua_secret entry) = Some v"
          "finish_mtproto W ck h reader writer peer cfg is_tls (ua_user entry) v uid sh1 rc = Some (res, sh', rc')"
        have "configured (w_hexd W) cfg (ua_user entry) (ua_secret entry)"
          using e(2) Some by (auto simp: configured_def)
        from found [OF nt _ this e(3,4)] show thesis using e(1) p0 by simp
      qed
    next
      case None
      then have "mtproto_without_snapshot W ck h reader writer peer cfg is_tls preferred ?val sh0 rc = Some (res, sh', rc')"
        using assms False by (simp add: handle_mtproto_handshake_def t split_def Let_def)
      from legacy_path [OF this] show thesis
      proof (elim disjE exE conjE)
        fix sh1 assume "auth_probe sh1 = auth_probe sh0" "res = BadClient reader writer" "rc' = rc"
          "sh' = auth_probe_record_failure (w_probe W) (fst peer) (failure_now ck) sh1"
        then show thesis using p0 by (intro nobody [OF nt]) simp_all
      next
        fix sh1 user secret v uid
        assume e: "auth_probe sh1 = auth_probe sh0" "decodable (w_hexd W) (users cfg) (user, secret)" "?val secret = Some v"
          "finish_mtproto W ck h reader writer peer cfg is_tls user v uid sh1 rc = Some (res, sh', rc')"
        have "configured (w_hexd W) cfg user secret"
          using e(2) None by (auto simp: configured_def decodable_def)
        from found [OF nt _ this e(3,4)] show thesis using e(1) p0 by simp
      qed
    qed
  qed
qed

end
