(* ===== verification/Mtproto_Claims.thy ===== *)
theory Mtproto_Claims
  imports Mtproto_Props
begin

text \<open>
  The guarantees of the MTProto handshake, put together from the throttle, the user search, the key
  derivation and the replay checker: what an accepted handshake proves, that a genuine one is
  accepted, and that it is accepted once.
\<close>

section \<open>The handshake of a client\<close>

text \<open>
  A client draws 64 bytes, writes the tag and the data centre into them, encrypts them under the key
  they carry and sends the first 56 bytes as drawn, the others encrypted.
\<close>

definition client_handshake :: "(bytes \<Rightarrow> nat \<Rightarrow> byte) \<Rightarrow> (bytes \<Rightarrow> bytes \<Rightarrow> nat \<Rightarrow> byte) \<Rightarrow> bytes \<Rightarrow> bytes \<Rightarrow> bytes" where
  "client_handshake sha cipher secret plain = take 56 plain @ drop 56 (opened sha cipher plain secret)"

lemma ctr_xor_take: "take n (ctr_xor ks p d) = ctr_xor ks p (take n d)"
  by (induction ks p d arbitrary: n rule: ctr_xor.induct) (simp_all add: take_Cons split: nat.split)

lemma ctr_xor_drop: "drop n (ctr_xor ks p d) = ctr_xor ks (p + n) (drop n d)"
  by (induction ks p d arbitrary: n rule: ctr_xor.induct) (simp_all add: drop_Cons split: nat.split)

lemma client_handshake_keys:
  assumes "length plain = 64"
  shows "length (client_handshake sha cipher secret plain) = 64"
    "take 32 (drop 8 (client_handshake sha cipher secret plain)) = take 32 (drop 8 plain)"
    "take 16 (drop 40 (client_handshake sha cipher secret plain)) = take 16 (drop 40 plain)"
    "take 48 (drop 8 (client_handshake sha cipher secret plain)) = take 48 (drop 8 plain)"
  using assms by (simp_all add: client_handshake_def opened_def drop_take min_def)

lemma client_handshake_opened:
  assumes "length plain = 64"
  shows "drop 56 (opened sha cipher (client_handshake sha cipher secret plain) secret) = drop 56 plain"
proof -
  let ?c = "cipher (sha256 sha (take 32 (drop 8 plain) @ secret)) (take 16 (drop 40 plain))"
  have "opened sha cipher (client_handshake sha cipher secret plain) secret =
      ctr_xor ?c 0 (take 56 plain @ drop 56 (ctr_xor ?c 0 plain))"
    using client_handshake_keys [OF assms, of sha cipher secret]
    by (simp add: opened_def [of _ _ "client_handshake _ _ _ _"]) (simp add: client_handshake_def opened_def)
  then show ?thesis using assms by (simp add: ctr_xor_drop ctr_xor_append)
qed

lemma client_handshake_opens:
  assumes "length plain = 64" "take 4 (drop 56 plain) = ProtoTag_to_bytes tag" "take 2 (drop 60 plain) = i16_to_le dc"
    and "- 32768 \<le> dc" "dc < 32768"
  shows "opens_as sha cipher (client_handshake sha cipher secret plain) secret tag' dc' \<longleftrightarrow> tag' = tag \<and> dc' = dc"
proof -
  let ?o = "opened sha cipher (client_handshake sha cipher secret plain) secret"
  have o: "drop 56 ?o = drop 56 plain" by (rule client_handshake_opened [OF assms(1)])
  have "drop 60 ?o = drop 4 (drop 56 ?o)" by simp
  also have "\<dots> = drop 60 plain" unfolding o by simp
  finally show ?thesis using assms o by (auto simp: opens_as_def)
qed

section \<open>The handler returns\<close>

lemma finish_total:
  assumes "check_and_add_handshake (w_lru W) (w_replay_hash W) (w_base W) (replay_now ck) (take 48 (drop 8 h)) rc = Some (b, rc')"
  shows "finish_mtproto W ck h reader writer peer cfg is_tls user v uid sh rc \<noteq> None"
  using assms by (simp add: finish_mtproto_def layout_defs Let_def)

lemma handler_total:
  assumes "check_and_add_handshake (w_lru W) (w_replay_hash W) (w_base W) (replay_now ck) (take 48 (drop 8 h)) rc = Some (b, rc')"
  shows "handle_mtproto_handshake W ck h reader writer peer cfg is_tls preferred sh rc \<noteq> None"
  unfolding handle_mtproto_handshake_def mtproto_with_snapshot_def mtproto_without_snapshot_def Let_def split_def
  by (simp add: finish_total [OF assms] del: not_None_eq split: option.split prod.split)

lemma finish_checker:
  assumes "finish_mtproto W ck h reader writer peer cfg is_tls user v uid sh rc = Some (res, sh', rc')"
  shows "rc' = rc \<or>
    (\<exists>b. check_and_add_handshake (w_lru W) (w_replay_hash W) (w_base W) (replay_now ck) (take 48 (drop 8 h)) rc = Some (b, rc'))"
  using assms by (auto simp: finish_mtproto_def layout_defs Let_def bind_eq_Some_conv split: if_splits prod.splits)

section \<open>A genuine handshake\<close>

lemma not_overloaded_after_throttle:
  assumes "auth_probe_should_apply_preauth_throttle p now sh = (thr, sh0)" "\<not> fst (auth_probe_saturation_is_throttled t sh)"
  shows "\<not> fst (auth_probe_saturation_is_throttled t sh0)"
proof -
  have "auth_probe_saturation sh0 = auth_probe_saturation sh \<or> auth_probe_saturation sh0 = None"
    using assms(1)
    by (auto simp: auth_probe_should_apply_preauth_throttle_def auth_probe_is_throttled_def Let_def
        auth_probe_saturation_is_throttled_def auth_probe_saturation_grace_exhausted_def split: option.splits if_splits)
  then show ?thesis using assms(2) by (auto simp: auth_probe_saturation_is_throttled_def split: option.splits if_splits)
qed

lemma search_finds:
  assumes "length (ua_entries snap) \<le> 2 ^ 32" "e \<in> set (ua_entries snap)" "validate (ua_secret e) = Some v"
    and "\<forall>e'\<in>set (ua_entries snap). validate (ua_secret e') \<noteq> None \<longrightarrow> e' = e"
  shows "\<exists>uid sc. mtproto_search snap validate (budget_for_validation (length (ua_entries snap)) False hint) h1 h2 h3 sh =
    (Some (uid, e, v), sc)"
proof -
  let ?n = "length (ua_entries snap)"
  have b: "budget_for_validation ?n False hint = ?n" by (simp add: budget_for_validation_def)
  obtain m sc where ms: "mtproto_search snap validate ?n h1 h2 h3 sh = (m, sc)" by fastforce
  obtain i where "i < ?n" "ua_entries snap ! i = e" using assms(2) by (auto simp: in_set_conv_nth)
  then have "\<not> failing snap validate {..<?n}" using assms(3) by (auto simp: failing_def)
  then obtain x where m: "m = Some x"
    using mtproto_search_complete [OF assms(1), of validate h1 h2 h3 sh] ms by fastforce
  obtain uid e' v' where x: "x = (uid, e', v')" by (cases x)
  have "match_ok snap validate m"
    using mtproto_search_sound [of snap validate ?n h1 h2 h3 sh] ms by (simp add: sound_def)
  then have "e' \<in> set (ua_entries snap)" "validate (ua_secret e') = Some v'"
    by (auto simp: m x match_ok_def entry_by_id_def idx_Some)
  then have "e' = e" "v' = v" using assms(3,4) by auto
  then show ?thesis using ms b m x by simp
qed

lemma finish_accepts:
  assumes "\<not> is_user_source_ip_denied (w_contains W) cfg user (fst peer)"
    and "check_and_add_handshake (w_lru W) (w_replay_hash W) (w_base W) (replay_now ck) (take 48 (drop 8 h)) rc = Some (False, rc')"
  shows "\<exists>sh'. finish_mtproto W ck h reader writer peer cfg is_tls user v uid sh rc =
    Some (Success (CryptoReader_new reader (mv_decryptor v), CryptoWriter_new writer (mv_encryptor v) (crypto_pending_buffer cfg),
      \<lparr>hs_user = user, hs_dc_idx = mv_dc_idx v, hs_proto_tag = mv_proto_tag v, hs_dec_key = mv_dec_key v,
       hs_dec_iv = mv_dec_iv v, hs_enc_key = mv_enc_key v, hs_enc_iv = mv_enc_iv v, hs_peer = peer, hs_is_tls = is_tls\<rparr>), sh', rc')"
  using assms by (simp add: finish_mtproto_def layout_defs Let_def)

lemma handler_accepts:
  assumes "runtime_user_auth cfg = Some snap" "length (ua_entries snap) \<le> 2 ^ 32" "e \<in> set (ua_entries snap)"
    and v: "validates (w_sha W) (w_cipher W) cfg is_tls h (ua_secret e) = Some v"
    and "\<forall>e'\<in>set (ua_entries snap). validates (w_sha W) (w_cipher W) cfg is_tls h (ua_secret e') \<noteq> None \<longrightarrow> e' = e"
    and nt: "\<not> fst (auth_probe_should_apply_preauth_throttle (fst peer) (throttle_now ck) sh)"
    and no: "\<not> fst (auth_probe_saturation_is_throttled (overload_now ck) sh)"
    and "\<not> is_user_source_ip_denied (w_contains W) cfg (ua_user e) (fst peer)"
    and "check_and_add_handshake (w_lru W) (w_replay_hash W) (w_base W) (replay_now ck) (take 48 (drop 8 h)) rc = Some (False, rc')"
  shows "\<exists>sh'. handle_mtproto_handshake W ck h reader writer peer cfg is_tls preferred sh rc =
    Some (Success (CryptoReader_new reader (mv_decryptor v), CryptoWriter_new writer (mv_encryptor v) (crypto_pending_buffer cfg),
      \<lparr>hs_user = ua_user e, hs_dc_idx = mv_dc_idx v, hs_proto_tag = mv_proto_tag v, hs_dec_key = mv_dec_key v,
       hs_dec_iv = mv_dec_iv v, hs_enc_key = mv_enc_key v, hs_enc_iv = mv_enc_iv v, hs_peer = peer, hs_is_tls = is_tls\<rparr>), sh', rc')"
proof -
  obtain sh0 where t: "auth_probe_should_apply_preauth_throttle (fst peer) (throttle_now ck) sh = (False, sh0)"
    using nt by (metis prod.collapse)
  obtain sh1 where o: "auth_probe_saturation_is_throttled (overload_now ck) sh0 = (False, sh1)"
    using not_overloaded_after_throttle [OF t no] by (metis prod.collapse)
  let ?val = "validates (w_sha W) (w_cipher W) cfg is_tls h"
  define hip where "hip = sticky_hint_get_by_ip sh0 (fst peer)"
  define hpre where "hpre = sticky_hint_get_by_ip_prefix sh0 (fst peer)"
  define pid where "pid = Option.bind preferred (user_id_by_name snap)"
  obtain uid sc where s: "mtproto_search snap ?val
      (budget_for_validation (length (ua_entries snap)) False (hip \<noteq> None \<or> hpre \<noteq> None \<or> pid \<noteq> None)) hip pid hpre sh1 =
      (Some (uid, e, v), sc)"
    using search_finds [OF assms(2,3,4,5)] by metis
  have "handle_mtproto_handshake W ck h reader writer peer cfg is_tls preferred sh rc =
      mtproto_with_snapshot W ck h reader writer peer cfg is_tls preferred ?val snap sh0 rc"
    using assms(1) by (simp add: handle_mtproto_handshake_def t split_def Let_def)
  also have "\<exists>sh2. \<dots> = finish_mtproto W ck h reader writer peer cfg is_tls (ua_user e) v (Some uid) sh2 rc"
    unfolding mtproto_with_snapshot_def hip_def [symmetric] hpre_def [symmetric] pid_def [symmetric] o Let_def prod.case s option.case
    by blast
  finally show ?thesis using finish_accepts [OF assms(8,9)] by metis
qed

section \<open>The handler and the replay checker\<close>

lemma handshake_check:
  assumes "lru_laws ops" "refines_spec ops hasher cap w rc r" "0 < w" "base \<le> now - int (max w MIN_TLS_REPLAY_WINDOW)"
  shows "\<exists>rc'. check_and_add_handshake ops hasher base now k rc = Some (spec_find w now k (hasher k AND 63) (hs_logs r), rc') \<and>
    refines_spec ops hasher cap w rc' (snd (spec_step hasher cap w (max w MIN_TLS_REPLAY_WINDOW) now (Op_handshake k) r))"
  using replay_step_refines [OF assms, of "Op_handshake k"] by simp

lemma success_checked:
  assumes "handle_mtproto_handshake W ck h reader writer peer cfg is_tls preferred sh rc = Some (Success x, sh', rc')"
  shows "check_and_add_handshake (w_lru W) (w_replay_hash W) (w_base W) (replay_now ck) (take 48 (drop 8 h)) rc = Some (False, rc')"
  using assms
proof (cases rule: handler_cases)
  case (found sh1 user secret v uid)
  obtain rd wr info where "x = (rd, wr, info)" by (cases x)
  then show ?thesis using finish_success(2) found(5) by metis
qed simp_all

text \<open>An accepted key is answered as a replay after any other operations that do not push it out.\<close>

lemma accepted_key_replayed:
  fixes r :: replay_spec
  assumes "lru_laws ops" "refines_spec ops hasher cap w rc r" "0 < w"
    and "\<forall>(now, op)\<in>set ((t, Op_handshake k) # mid @ [(t', Op_handshake k)]). base \<le> now - int (max w MIN_TLS_REPLAY_WINDOW)"
    and "check_and_add_handshake ops hasher base t k rc = Some (False, rc1)"
    and "replay_run ops hasher base mid rc1 = Some (answers, rc2)" "card (rivals hasher Handshake_keys k mid) < cap"
    and "\<forall>(now, op)\<in>set mid. now \<le> t + int w" "t' \<le> t + int w"
  shows "\<exists>rc3. check_and_add_handshake ops hasher base t' k rc2 = Some (True, rc3)"
proof -
  let ?tw = "max w MIN_TLS_REPLAY_WINDOW" and ?b = "hasher k AND 63"
  let ?r1 = "snd (spec_step hasher cap w ?tw t (Op_handshake k) r)"
  let ?r2 = "snd (spec_run hasher cap w ?tw mid ?r1)"
  have b: "base \<le> t - int ?tw" "base \<le> t' - int ?tw" "\<forall>(now, op)\<in>set mid. base \<le> now - int ?tw"
    using assms(4) by auto
  have r1: "refines_spec ops hasher cap w rc1 ?r1" and new: "\<not> spec_find w t k ?b (hs_logs r)"
    using handshake_check [OF assms(1-3) b(1), of k] assms(5) by auto
  have r2: "refines_spec ops hasher cap w rc2 ?r2"
    using replay_run_refines [OF assms(1) r1 assms(3) b(3)] assms(6) by auto
  have "known_key hasher w Handshake_keys t' k ?r2"
    by (rule spec_added_known [where hasher = hasher]) (use new assms(7-9) in simp_all)
  then show ?thesis
    using handshake_check [OF assms(1) r2 assms(3) b(2), of k] by auto
qed

lemma handler_result:
  assumes "handle_mtproto_handshake W ck h reader writer peer cfg is_tls preferred sh rc = Some (res, sh', rc')"
  shows "(\<exists>x. res = Success x) \<or> res = BadClient reader writer"
  using assms by (cases rule: handler_cases) (auto dest: finish_other)

lemma replay_rejected:
  assumes "check_and_add_handshake (w_lru W) (w_replay_hash W) (w_base W) (replay_now ck) (take 48 (drop 8 h)) rc = Some (True, rc')"
  shows "\<exists>sh1 rc1. handle_mtproto_handshake W ck h reader writer peer cfg is_tls preferred sh rc = Some (BadClient reader writer, sh1, rc1)"
proof -
  obtain res sh1 rc1 where r: "handle_mtproto_handshake W ck h reader writer peer cfg is_tls preferred sh rc = Some (res, sh1, rc1)"
    using handler_total [OF assms, of reader writer peer cfg is_tls preferred sh] by auto
  have "res \<noteq> Success x" for x
    using success_checked [of W ck h reader writer peer cfg is_tls preferred sh rc x sh1 rc1] r assms by auto
  then show ?thesis using handler_result [OF r] r by auto
qed

lemma genuine_validates:
  assumes "length plain = 64" "take 4 (drop 56 plain) = ProtoTag_to_bytes tag" "take 2 (drop 60 plain) = i16_to_le dc"
    and "- 32768 \<le> dc" "dc < 32768" "mode_enabled_for_proto cfg tag is_tls"
  shows "\<exists>v. validates sha cipher cfg is_tls (client_handshake sha cipher secret plain) secret = Some v \<and>
    mv_proto_tag v = tag \<and> mv_dc_idx v = dc \<and> mv_decryptor v = client_stream sha cipher plain secret 64 \<and>
    mv_encryptor v = server_stream sha cipher plain secret"
proof -
  note k = client_handshake_keys [OF assms(1), of sha cipher secret]
  show ?thesis
    using validates_spec [OF k(1), of sha cipher cfg is_tls secret] client_handshake_opens [OF assms(1-5), of sha cipher secret] assms(6) k
    by (fastforce simp: client_stream_def server_stream_def)
qed

section \<open>A concrete handshake\<close>

text \<open>One user, a cipher with a constant key stream, and a client that asks for data centre 2 in secure mode.\<close>

definition demo_world :: "(nat \<times> (bytes \<times> nat) list, nat) world" where
  "demo_world = \<lparr>w_probe = demo_env, w_lru = demo_lru, w_replay_hash = \<lambda>_. 7, w_base = 0, w_sip = \<lambda>_. 0,
    w_hexd = \<lambda>_. None, w_sha = \<lambda>_ _. 1, w_cipher = \<lambda>_ _ _. 5, w_contains = \<lambda>_ _. False\<rparr>"

definition demo_entry :: UserAuthEntry where
  "demo_entry = \<lparr>ua_user = [97], ua_secret = replicate 16 2\<rparr>"

definition demo_users :: UserAuthSnapshot where
  "demo_users = \<lparr>ua_entries = [demo_entry], by_name = [], sni_index = [], sni_initial_index = []\<rparr>"

definition demo_config :: "nat ProxyConfig" where
  "demo_config = \<lparr>modes_classic = False, modes_secure = True, modes_tls = True, crypto_pending_buffer = 1024,
    users = [], user_source_deny = [], ignore_time_skew = False, replay_window_secs = 3,
    runtime_user_auth = Some demo_users,
    tls_domain = [], tls_domains = [], tls_fingerprints = [], unknown_sni_action = Mask, fake_cert_len = 2048,
    tls_emulation = False, tls_new_session_tickets = 0, serverhello_compact = False, alpn_enforce = False, tls_full_cert_ttl_secs = 90\<rparr>"

definition demo_plain :: bytes where
  "demo_plain = replicate 56 9 @ [0xdd, 0xdd, 0xdd, 0xdd] @ [2, 0] @ [0, 0]"

definition demo_clock :: "instant \<Rightarrow> hs_clock" where
  "demo_clock t = \<lparr>throttle_now = t, overload_now = t, replay_now = t, failure_now = t\<rparr>"

definition demo_handshake :: bytes where
  "demo_handshake = client_handshake (w_sha demo_world) (w_cipher demo_world) (ua_secret demo_entry) demo_plain"

lemmas demo_defs = demo_world_def demo_config_def demo_entry_def demo_clock_def

lemma demo_plain_facts:
  "length demo_plain = 64" "take 4 (drop 56 demo_plain) = ProtoTag_to_bytes Secure" "take 2 (drop 60 demo_plain) = i16_to_le 2"
  by (simp_all add: demo_plain_def ProtoTag_to_bytes_def i16_to_le_def nat_le_2 nat_le_4)

lemma demo_checker:
  "refines_spec (w_lru demo_world) (w_replay_hash demo_world) 4 3 (ReplayChecker_new (w_lru demo_world) 256 3) spec_empty"
  using new_checker_refines [OF demo_lru_laws, of "w_replay_hash demo_world" 256 3] by (simp add: demo_world_def)

lemma demo_quiet:
  "\<not> fst (auth_probe_should_apply_preauth_throttle p t HandshakeSharedState_new)"
  "\<not> fst (auth_probe_saturation_is_throttled t HandshakeSharedState_new)"
  by (simp_all add: auth_probe_should_apply_preauth_throttle_def auth_probe_is_throttled_def Let_def
      auth_probe_saturation_is_throttled_def HandshakeSharedState_new_def)

lemma demo_config_facts:
  "runtime_user_auth demo_config = Some demo_users" "length (ua_entries demo_users) \<le> 2 ^ 32"
  "demo_entry \<in> set (ua_entries demo_users)" "mode_enabled_for_proto demo_config Secure False"
  "\<not> is_user_source_ip_denied (w_contains demo_world) demo_config (ua_user demo_entry) p"
  by (simp_all add: demo_config_def demo_users_def is_user_source_ip_denied_def)

lemma demo_world_facts:
  "lru_laws (w_lru demo_world)" "w_base demo_world \<le> replay_now (demo_clock 200000000000) - int (max 3 MIN_TLS_REPLAY_WINDOW)"
  "\<not> spec_find 3 t k (w_replay_hash demo_world k AND 63) (hs_logs spec_empty)"
  by (simp_all add: demo_world_def demo_clock_def demo_lru_laws MIN_TLS_REPLAY_WINDOW_def spec_find_def spec_empty_def
      log_has_def log_live_def)

lemma demo_handshake_length: "length demo_handshake = 64"
  unfolding demo_handshake_def by (rule client_handshake_keys(1) [OF demo_plain_facts(1)])

lemma demo_accepted:
  "\<exists>x sh' rc'. handle_mtproto_handshake demo_world (demo_clock 200000000000) demo_handshake (1::nat) (2::nat)
    (V4 [10, 0, 0, 1], 99) demo_config False None HandshakeSharedState_new (ReplayChecker_new (w_lru demo_world) 256 3) =
    Some (Success x, sh', rc')"
proof -
  obtain v where v: "validates (w_sha demo_world) (w_cipher demo_world) demo_config False demo_handshake (ua_secret demo_entry) = Some v"
    using genuine_validates [OF demo_plain_facts _ _ demo_config_facts(4), of "w_sha demo_world" "w_cipher demo_world" "ua_secret demo_entry"]
    by (auto simp: demo_handshake_def)
  obtain rc' where c: "check_and_add_handshake (w_lru demo_world) (w_replay_hash demo_world) (w_base demo_world)
      (replay_now (demo_clock 200000000000)) (take 48 (drop 8 demo_handshake)) (ReplayChecker_new (w_lru demo_world) 256 3) = Some (False, rc')"
    using handshake_check [OF demo_world_facts(1) demo_checker _ demo_world_facts(2), of "take 48 (drop 8 demo_handshake)"] demo_world_facts(3) by auto
  have "\<forall>e'\<in>set (ua_entries demo_users). validates (w_sha demo_world) (w_cipher demo_world) demo_config False demo_handshake (ua_secret e') \<noteq> None \<longrightarrow>
      e' = demo_entry"
    by (simp add: demo_users_def)
  from handler_accepts [OF demo_config_facts(1-3) v this demo_quiet demo_config_facts(5) c,
      where peer = "(V4 [10, 0, 0, 1], 99)" and reader = "1::nat" and writer = "2::nat" and preferred = None]
  show ?thesis by blast
qed

section \<open>Properties\<close>

text \<open>C3.
  What an accepted MTProto handshake proves, and what a rejected one costs.  On success the reported
  user has a configured secret under which the 64 bytes carry exactly the reported protocol tag and
  data centre, that tag is enabled for the transport, the client's address is not denied to the
  user, the reader decrypts with the client's key stream from position 64 on, the writer encrypts
  with the key stream of the reversed key material from its start, and the failures of the client
  are forgotten.  Otherwise reader and writer are handed back untouched, and either the client was
  being throttled or its failure is on record.  The table of failures stays well formed.
\<close>

theorem mtproto_handshake_sound:
  assumes "length h = 64" "env_ok (w_probe W)" "probe_inv sh"
    and "handle_mtproto_handshake W ck h reader writer peer cfg is_tls preferred sh rc = Some (res, sh', rc')"
  defines "k \<equiv> normalize_auth_probe_ip (fst peer)"
  shows "probe_inv sh' \<and>
    (case res of
       Success (rd, wr, info) \<Rightarrow>
         (\<exists>secret. configured (w_hexd W) cfg (hs_user info) secret \<and>
           opens_as (w_sha W) (w_cipher W) h secret (hs_proto_tag info) (hs_dc_idx info) \<and>
           rd = CryptoReader_new reader (client_stream (w_sha W) (w_cipher W) h secret 64) \<and>
           wr = CryptoWriter_new writer (server_stream (w_sha W) (w_cipher W) h secret) (crypto_pending_buffer cfg)) \<and>
         mode_enabled_for_proto cfg (hs_proto_tag info) is_tls \<and>
         \<not> is_user_source_ip_denied (w_contains W) cfg (hs_user info) (fst peer) \<and>
         map_of (auth_probe sh') k = None
     | BadClient rd wr \<Rightarrow> rd = reader \<and> wr = writer \<and>
         (fst (auth_probe_should_apply_preauth_throttle (fst peer) (throttle_now ck) sh) \<or>
          map_of (auth_probe sh') k =
            Some (probe_after (failure_now ck) (map_of (drop_expired k (throttle_now ck) (auth_probe sh)) k)))
     | HandshakeError _ \<Rightarrow> False)"
proof -
  have inv: "probe_inv s" if "auth_probe s = drop_expired k (throttle_now ck) (auth_probe sh)" for s
    using that assms(3) drop_expired_props(1,2) [where l = "auth_probe sh" and k = k and now = "throttle_now ck"]
      entries_ok_drop [of "auth_probe sh" k "throttle_now ck"]
    by (auto simp: probe_inv_def)
  have failed: "probe_inv (auth_probe_record_failure (w_probe W) (fst peer) (failure_now ck) s) \<and>
      map_of (auth_probe (auth_probe_record_failure (w_probe W) (fst peer) (failure_now ck) s)) k =
      Some (probe_after (failure_now ck) (map_of (drop_expired k (throttle_now ck) (auth_probe sh)) k))"
    if "auth_probe s = drop_expired k (throttle_now ck) (auth_probe sh)" for s
    using record_failure_spec(1,2) [OF assms(2) inv [OF that]] that by (simp add: k_def)
  from assms(4) show ?thesis
  proof (cases rule: handler_cases)
    case throttled
    then show ?thesis using inv by (simp add: k_def)
  next
    case (nobody sh1)
    then show ?thesis using failed [of sh1] by (simp add: k_def)
  next
    case (found sh1 user secret v uid)
    have sh1: "auth_probe sh1 = drop_expired k (throttle_now ck) (auth_probe sh)" using found(2) by (simp add: k_def)
    from finish_other [OF found(5)] show ?thesis
    proof (elim disjE exE conjE)
      fix x assume res: "res = Success x"
      obtain rd wr info where x: "x = (rd, wr, info)" by (cases x)
      note f = finish_success [OF found(5) [unfolded res x]]
      have d: "auth_probe sh' = AList.delete k (auth_probe sh1)"
        using finish_success_probe [OF found(5) [unfolded res]] by (simp add: k_def)
      have "probe_inv sh'"
        using inv [OF sh1] length_delete_le [of k "auth_probe sh1"] entries_ok_mono [of "auth_probe sh1" "AList.delete k (auth_probe sh1)"]
        by (auto simp: probe_inv_def d distinct_delete alist_simps)
      then show ?thesis
        using f found(3) validates_spec [OF assms(1), of "w_sha W" "w_cipher W" cfg is_tls secret v] found(4) d
        by (auto simp: res x alist_simps)
    next
      assume "res = BadClient reader writer" "sh' = auth_probe_record_failure (w_probe W) (fst peer) (failure_now ck) sh1"
      then show ?thesis using failed [OF sh1] by simp
    qed
  qed
qed

theorem mtproto_handshake_sound_witness:
  "\<exists>x sh' rc'. handle_mtproto_handshake demo_world (demo_clock 200000000000) demo_handshake (1::nat) (2::nat)
      (V4 [10, 0, 0, 1], 99) demo_config False None HandshakeSharedState_new (ReplayChecker_new (w_lru demo_world) 256 3) =
      Some (Success x, sh', rc') \<and>
    (\<exists>secret. configured (w_hexd demo_world) demo_config (hs_user (snd (snd x))) secret \<and>
      opens_as (w_sha demo_world) (w_cipher demo_world) demo_handshake secret (hs_proto_tag (snd (snd x))) (hs_dc_idx (snd (snd x))))"
proof -
  obtain x sh' rc' where s: "handle_mtproto_handshake demo_world (demo_clock 200000000000) demo_handshake (1::nat) (2::nat)
      (V4 [10, 0, 0, 1], 99) demo_config False None HandshakeSharedState_new (ReplayChecker_new (w_lru demo_world) 256 3) =
      Some (Success x, sh', rc')"
    using demo_accepted by blast
  have "env_ok (w_probe demo_world)" by (simp add: demo_world_def demo_env_ok)
  from mtproto_handshake_sound [OF demo_handshake_length this fresh_state_inv s] show ?thesis
    using s by (cases x) auto
qed

text \<open>C4.
  A genuine client gets in.  Let a client build its 64 bytes for a configured user, with an enabled
  protocol tag and any data centre, and let the other secrets not happen to open them.  If the
  client is not throttled, the proxy not overloaded, the address not denied to that user and the key
  material not in the replay window, then the handshake succeeds whatever hints the proxy has, with
  this user, tag and data centre, and the two streams run on the key streams that the client
  derives from what it drew.
\<close>

theorem genuine_handshake_accepted:
  fixes r :: replay_spec
  assumes "runtime_user_auth cfg = Some snap" "length (ua_entries snap) \<le> 2 ^ 32" "e \<in> set (ua_entries snap)"
    and "length plain = 64" "take 4 (drop 56 plain) = ProtoTag_to_bytes tag" "take 2 (drop 60 plain) = i16_to_le dc"
    and "- 32768 \<le> dc" "dc < 32768" "mode_enabled_for_proto cfg tag is_tls"
    and "h = client_handshake (w_sha W) (w_cipher W) (ua_secret e) plain"
    and "\<forall>e'\<in>set (ua_entries snap). e' \<noteq> e \<longrightarrow>
      \<not> (\<exists>tag' dc'. opens_as (w_sha W) (w_cipher W) h (ua_secret e') tag' dc' \<and> mode_enabled_for_proto cfg tag' is_tls)"
    and "\<not> fst (auth_probe_should_apply_preauth_throttle (fst peer) (throttle_now ck) sh)"
    and "\<not> fst (auth_probe_saturation_is_throttled (overload_now ck) sh)"
    and "\<not> is_user_source_ip_denied (w_contains W) cfg (ua_user e) (fst peer)"
    and "lru_laws (w_lru W)" "refines_spec (w_lru W) (w_replay_hash W) cap w rc r" "0 < w"
    and "w_base W \<le> replay_now ck - int (max w MIN_TLS_REPLAY_WINDOW)"
    and "\<not> spec_find w (replay_now ck) (take 48 (drop 8 plain)) (w_replay_hash W (take 48 (drop 8 plain)) AND 63) (hs_logs r)"
  shows "\<exists>info sh' rc'. handle_mtproto_handshake W ck h reader writer peer cfg is_tls preferred sh rc =
      Some (Success (CryptoReader_new reader (client_stream (w_sha W) (w_cipher W) plain (ua_secret e) 64),
        CryptoWriter_new writer (server_stream (w_sha W) (w_cipher W) plain (ua_secret e)) (crypto_pending_buffer cfg), info), sh', rc') \<and>
    hs_user info = ua_user e \<and> hs_proto_tag info = tag \<and> hs_dc_idx info = dc"
proof -
  have h: "length h = 64" "take 48 (drop 8 h) = take 48 (drop 8 plain)"
    using client_handshake_keys [OF assms(4)] by (simp_all add: assms(10))
  obtain v where v: "validates (w_sha W) (w_cipher W) cfg is_tls h (ua_secret e) = Some v" "mv_proto_tag v = tag" "mv_dc_idx v = dc"
      "mv_decryptor v = client_stream (w_sha W) (w_cipher W) plain (ua_secret e) 64"
      "mv_encryptor v = server_stream (w_sha W) (w_cipher W) plain (ua_secret e)"
    using genuine_validates [OF assms(4-9), of "w_sha W" "w_cipher W" "ua_secret e"] by (auto simp: assms(10))
  have only: "\<forall>e'\<in>set (ua_entries snap). validates (w_sha W) (w_cipher W) cfg is_tls h (ua_secret e') \<noteq> None \<longrightarrow> e' = e"
  proof (intro ballI impI)
    fix e' assume e': "e' \<in> set (ua_entries snap)" "validates (w_sha W) (w_cipher W) cfg is_tls h (ua_secret e') \<noteq> None"
    then obtain v' where "validates (w_sha W) (w_cipher W) cfg is_tls h (ua_secret e') = Some v'" by blast
    then show "e' = e" using e'(1) assms(11) unfolding validates_spec [OF h(1)] by blast
  qed
  obtain rc' where "check_and_add_handshake (w_lru W) (w_replay_hash W) (w_base W) (replay_now ck) (take 48 (drop 8 h)) rc = Some (False, rc')"
    using handshake_check [OF assms(15-18), of "take 48 (drop 8 plain)"] assms(19) by (auto simp: h(2))
  from handler_accepts [OF assms(1-3) v(1) only assms(12-14) this, of reader writer preferred]
  show ?thesis using v by auto
qed

text \<open>C5.
  An accepted handshake cannot be used again.  After a success, any later handshake that carries the
  same key material, from whatever client, with whatever tag, transport and configuration, is
  turned away with its streams handed back, as long as the replay window has not passed and fewer
  different other keys than a shard holds were added to the shard of this key in between, whatever
  other operations there were.
\<close>

theorem accepted_handshake_not_replayable:
  fixes W :: "('c, 'n) world" and cfg cfg' :: "'n ProxyConfig" and r :: replay_spec
  assumes "lru_laws (w_lru W)" "refines_spec (w_lru W) (w_replay_hash W) cap w rc r" "0 < w"
    and "\<forall>now\<in>{replay_now ck, replay_now ck'} \<union> fst ` set mid. w_base W \<le> now - int (max w MIN_TLS_REPLAY_WINDOW)"
    and "handle_mtproto_handshake W ck h reader writer peer cfg is_tls preferred sh rc = Some (Success x, sh1, rc1)"
    and "replay_run (w_lru W) (w_replay_hash W) (w_base W) mid rc1 = Some (answers, rc2)"
    and "card (rivals (w_replay_hash W) Handshake_keys (take 48 (drop 8 h)) mid) < cap"
    and "\<forall>now\<in>{replay_now ck'} \<union> fst ` set mid. now \<le> replay_now ck + int w"
    and "take 48 (drop 8 h') = take 48 (drop 8 h)"
  shows "\<exists>sh3 rc3. handle_mtproto_handshake W ck' h' reader' writer' peer' cfg' is_tls' preferred' sh2 rc2 =
    Some (BadClient reader' writer', sh3, rc3)"
proof -
  note c = success_checked [OF assms(5)]
  have "\<exists>rc3. check_and_add_handshake (w_lru W) (w_replay_hash W) (w_base W) (replay_now ck') (take 48 (drop 8 h)) rc2 = Some (True, rc3)"
    by (rule accepted_key_replayed [OF assms(1-3) _ c assms(6,7)]) (use assms(4,8) in \<open>auto simp: split_def\<close>)
  then obtain rc3 where "check_and_add_handshake (w_lru W) (w_replay_hash W) (w_base W) (replay_now ck') (take 48 (drop 8 h')) rc2 = Some (True, rc3)"
    unfolding assms(9) by blast
  then show ?thesis by (rule replay_rejected)
qed

theorem genuine_handshake_accepted_witness:
  "\<exists>info sh' rc'. handle_mtproto_handshake demo_world (demo_clock 200000000000) demo_handshake (1::nat) (2::nat)
      (V4 [10, 0, 0, 1], 99) demo_config False None HandshakeSharedState_new (ReplayChecker_new (w_lru demo_world) 256 3) =
      Some (Success (CryptoReader_new 1 (client_stream (w_sha demo_world) (w_cipher demo_world) demo_plain (ua_secret demo_entry) 64),
        CryptoWriter_new 2 (server_stream (w_sha demo_world) (w_cipher demo_world) demo_plain (ua_secret demo_entry))
          (crypto_pending_buffer demo_config), info), sh', rc') \<and>
    hs_user info = ua_user demo_entry \<and> hs_proto_tag info = Secure \<and> hs_dc_idx info = 2"
proof -
  have only: "\<forall>e'\<in>set (ua_entries demo_users). e' \<noteq> demo_entry \<longrightarrow>
      \<not> (\<exists>tag' dc'. opens_as (w_sha demo_world) (w_cipher demo_world) demo_handshake (ua_secret e') tag' dc' \<and>
        mode_enabled_for_proto demo_config tag' False)"
    by (simp add: demo_users_def)
  show ?thesis
    by (rule genuine_handshake_accepted [OF demo_config_facts(1-3) demo_plain_facts _ _ demo_config_facts(4) demo_handshake_def only
          demo_quiet demo_config_facts(5) demo_world_facts(1) demo_checker _ demo_world_facts(2,3)]) simp_all
qed

theorem accepted_handshake_not_replayable_witness:
  "\<exists>x sh1 rc1 sh3 rc3.
    handle_mtproto_handshake demo_world (demo_clock 200000000000) demo_handshake (1::nat) (2::nat)
      (V4 [10, 0, 0, 1], 99) demo_config False None HandshakeSharedState_new (ReplayChecker_new (w_lru demo_world) 256 3) =
      Some (Success x, sh1, rc1) \<and>
    handle_mtproto_handshake demo_world (demo_clock 200000000003) demo_handshake (3::nat) (4::nat)
      (V4 [10, 9, 9, 9], 77) demo_config True None HandshakeSharedState_new rc1 = Some (BadClient 3 4, sh3, rc3)"
proof -
  obtain x sh1 rc1 where s: "handle_mtproto_handshake demo_world (demo_clock 200000000000) demo_handshake (1::nat) (2::nat)
      (V4 [10, 0, 0, 1], 99) demo_config False None HandshakeSharedState_new (ReplayChecker_new (w_lru demo_world) 256 3) =
      Some (Success x, sh1, rc1)"
    using demo_accepted by blast
  have "\<exists>sh3 rc3. handle_mtproto_handshake demo_world (demo_clock 200000000003) demo_handshake (3::nat) (4::nat)
      (V4 [10, 9, 9, 9], 77) demo_config True None HandshakeSharedState_new rc1 = Some (BadClient 3 4, sh3, rc3)"
    by (rule accepted_handshake_not_replayable [OF demo_world_facts(1) demo_checker _ _ s replay_run.simps(1)])
       (simp_all add: demo_clock_def demo_world_def MIN_TLS_REPLAY_WINDOW_def rivals_def keys_added_def)
  then show ?thesis using s by blast
qed

end
