(* ===== verification/Nonce_Props.thy ===== *)
theory Nonce_Props
  imports Mtproto_Claims
begin

text \<open>
  The nonce that opens a direct connection to Telegram (\<open>src/proxy/handshake/nonce.rs\<close>): what the
  receiver reads off it, and that both ends then run on the same key streams.
\<close>

section \<open>The receiver\<close>

text \<open>The receiver takes key and initial vector from the 64 bytes themselves, without a secret.\<close>

definition upstream_stream :: "(bytes \<Rightarrow> bytes \<Rightarrow> nat \<Rightarrow> byte) \<Rightarrow> bytes \<Rightarrow> nat \<Rightarrow> byte" where
  "upstream_stream cipher wire = cipher (take 32 (drop 8 wire)) (take 16 (drop 40 wire))"

definition upstream_reply :: "(bytes \<Rightarrow> bytes \<Rightarrow> nat \<Rightarrow> byte) \<Rightarrow> bytes \<Rightarrow> nat \<Rightarrow> byte" where
  "upstream_reply cipher wire = (let r = rev (take 48 (drop 8 wire)) in cipher (take 32 r) (drop 32 r))"

definition upstream_opened :: "(bytes \<Rightarrow> bytes \<Rightarrow> nat \<Rightarrow> byte) \<Rightarrow> bytes \<Rightarrow> bytes" where
  "upstream_opened cipher wire = ctr_xor (upstream_stream cipher wire) 0 wire"

lemma encrypt_tg_nonce_spec:
  assumes "length nonce = 64" "encrypt_tg_nonce_with_ciphers cipher nonce = (wire, enc, dec)"
  shows "length wire = 64" "take 56 wire = take 56 nonce" "drop 56 (upstream_opened cipher wire) = drop 56 nonce"
    "enc = \<lparr>ctr_stream = upstream_stream cipher wire, ctr_pos = 64\<rparr>"
    "dec = \<lparr>ctr_stream = upstream_reply cipher wire, ctr_pos = 0\<rparr>"
    "take 48 (drop 8 wire) = take 48 (drop 8 nonce)"
proof -
  let ?s = "upstream_stream cipher nonce"
  have k: "take 32 (take 48 (drop 8 nonce)) = take 32 (drop 8 nonce)" "drop 32 (take 48 (drop 8 nonce)) = take 16 (drop 40 nonce)"
    by (simp_all add: drop_take)
  have iv: "length (take 16 (drop 40 nonce)) = 16" "length (drop 32 (rev (take 48 (drop 8 nonce)))) = 16"
    using assms(1) by simp_all
  have e: "wire = take 56 nonce @ drop 56 (ctr_xor ?s 0 nonce)" "enc = \<lparr>ctr_stream = ?s, ctr_pos = 64\<rparr>"
      "dec = \<lparr>ctr_stream = upstream_reply cipher nonce, ctr_pos = 0\<rparr>"
    using assms iv
    by (auto simp: encrypt_tg_nonce_with_ciphers_def layout_defs Let_def k ctr_encrypt_def ctr_apply_def ctr_new_iv
        upstream_stream_def upstream_reply_def Let_def)
  show w: "length wire = 64" "take 56 wire = take 56 nonce" "take 48 (drop 8 wire) = take 48 (drop 8 nonce)"
    using assms(1) by (simp_all add: e(1) drop_take min_def)
  have "take 32 (drop 8 wire) = take 32 (drop 8 nonce)" "take 16 (drop 40 wire) = take 16 (drop 40 nonce)"
    using assms(1) by (simp_all add: e(1) drop_take min_def)
  then have s: "upstream_stream cipher wire = ?s" "upstream_reply cipher wire = upstream_reply cipher nonce"
    using w(3) by (simp_all add: upstream_stream_def upstream_reply_def Let_def)
  then show "enc = \<lparr>ctr_stream = upstream_stream cipher wire, ctr_pos = 64\<rparr>"
    "dec = \<lparr>ctr_stream = upstream_reply cipher wire, ctr_pos = 0\<rparr>" using e by simp_all
  have "upstream_opened cipher wire = ctr_xor ?s 0 (take 56 nonce @ drop 56 (ctr_xor ?s 0 nonce))"
    unfolding upstream_opened_def s(1) by (simp only: e(1))
  then show "drop 56 (upstream_opened cipher wire) = drop 56 nonce"
    using assms(1) by (simp add: ctr_xor_drop ctr_xor_append)
qed

section \<open>The draw\<close>

text \<open>The \<open>i\<close>-th draw of 64 bytes.\<close>

fun tg_draw where
  "tg_draw ops 0 rng = fst (rng_bytes ops 64 rng)"
| "tg_draw ops (Suc i) rng = tg_draw ops i (snd (rng_bytes ops 64 rng))"

definition tg_nonce_ok :: "ProtoTag \<Rightarrow> int \<Rightarrow> bytes \<Rightarrow> nat \<Rightarrow> bool \<Rightarrow> tg_nonce \<Rightarrow> bool" where
  "tg_nonce_ok tag dc key iv fast n \<longleftrightarrow>
    length (tn_nonce n) = 64 \<and> \<not> tg_reserved (tn_nonce n) \<and>
    drop 56 (tn_nonce n) = ProtoTag_to_bytes tag @ i16_to_le dc @ drop 62 (tn_nonce n) \<and>
    tg_enc_key n = take 32 (drop 8 (tn_nonce n)) \<and> tg_enc_iv n = be_nat (take 16 (drop 40 (tn_nonce n))) \<and>
    tg_dec_key n = take 32 (rev (take 48 (drop 8 (tn_nonce n)))) \<and>
    tg_dec_iv n = be_nat (drop 32 (rev (take 48 (drop 8 (tn_nonce n))))) \<and>
    (fast \<longrightarrow> rev (take 48 (drop 8 (tn_nonce n))) = key @ nat_be 16 iv)"

lemma take_drop_rest: "take i (drop j xs) @ drop (j + i) xs = drop j xs"
  by (metis append_take_drop_id drop_drop add.commute)

lemma nonce_parts:
  assumes "length nonce = 64"
  obtains a b c d e where "nonce = a @ b @ c @ d @ e" "length a = 8" "length b = 48" "length c = 4" "length d = 2" "length e = 2"
proof
  show "nonce = take 8 nonce @ take 48 (drop 8 nonce) @ take 4 (drop 56 nonce) @ take 2 (drop 60 nonce) @ drop 62 nonce"
    using take_drop_rest [of 8 0 nonce] take_drop_rest [of 48 8 nonce] take_drop_rest [of 4 56 nonce] take_drop_rest [of 2 60 nonce]
    by simp
qed (use assms in simp_all)

lemma tg_reserved_prefix:
  assumes "take 8 x = take 8 y"
  shows "tg_reserved x = tg_reserved y"
proof -
  have "x ! i = y ! i" if "i < 8" for i using that assms by (metis nth_take)
  then show ?thesis by (simp add: tg_reserved_def)
qed

lemma finish_tg_nonce_ok:
  assumes "length nonce = 64" "\<not> tg_reserved nonce" "length key = 32"
  shows "\<exists>n. finish_tg_nonce tag dc key iv fast nonce = Some n \<and> tg_nonce_ok tag dc key iv fast n"
proof -
  obtain a b c d e where n: "nonce = a @ b @ c @ d @ e" and l: "length a = 8" "length b = 48" "length c = 4" "length d = 2" "length e = 2"
    using nonce_parts [OF assms(1)] by blast
  have lt: "length (ProtoTag_to_bytes tag) = 4" by (simp add: ProtoTag_to_bytes_def)
  define kiv where "kiv = rev (key @ nat_be 16 iv)"
  have lk: "length kiv = 48" using assms(3) by (simp add: kiv_def)
  define body where "body = (if fast then kiv else b)"
  have lb: "length body = 48" using l lk by (simp add: body_def)
  define m where "m = a @ body @ ProtoTag_to_bytes tag @ i16_to_le dc @ e"
  have m: "length m = 64" "take 48 (drop 8 m) = body" "take 32 (drop 8 m) = take 32 body" "take 16 (drop 40 m) = drop 32 body"
      "drop 56 m = ProtoTag_to_bytes tag @ i16_to_le dc @ e" "drop 62 m = e"
    using l lt lb by (simp_all add: m_def)
  have "finish_tg_nonce tag dc key iv fast nonce =
      Some \<lparr>tn_nonce = m, tg_enc_key = take 32 body, tg_enc_iv = be_nat (drop 32 body),
        tg_dec_key = take 32 (rev body), tg_dec_iv = be_nat (drop 32 (rev body))\<rparr>"
    unfolding finish_tg_nonce_def kiv_def [symmetric] Let_def
    using l lt lk by (cases fast) (simp_all add: layout_defs n body_def m_def)
  moreover have "\<not> tg_reserved m"
    using assms(2) tg_reserved_prefix [of m nonce] l(1) by (simp add: m_def n)
  moreover have "fast \<longrightarrow> rev body = key @ nat_be 16 iv" by (simp add: body_def kiv_def)
  ultimately show ?thesis using m by (simp add: tg_nonce_ok_def)
qed

lemma generate_returns:
  assumes "\<not> tg_reserved (tg_draw ops i rng)" "length key = 32"
  shows "\<exists>n rng'. generate_tg_nonce ops tag dc key iv fast rng = Some (n, rng') \<and> tg_nonce_ok tag dc key iv fast n"
  using assms(1)
proof (induction i arbitrary: rng)
  case 0
  obtain nonce rng' where b: "rng_bytes ops 64 rng = (nonce, rng')" by fastforce
  have "length nonce = 64" using length_rng_bytes [of ops 64 rng] b by simp
  then show ?case
    using finish_tg_nonce_ok [of nonce key tag dc iv fast] 0 b assms(2)
    by (subst generate_tg_nonce.simps) (auto simp: layout_defs)
next
  case (Suc i)
  obtain nonce rng' where b: "rng_bytes ops 64 rng = (nonce, rng')" by fastforce
  have l: "length nonce = 64" using length_rng_bytes [of ops 64 rng] b by simp
  show ?case
  proof (cases "tg_reserved nonce")
    case True
    then show ?thesis using Suc b by (subst generate_tg_nonce.simps) (simp add: layout_defs)
  next
    case False
    then show ?thesis
      using finish_tg_nonce_ok [of nonce key tag dc iv fast] l b assms(2)
      by (subst generate_tg_nonce.simps) (auto simp: layout_defs)
  qed
qed

section \<open>Property\<close>

text \<open>C40.
  Telegram understands the nonce.  As soon as the random source gives 64 bytes that do not look like
  another protocol, generating the nonce returns.  The receiver of what is sent, which takes the key
  from the bytes themselves, reads off the requested protocol tag and data centre; the bytes still
  look like no other protocol; the proxy's encryptor continues the receiver's key stream at
  position 64 and its decryptor starts the receiver's reply stream; both are the streams of the keys
  returned with the nonce.  In fast mode the reply stream is the client's own key stream, so that
  replies can be passed on without being encrypted again.
\<close>

theorem telegram_nonce_understood:
  assumes "\<not> tg_reserved (tg_draw ops i rng)" "length key = 32" "- 32768 \<le> dc" "dc < 32768"
  shows "\<exists>n rng' wire enc dec.
    generate_tg_nonce ops tag dc key iv fast rng = Some (n, rng') \<and>
    encrypt_tg_nonce_with_ciphers cipher (tn_nonce n) = (wire, enc, dec) \<and>
    length wire = 64 \<and> \<not> tg_reserved wire \<and>
    take 4 (drop 56 (upstream_opened cipher wire)) = ProtoTag_to_bytes tag \<and>
    i16_from_le (take 2 (drop 60 (upstream_opened cipher wire))) = dc \<and>
    enc = \<lparr>ctr_stream = upstream_stream cipher wire, ctr_pos = 64\<rparr> \<and>
    dec = \<lparr>ctr_stream = upstream_reply cipher wire, ctr_pos = 0\<rparr> \<and>
    AesCtr_new cipher (tg_enc_key n) (tg_enc_iv n) = enc\<lparr>ctr_pos := 0\<rparr> \<and>
    AesCtr_new cipher (tg_dec_key n) (tg_dec_iv n) = dec \<and>
    (fast \<longrightarrow> dec = AesCtr_new cipher key iv)"
proof -
  obtain n rng' where g: "generate_tg_nonce ops tag dc key iv fast rng = Some (n, rng')" and ok: "tg_nonce_ok tag dc key iv fast n"
    using generate_returns [OF assms(1,2)] by blast
  obtain wire enc dec where e: "encrypt_tg_nonce_with_ciphers cipher (tn_nonce n) = (wire, enc, dec)" by (metis prod_cases3)
  let ?m = "tn_nonce n" and ?o = "upstream_opened cipher wire"
  have l: "length ?m = 64" using ok by (simp add: tg_nonce_ok_def)
  note w = encrypt_tg_nonce_spec [OF l e]
  have "take 8 (take 56 wire) = take 8 (take 56 ?m)" using w(2) by simp
  then have res: "\<not> tg_reserved wire" using ok tg_reserved_prefix [of wire ?m] by (simp add: tg_nonce_ok_def)
  have o: "drop 56 ?o = ProtoTag_to_bytes tag @ i16_to_le dc @ drop 62 ?m" using w(3) ok by (simp add: tg_nonce_ok_def)
  have "drop 60 ?o = drop 4 (drop 56 ?o)" by simp
  then have o': "drop 60 ?o = i16_to_le dc @ drop 62 ?m" unfolding o by (simp add: ProtoTag_to_bytes_def)
  have iv: "length (take 16 (drop 40 ?m)) = 16" "length (drop 32 (rev (take 48 (drop 8 ?m)))) = 16" using l by simp_all
  have k: "take 32 (drop 8 wire) = take 32 (drop 8 ?m)" "take 16 (drop 40 wire) = take 16 (drop 40 ?m)"
    using arg_cong [OF w(6), of "take 32"] arg_cong [OF w(6), of "drop 32"] by (simp_all add: drop_take)
  have enc: "AesCtr_new cipher (tg_enc_key n) (tg_enc_iv n) = enc\<lparr>ctr_pos := 0\<rparr>"
    using ok iv(1) by (simp add: w(4) tg_nonce_ok_def ctr_new_iv upstream_stream_def k)
  have dec: "AesCtr_new cipher (tg_dec_key n) (tg_dec_iv n) = dec"
    using ok iv(2) by (simp add: w(5,6) tg_nonce_ok_def ctr_new_iv upstream_reply_def Let_def)
  have "fast \<longrightarrow> dec = AesCtr_new cipher key iv"
    using ok assms(2) by (simp add: w(5,6) tg_nonce_ok_def AesCtr_new_def upstream_reply_def Let_def)
  then show ?thesis
    using g e w(1,4,5) res o o' enc dec assms(3,4) by (auto simp: ProtoTag_to_bytes_def)
qed

text \<open>A source whose first 64 bytes are reserved and whose next ones are not.\<close>

definition late_ops :: "(unit, unit) rand_ops" where
  "late_ops = demo_ops\<lparr>fill_bytes := (\<lambda>n s. (\<lambda>i. if i < 64 then 0 else 7, s))\<rparr>"

lemma rng_bytes_buffered:
  assumes "0 < n" "st1 = refill_empty ops (drop_drained st)" "sr_start st1 + n < length (sr_buffer st1)"
  shows "rng_bytes ops n st = (take n (drop (sr_start st1) (sr_buffer st1)), st1\<lparr>sr_start := sr_start st1 + n\<rparr>)"
proof -
  have a: "min n (sr_available st1) = n" "drop_drained (st1\<lparr>sr_start := sr_start st1 + n\<rparr>) = st1\<lparr>sr_start := sr_start st1 + n\<rparr>"
    using assms(3) by (simp_all add: sr_available_def drop_drained_def)
  show ?thesis
    unfolding rng_bytes_def fill.simps [of ops n st] assms(2) [symmetric] Let_def a
    using assms(1) by (simp add: fill.simps [of ops 0])
qed

lemma late_draw: "\<not> tg_reserved (tg_draw late_ops 1 demo_rng)"
proof -
  define B :: bytes where "B = map (\<lambda>i. if i < 64 then 0 else 7) [0..<512]"
  have "refill_empty late_ops (drop_drained demo_rng) = demo_rng\<lparr>sr_buffer := B, sr_start := 0\<rparr>"
    by (simp add: refill_empty_def drop_drained_def demo_rng_def late_ops_def demo_ops_def CHUNK_SIZE_def B_def cong: map_cong)
  then have d0: "snd (rng_bytes late_ops 64 demo_rng) = demo_rng\<lparr>sr_buffer := B, sr_start := 64\<rparr>"
    by (subst rng_bytes_buffered) (auto simp: B_def)
  have "refill_empty late_ops (drop_drained (demo_rng\<lparr>sr_buffer := B, sr_start := 64\<rparr>)) = demo_rng\<lparr>sr_buffer := B, sr_start := 64\<rparr>"
    by (simp add: refill_empty_def drop_drained_def B_def)
  then have "tg_draw late_ops 1 demo_rng = take 64 (drop 64 B)"
    by (simp add: d0) (subst rng_bytes_buffered, auto simp: B_def)
  moreover have "take 64 (drop 64 B) ! i = 7" if "i < 64" for i using that by (simp add: B_def)
  ultimately show ?thesis
    by (simp add: tg_reserved_def RESERVED_NONCE_FIRST_BYTES_def RESERVED_NONCE_BEGINNINGS_def RESERVED_NONCE_CONTINUES_def del: nth_take)
qed

theorem telegram_nonce_understood_witness:
  "\<exists>n rng' wire enc dec.
    generate_tg_nonce late_ops Secure (- 2) (replicate 32 3) 4 True demo_rng = Some (n, rng') \<and>
    encrypt_tg_nonce_with_ciphers (\<lambda>key iv i. hd key + hd iv) (tn_nonce n) = (wire, enc, dec) \<and>
    take 4 (drop 56 (upstream_opened (\<lambda>key iv i. hd key + hd iv) wire)) = ProtoTag_to_bytes Secure \<and>
    i16_from_le (take 2 (drop 60 (upstream_opened (\<lambda>key iv i. hd key + hd iv) wire))) = - 2 \<and>
    dec = AesCtr_new (\<lambda>key iv i. hd key + hd iv) (replicate 32 3) 4"
  using telegram_nonce_understood [OF late_draw, of "replicate 32 3" "- 2" Secure 4 True "\<lambda>key iv i. hd key + hd iv"]
  by force

end
