(* ===== verification/Tls_Front.thy ===== *)
theory Tls_Front
  imports Tls_Parse Std_Net Replay_Checker "HOL-Library.AList"
begin

text \<open>
  The FakeTLS front: what is remembered of a real site (\<open>src/tls_front/types.rs\<close>), the cache of it
  with the budget of full certificates per address (\<open>src/tls_front/cache.rs\<close>), and the response
  that imitates the site (\<open>src/tls_front/emulator.rs\<close>).

  CRC-32 (\<open>crc32fast\<close>) is code outside the repository: \<open>crc d\<close> is the checksum of \<open>d\<close>, and feeding
  it piecewise is feeding the concatenation.  The default hash of an address is the parameter
  \<open>ip_hash\<close>.  A sum of \<open>usize\<close> values wraps.  The time an entry was fetched and the copies
  on disk are left out.
\<close>

section \<open>Profiles (\<open>types.rs\<close>)\<close>

record TlsExtension =
  ext_type :: nat
  ext_data :: bytes

record ParsedServerHello =
  sh_version :: bytes
  sh_random :: bytes
  sh_session_id :: bytes
  sh_cipher_suite :: bytes
  sh_compression :: byte
  sh_extensions :: "TlsExtension list"

record ParsedCertificateInfo =
  not_after_unix :: "int option"
  not_before_unix :: "int option"
  issuer_cn :: "bytes option"
  subject_cn :: "bytes option"
  san_names :: "bytes list"

record TlsCertPayload =
  cert_chain_der :: "bytes list"
  certificate_message :: bytes

datatype TlsProfileSource = Src_Default | Src_Raw | Src_Rustls | Src_Merged

datatype TlsProfileQuality = Fallback | RawPartial | RawStrict

datatype TlsFetchProfile = ModernChromeLike | ModernFirefoxLike | CompatTls12 | LegacyMinimal

record TlsBehaviorProfile =
  bp_change_cipher_spec_count :: nat
  bp_app_data_record_sizes :: "nat list"
  bp_ticket_record_sizes :: "nat list"
  bp_source :: TlsProfileSource
  bp_quality :: TlsProfileQuality
  bp_server_hello_record_len :: nat
  bp_server_hello_extension_types :: "nat list"
  bp_server_hello_key_share_group :: "nat option"

record CachedTlsData =
  server_hello_template :: ParsedServerHello
  cert_info :: "ParsedCertificateInfo option"
  cert_payload :: "TlsCertPayload option"
  app_data_records_sizes :: "nat list"
  total_app_data_len :: nat
  behavior_profile :: TlsBehaviorProfile
  selected_fetch_profile :: "TlsFetchProfile option"
  cached_domain :: bytes

definition record_body_len :: "ParsedServerHello \<Rightarrow> nat" where
  "record_body_len h =
    4 + 2 + 32 + 1 + length (sh_session_id h) + 2 + 1 + 2 + sum_list (map (\<lambda>e. 4 + length (ext_data e)) (sh_extensions h))"

definition extension_types :: "ParsedServerHello \<Rightarrow> nat list" where
  "extension_types h = map ext_type (sh_extensions h)"

text \<open>The two files have the same parser of a key share.\<close>

definition parse_key_share_group :: "bytes \<Rightarrow> nat option" where
  "parse_key_share_group data =
    (if length data < 4 then None
     else let grp = be16 (data ! 0) (data ! 1);
              key_exchange_len = be16 (data ! 2) (data ! 3)
          in if length data \<noteq> 4 + key_exchange_len then None
             else if grp = TLS_NAMED_GROUP_X25519 \<or> grp = TLS_NAMED_GROUP_X25519MLKEM768 then Some grp else None)"

definition key_share_group :: "ParsedServerHello \<Rightarrow> nat option" where
  "key_share_group h =
    Option.bind (find (\<lambda>e. ext_type e = KEY_SHARE) (sh_extensions h)) (\<lambda>e. parse_key_share_group (ext_data e))"

definition is_supported_tls13_cipher_suite :: "bytes \<Rightarrow> bool" where
  "is_supported_tls13_cipher_suite cs \<longleftrightarrow> be16 (cs ! 0) (cs ! 1) \<in> {0x1301, 0x1302, 0x1303}"

fun replay_safe_extensions :: "TlsExtension list \<Rightarrow> bool \<Rightarrow> bool \<Rightarrow> bool" where
  "replay_safe_extensions [] saw_supported_versions saw_key_share = (saw_supported_versions \<and> saw_key_share)"
| "replay_safe_extensions (e # es) saw_supported_versions saw_key_share =
    (if ext_type e = SUPPORTED_VERSIONS then
       if saw_supported_versions \<or> ext_data e \<noteq> [0x03, 0x04] then False
       else replay_safe_extensions es True saw_key_share
     else if ext_type e = KEY_SHARE then
       if saw_key_share \<or> parse_key_share_group (ext_data e) = None then False
       else replay_safe_extensions es saw_supported_versions True
     else if ext_type e = ALPN then False
     else replay_safe_extensions es saw_supported_versions saw_key_share)"

definition is_replay_safe_tls13_shape :: "ParsedServerHello \<Rightarrow> nat \<Rightarrow> bool" where
  "is_replay_safe_tls13_shape h len =
    (if sh_version h \<noteq> [0x03, 0x03] \<or> sh_compression h \<noteq> 0 \<or> 32 < length (sh_session_id h) \<or>
        \<not> is_supported_tls13_cipher_suite (sh_cipher_suite h) then False
     else if len \<noteq> 0 \<and> len \<noteq> record_body_len h then False
     else replay_safe_extensions (sh_extensions h) False False)"

definition TlsBehaviorProfile_default :: TlsBehaviorProfile where
  "TlsBehaviorProfile_default =
    \<lparr>bp_change_cipher_spec_count = 1, bp_app_data_record_sizes = [], bp_ticket_record_sizes = [],
     bp_source = Src_Default, bp_quality = Fallback, bp_server_hello_record_len = 0,
     bp_server_hello_extension_types = [], bp_server_hello_key_share_group = None\<rparr>"

definition raw_or_merged :: "TlsBehaviorProfile \<Rightarrow> bool" where
  "raw_or_merged p \<longleftrightarrow> bp_source p = Src_Raw \<or> bp_source p = Src_Merged"

definition refresh_quality :: "bool \<Rightarrow> TlsBehaviorProfile \<Rightarrow> TlsBehaviorProfile" where
  "refresh_quality has_replay_safe_server_hello p =
    (let has_raw_server_hello = (raw_or_merged p \<and> has_replay_safe_server_hello)
     in p\<lparr>bp_quality := if has_raw_server_hello \<and> bp_app_data_record_sizes p \<noteq> [] then RawStrict
          else if has_raw_server_hello then RawPartial else Fallback\<rparr>)"

definition refresh_server_hello_summary :: "ParsedServerHello \<Rightarrow> TlsBehaviorProfile \<Rightarrow> TlsBehaviorProfile" where
  "refresh_server_hello_summary h p =
    (if raw_or_merged p then
       let p = (if bp_server_hello_record_len p = 0 then p\<lparr>bp_server_hello_record_len := record_body_len h\<rparr> else p);
           p = p\<lparr>bp_server_hello_extension_types := extension_types h,
                 bp_server_hello_key_share_group := key_share_group h\<rparr>
       in refresh_quality (is_replay_safe_tls13_shape h (bp_server_hello_record_len p)) p
     else refresh_quality False
       (p\<lparr>bp_server_hello_record_len := 0, bp_server_hello_extension_types := [],
          bp_server_hello_key_share_group := None\<rparr>))"

section \<open>The cache (\<open>cache.rs\<close>)\<close>

definition FULL_CERT_SENT_SWEEP_INTERVAL_SECS :: nat where "FULL_CERT_SENT_SWEEP_INTERVAL_SECS = 30"
definition FULL_CERT_SENT_MAX_IPS :: nat where "FULL_CERT_SENT_MAX_IPS = 65536"
definition FULL_CERT_SENT_SHARDS :: nat where "FULL_CERT_SENT_SHARDS = 64"

text \<open>The two counters are global in the code, over all caches of the process.\<close>

record TlsFrontCache =
  fc_memory :: "(bytes \<times> CachedTlsData) list"
  fc_default :: CachedTlsData
  full_cert_sent_shards :: "(IpAddr \<times> instant) list list"
  last_sweep_epoch_secs :: nat
  full_cert_sent_ips_gauge :: nat
  full_cert_sent_cap_drops :: nat

definition default_name :: bytes where "default_name = map of_char ''default''"

definition default_cached :: "nat \<Rightarrow> CachedTlsData" where
  "default_cached default_len =
    \<lparr>server_hello_template = \<lparr>sh_version = [0x03, 0x03], sh_random = replicate 32 0, sh_session_id = [],
       sh_cipher_suite = [0x13, 0x01], sh_compression = 0, sh_extensions = []\<rparr>,
     cert_info = None, cert_payload = None, app_data_records_sizes = [default_len], total_app_data_len = default_len,
     behavior_profile = TlsBehaviorProfile_default, selected_fetch_profile = None, cached_domain = default_name\<rparr>"

definition TlsFrontCache_new :: "bytes list \<Rightarrow> nat \<Rightarrow> TlsFrontCache" where
  "TlsFrontCache_new domains default_len =
    \<lparr>fc_memory = foldl (\<lambda>m d. AList.update d (default_cached default_len) m) [] domains,
     fc_default = default_cached default_len, full_cert_sent_shards = replicate FULL_CERT_SENT_SHARDS [],
     last_sweep_epoch_secs = 0, full_cert_sent_ips_gauge = 0, full_cert_sent_cap_drops = 0\<rparr>"

definition cache_get :: "TlsFrontCache \<Rightarrow> bytes \<Rightarrow> CachedTlsData" where
  "cache_get c sni = (case map_of (fc_memory c) sni of Some d \<Rightarrow> d | None \<Rightarrow> fc_default c)"

definition contains_domain :: "TlsFrontCache \<Rightarrow> bytes \<Rightarrow> bool" where
  "contains_domain c domain \<longleftrightarrow> map_of (fc_memory c) domain \<noteq> None"

definition default_profile_domains :: "TlsFrontCache \<Rightarrow> bytes list \<Rightarrow> bytes list" where
  "default_profile_domains c domains = filter (\<lambda>d. cached_domain (cache_get c d) = default_name) domains"

definition cache_set :: "bytes \<Rightarrow> CachedTlsData \<Rightarrow> TlsFrontCache \<Rightarrow> TlsFrontCache" where
  "cache_set domain data c = c\<lparr>fc_memory := AList.update domain data (fc_memory c)\<rparr>"

fun invalidate_profile_mismatches :: "(bytes \<times> TlsFetchProfile) list \<Rightarrow> TlsFrontCache \<Rightarrow> TlsFrontCache" where
  "invalidate_profile_mismatches [] c = c"
| "invalidate_profile_mismatches ((domain, profile) # expected) c =
    (let mismatched = (case map_of (fc_memory c) domain of
           None \<Rightarrow> False
         | Some d \<Rightarrow> cached_domain d \<noteq> default_name \<and> selected_fetch_profile d \<noteq> Some profile)
     in invalidate_profile_mismatches expected
          (if mismatched then cache_set domain (fc_default c) c else c))"

record TlsFetchResult =
  server_hello_parsed :: ParsedServerHello
  fr_app_data_records_sizes :: "nat list"
  fr_total_app_data_len :: nat
  fr_behavior_profile :: TlsBehaviorProfile
  fr_selected_fetch_profile :: "TlsFetchProfile option"
  fr_cert_info :: "ParsedCertificateInfo option"
  fr_cert_payload :: "TlsCertPayload option"

definition update_from_fetch :: "bytes \<Rightarrow> TlsFetchResult \<Rightarrow> TlsFrontCache \<Rightarrow> TlsFrontCache" where
  "update_from_fetch domain f c =
    (let profile = refresh_server_hello_summary (server_hello_parsed f) (fr_behavior_profile f)
     in cache_set domain
       \<lparr>server_hello_template = server_hello_parsed f, cert_info = fr_cert_info f, cert_payload = fr_cert_payload f,
        app_data_records_sizes = fr_app_data_records_sizes f, total_app_data_len = fr_total_app_data_len f,
        behavior_profile = profile, selected_fetch_profile = fr_selected_fetch_profile f, cached_domain = domain\<rparr> c)"

text \<open>Which addresses have been sent a full certificate lately.\<close>

definition full_cert_sent_shard_index :: "(IpAddr \<Rightarrow> nat) \<Rightarrow> IpAddr \<Rightarrow> nat" where
  "full_cert_sent_shard_index ip_hash ip = ip_hash ip mod FULL_CERT_SENT_SHARDS"

definition decrement_full_cert_sent_entries :: "nat \<Rightarrow> TlsFrontCache \<Rightarrow> TlsFrontCache" where
  "decrement_full_cert_sent_entries amount c = c\<lparr>full_cert_sent_ips_gauge := full_cert_sent_ips_gauge c - amount\<rparr>"

definition try_reserve_full_cert_sent_entry :: "TlsFrontCache \<Rightarrow> bool \<times> TlsFrontCache" where
  "try_reserve_full_cert_sent_entry c =
    (if FULL_CERT_SENT_MAX_IPS \<le> full_cert_sent_ips_gauge c then (False, c)
     else (True, c\<lparr>full_cert_sent_ips_gauge := full_cert_sent_ips_gauge c + 1\<rparr>))"

definition still_recent :: "instant \<Rightarrow> nat \<Rightarrow> (IpAddr \<times> instant) list \<Rightarrow> (IpAddr \<times> instant) list" where
  "still_recent now ttl shard = filter (\<lambda>e. max 0 (now - snd e) < int ttl) shard"

fun sweep_shards :: "instant \<Rightarrow> nat \<Rightarrow> nat \<Rightarrow> TlsFrontCache \<Rightarrow> TlsFrontCache" where
  "sweep_shards now ttl 0 c = c"
| "sweep_shards now ttl (Suc n) c =
    (let i = length (full_cert_sent_shards c) - Suc n;
         shard = full_cert_sent_shards c ! i;
         kept = still_recent now ttl shard
     in sweep_shards now ttl n (decrement_full_cert_sent_entries (length shard - length kept)
          (c\<lparr>full_cert_sent_shards := (full_cert_sent_shards c)[i := kept]\<rparr>)))"

definition sweep_full_cert_sent_shards :: "instant \<Rightarrow> nat \<Rightarrow> TlsFrontCache \<Rightarrow> TlsFrontCache" where
  "sweep_full_cert_sent_shards now ttl c = sweep_shards now ttl (length (full_cert_sent_shards c)) c"

definition take_full_cert_budget_for_ip ::
  "(IpAddr \<Rightarrow> nat) \<Rightarrow> instant \<Rightarrow> nat \<Rightarrow> IpAddr \<Rightarrow> nat \<Rightarrow> TlsFrontCache \<Rightarrow> bool \<times> TlsFrontCache" where
  "take_full_cert_budget_for_ip ip_hash now now_epoch_secs ip ttl c =
    (if ttl = 0 then (True, c)
     else
       let should_sweep = (FULL_CERT_SENT_SWEEP_INTERVAL_SECS \<le> now_epoch_secs - last_sweep_epoch_secs c);
           c = (if should_sweep then sweep_full_cert_sent_shards now ttl (c\<lparr>last_sweep_epoch_secs := now_epoch_secs\<rparr>) else c);
           i = full_cert_sent_shard_index ip_hash ip;
           shard = full_cert_sent_shards c ! i
       in case map_of shard ip of
            Some seen_at \<Rightarrow>
              if int ttl \<le> max 0 (now - seen_at)
              then (True, c\<lparr>full_cert_sent_shards := (full_cert_sent_shards c)[i := AList.update ip now shard]\<rparr>)
              else (False, c)
          | None \<Rightarrow>
              let (reserved, c) = try_reserve_full_cert_sent_entry c in
              if \<not> reserved then (False, c\<lparr>full_cert_sent_cap_drops := (full_cert_sent_cap_drops c + 1) mod 2 ^ 64\<rparr>)
              else (True, c\<lparr>full_cert_sent_shards := (full_cert_sent_shards c)[i := AList.update ip now shard]\<rparr>))"

end
