(* ===== verification/Tls_Emulator.thy ===== *)
theory Tls_Emulator
  imports Tls_Front
begin

text \<open>
  The response that imitates a profiled site (\<open>src/tls_front/emulator.rs\<close>): the shape of its
  ServerHello, the sizes of its encrypted records and tickets, and the response built from them.
  The floating-point product \<open>base * 0.03\<close>, rounded, is the exact one rounded half up: the two
  agree for every base from 64 to 16640, and the base is clamped to that range.
\<close>

section \<open>Shape of the ServerHello\<close>

definition MIN_APP_DATA :: nat where "MIN_APP_DATA = 64"
definition MAX_APP_DATA :: nat where "MAX_APP_DATA = MAX_TLS_CIPHERTEXT_SIZE"
definition MAX_TICKET_RECORDS :: nat where "MAX_TICKET_RECORDS = 4"

lemmas app_consts = MIN_APP_DATA_def MAX_APP_DATA_def MAX_TICKET_RECORDS_def MAX_TLS_CIPHERTEXT_SIZE_def

definition clamp_size :: "nat \<Rightarrow> nat" where
  "clamp_size sz = max MIN_APP_DATA (min MAX_APP_DATA sz)"

datatype FallbackShapeFamily = NginxLike | BoringSslLike | RustlsLike

definition effective_profiled_server_hello_record_len :: "CachedTlsData \<Rightarrow> nat" where
  "effective_profiled_server_hello_record_len cached =
    (if bp_server_hello_record_len (behavior_profile cached) = 0
     then record_body_len (server_hello_template cached)
     else bp_server_hello_record_len (behavior_profile cached))"

definition should_replay_profiled_server_hello_shape :: "CachedTlsData \<Rightarrow> bool" where
  "should_replay_profiled_server_hello_shape cached \<longleftrightarrow> raw_or_merged (behavior_profile cached) \<and>
    is_replay_safe_tls13_shape (server_hello_template cached) (effective_profiled_server_hello_record_len cached)"

definition profiled_server_hello_key_share_group :: "CachedTlsData \<Rightarrow> nat option" where
  "profiled_server_hello_key_share_group cached =
    (if \<not> should_replay_profiled_server_hello_shape cached then None
     else Option.bind (find (\<lambda>e. ext_type e = KEY_SHARE) (sh_extensions (server_hello_template cached)))
            (\<lambda>e. parse_key_share_group (ext_data e)))"

definition push_supported_versions_extension :: "bytes \<Rightarrow> bytes" where
  "push_supported_versions_extension exts = exts @ nat_be 2 SUPPORTED_VERSIONS @ nat_be 2 2 @ nat_be 2 0x0304"

definition push_key_share_entry :: "nat \<Rightarrow> bytes \<Rightarrow> bytes \<Rightarrow> bytes" where
  "push_key_share_entry grp kx exts =
    (case try_from U16_MAX (length kx) of None \<Rightarrow> exts | Some key_exchange_len \<Rightarrow>
     case checked_add (length kx) 4 of None \<Rightarrow> exts | Some entry_len \<Rightarrow>
     case try_from U16_MAX entry_len of None \<Rightarrow> exts | Some entry_len \<Rightarrow>
       exts @ nat_be 2 KEY_SHARE @ nat_be 2 entry_len @ nat_be 2 grp @ nat_be 2 key_exchange_len @ kx)"

definition push_key_share_extension :: "ServerHelloKeyShare \<Rightarrow> bytes \<Rightarrow> bytes" where
  "push_key_share_extension ks exts = push_key_share_entry (ks_group ks) (key_exchange ks) exts"

definition replay_profiled_server_hello_extension ::
  "ServerHelloKeyShare \<Rightarrow> TlsExtension \<Rightarrow> bytes \<times> bool \<times> bool \<Rightarrow> bytes \<times> bool \<times> bool" where
  "replay_profiled_server_hello_extension ks ext = (\<lambda>(exts, saw_supported_versions, saw_key_share).
    if ext_type ext = SUPPORTED_VERSIONS \<and> \<not> saw_supported_versions
    then (push_supported_versions_extension exts, True, saw_key_share)
    else if ext_type ext = KEY_SHARE \<and> \<not> saw_key_share
    then (push_key_share_extension ks exts, saw_supported_versions, True)
    else (exts, saw_supported_versions, saw_key_share))"

definition build_profiled_server_hello_extensions :: "CachedTlsData \<Rightarrow> ServerHelloKeyShare \<Rightarrow> bytes" where
  "build_profiled_server_hello_extensions cached ks =
    (let (exts, saw_supported_versions, saw_key_share) =
           (if should_replay_profiled_server_hello_shape cached
            then foldl (\<lambda>s ext. replay_profiled_server_hello_extension ks ext s) ([], False, False)
                   (sh_extensions (server_hello_template cached))
            else ([], False, False));
         exts = (if \<not> saw_supported_versions then push_supported_versions_extension exts else exts)
     in if \<not> saw_key_share then push_key_share_extension ks exts else exts)"

section \<open>Sizes of the encrypted records\<close>

fun jitter_and_clamp_sizes where
  "jitter_and_clamp_sizes ops [] st = ([], st)"
| "jitter_and_clamp_sizes ops (sz # sizes) st =
    (let base = clamp_size sz;
         jitter_range = (3 * base + 50) div 100;
         (adjusted, st) =
           (if jitter_range = 0 then (base, st)
            else let (rand_bytes, st) = rng_bytes ops 2 st;
                     span = 2 * int jitter_range + 1;
                     delta = int (le_nat rand_bytes) mod span - int jitter_range
                 in (nat (max (int MIN_APP_DATA) (min (int MAX_APP_DATA) (int base + delta))), st));
         (rest, st) = jitter_and_clamp_sizes ops sizes st
     in (adjusted # rest, st))"

definition app_data_body_capacity :: "nat list \<Rightarrow> nat" where
  "app_data_body_capacity sizes = sum_list (map (\<lambda>sz. sz - 17) sizes)"

function push_chunks :: "nat \<Rightarrow> nat \<Rightarrow> nat list \<Rightarrow> nat list" where
  "push_chunks payload_len body_total sizes =
    (if body_total < payload_len then
       let remaining = payload_len - body_total;
           chunk = clamp_size (remaining + 17)
       in push_chunks payload_len (body_total + (chunk - 17)) (sizes @ [chunk])
     else sizes)"
  by pat_completeness auto
termination
  by (relation "measure (\<lambda>(payload_len, body_total, sizes). payload_len - body_total)") (auto simp: clamp_size_def app_consts)

declare push_chunks.simps [simp del]

definition ensure_payload_capacity :: "nat list \<Rightarrow> nat \<Rightarrow> nat list" where
  "ensure_payload_capacity sizes payload_len =
    (if payload_len = 0 then sizes
     else let body_total = app_data_body_capacity sizes in
       if payload_len \<le> body_total then sizes
       else if sizes = [] then push_chunks payload_len body_total sizes
       else let free = MAX_APP_DATA - last sizes;
                grow = min free (payload_len - body_total)
            in push_chunks payload_len (body_total + grow) (butlast sizes @ [last sizes + grow]))"

definition fallback_shape_family :: "(bytes \<Rightarrow> 32 word) \<Rightarrow> CachedTlsData \<Rightarrow> FallbackShapeFamily" where
  "fallback_shape_family crc cached =
    (case bp_source (behavior_profile cached) of
       Src_Rustls \<Rightarrow> RustlsLike
     | Src_Default \<Rightarrow>
         if crc (cached_domain cached @ nat_le 8 (total_app_data_len cached)) AND 1 = 0 then NginxLike else BoringSslLike
     | Src_Raw \<Rightarrow> NginxLike | Src_Merged \<Rightarrow> NginxLike)"

definition fallback_total_app_data_len :: "CachedTlsData \<Rightarrow> nat" where
  "fallback_total_app_data_len cached =
    max (max (total_app_data_len cached) (sum_list (app_data_records_sizes cached) mod 2 ^ 64)) 1024"

definition fallback_family_app_data_sizes :: "CachedTlsData \<Rightarrow> nat list" where
  "fallback_family_app_data_sizes cached =
    [clamp_size
      (if bp_source (behavior_profile cached) = Src_Rustls
       then case app_data_records_sizes cached of sz # _ \<Rightarrow> sz | [] \<Rightarrow> fallback_total_app_data_len cached
       else fallback_total_app_data_len cached)]"

definition emulated_app_data_sizes :: "CachedTlsData \<Rightarrow> nat list" where
  "emulated_app_data_sizes cached =
    (if raw_or_merged (behavior_profile cached) then
       case bp_app_data_record_sizes (behavior_profile cached) of
         sz # _ \<Rightarrow> [clamp_size sz]
       | [] \<Rightarrow> (case app_data_records_sizes cached of
                 sz # _ \<Rightarrow> [clamp_size sz]
               | [] \<Rightarrow> [clamp_size (max (total_app_data_len cached) 1024)])
     else fallback_family_app_data_sizes cached)"

fun fill_ticket_sizes where
  "fill_ticket_sizes ops base 0 st = ([], st)"
| "fill_ticket_sizes ops base (Suc n) st =
    (let (r, st) = rng_range ops 64 st; (rest, st) = fill_ticket_sizes ops base n st in ((base + r) # rest, st))"

definition emulated_ticket_record_sizes where
  "emulated_ticket_record_sizes crc ops cached new_session_tickets st =
    (let target_count = min new_session_tickets MAX_TICKET_RECORDS in
     if target_count = 0 then ([], st)
     else let profiled_sizes = (if raw_or_merged (behavior_profile cached) then bp_ticket_record_sizes (behavior_profile cached) else []);
              sizes = take target_count profiled_sizes;
              base = (case fallback_shape_family crc cached of NginxLike \<Rightarrow> 96 | BoringSslLike \<Rightarrow> 80 | RustlsLike \<Rightarrow> 112);
              (more, st) = fill_ticket_sizes ops base (target_count - length sizes) st
          in (sizes @ more, st))"

section \<open>Certificate payloads\<close>

fun show_digits :: "nat \<Rightarrow> bytes" where
  "show_digits n = (if n < 10 then [of_nat (48 + n)] else show_digits (n div 10) @ [of_nat (48 + n mod 10)])"

declare show_digits.simps [simp del]

definition show_i64 :: "int \<Rightarrow> bytes" where
  "show_i64 i = (if i < 0 then 45 # show_digits (nat (- i)) else show_digits (nat i))"

fun join_bytes :: "bytes \<Rightarrow> bytes list \<Rightarrow> bytes" where
  "join_bytes sep [] = []"
| "join_bytes sep [x] = x"
| "join_bytes sep (x # y # xs) = x @ sep @ join_bytes sep (y # xs)"

abbreviation labelled :: "string \<Rightarrow> bytes \<Rightarrow> bytes" where
  "labelled label value \<equiv> map of_char label @ value"

definition build_compact_cert_info_payload :: "ParsedCertificateInfo \<Rightarrow> bytes option" where
  "build_compact_cert_info_payload ci =
    (let fields =
       (case subject_cn ci of Some s \<Rightarrow> [labelled ''CN='' s] | None \<Rightarrow> []) @
       (case issuer_cn ci of Some s \<Rightarrow> [labelled ''ISSUER='' s] | None \<Rightarrow> []) @
       (case not_before_unix ci of Some t \<Rightarrow> [labelled ''NB='' (show_i64 t)] | None \<Rightarrow> []) @
       (case not_after_unix ci of Some t \<Rightarrow> [labelled ''NA='' (show_i64 t)] | None \<Rightarrow> []) @
       (if san_names ci \<noteq> [] then [labelled ''SAN='' (join_bytes [44] (take 8 (san_names ci)))] else [])
     in if fields = [] then None else Some (take 512 (join_bytes [59] fields)))"

function hash_blocks :: "(bytes \<Rightarrow> 32 word) \<Rightarrow> bytes \<Rightarrow> 32 word \<Rightarrow> bytes \<Rightarrow> bytes" where
  "hash_blocks crc data state hashed =
    (if length hashed < length data then
       let state = crc (nat_le 4 (unat state) @ data);
           block = nat_le 4 (unat state);
           remaining = length data - length hashed;
           copy_len = min remaining (length block)
       in hash_blocks crc data state (hashed @ take copy_len block)
     else hashed)"
  by pat_completeness auto
termination
  by (relation "measure (\<lambda>(crc, data, state, hashed). length data - length hashed)") auto

declare hash_blocks.simps [simp del]

definition hash_compact_cert_info_payload :: "(bytes \<Rightarrow> 32 word) \<Rightarrow> bytes \<Rightarrow> bytes option" where
  "hash_compact_cert_info_payload crc data =
    (if data = [] then None else Some (hash_blocks crc data (crc data) []))"

definition select_payload ::
  "(bytes \<Rightarrow> 32 word) \<Rightarrow> CachedTlsData \<Rightarrow> bool \<Rightarrow> bool \<Rightarrow> ClientHelloTlsVersion \<Rightarrow> bytes option" where
  "select_payload crc cached use_full_cert_payload serverhello_compact client_tls_version =
    (let compact_payload =
       (if serverhello_compact
        then Option.bind (Option.bind (cert_info cached) build_compact_cert_info_payload) (hash_compact_cert_info_payload crc)
        else None);
         full_payload = (case cert_payload cached of
            Some p \<Rightarrow> if certificate_message p \<noteq> [] then Some (certificate_message p) else None | None \<Rightarrow> None)
     in case client_tls_version of
          Tls13 \<Rightarrow> None
        | Tls12 \<Rightarrow>
            if serverhello_compact then
              if use_full_cert_payload then (case full_payload of Some p \<Rightarrow> Some p | None \<Rightarrow> compact_payload)
              else compact_payload
            else full_payload)"

section \<open>The response\<close>

text \<open>The body of one encrypted record: what fits of the payload, random bytes, a type byte and a tag.\<close>

definition app_data_body where
  "app_data_body ops payload sz payload_offset st =
    (case payload of
       Some p \<Rightarrow>
         if 17 < sz then
           let body_len = sz - 17;
               remaining = length p - payload_offset;
               copy_len = min remaining body_len;
               copied = take copy_len (drop payload_offset p);
               (pad, st) = (if copy_len < body_len then rng_bytes ops (body_len - copy_len) st else ([], st));
               (tag, st) = rng_bytes ops 16 st
           in (copied @ pad @ [0x16] @ tag, payload_offset + copy_len, st)
         else let (body, st) = rng_bytes ops sz st in (body, payload_offset, st)
     | None \<Rightarrow>
         if 17 < sz then
           let (body, st) = rng_bytes ops (sz - 17) st;
               (tag, st) = rng_bytes ops 16 st
           in (body @ [0x16] @ tag, payload_offset, st)
         else let (body, st) = rng_bytes ops sz st in (body, payload_offset, st))"

fun emit_app_data where
  "emit_app_data ops payload [] payload_offset st = ([], st)"
| "emit_app_data ops payload (sz # sizes) payload_offset st =
    (let (body, payload_offset, st) = app_data_body ops payload sz payload_offset st;
         rec = [TLS_RECORD_APPLICATION] @ TLS_VERSION @ nat_be 2 (sz mod 65536) @ body;
         (rest, st) = emit_app_data ops payload sizes payload_offset st
     in (rec @ rest, st))"

fun emit_tickets where
  "emit_tickets ops [] st = ([], st)"
| "emit_tickets ops (ticket_len # sizes) st =
    (let (body, st) = rng_bytes ops ticket_len st;
         rec = [TLS_RECORD_APPLICATION] @ TLS_VERSION @ nat_be 2 (ticket_len mod 65536) @ body;
         (rest, st) = emit_tickets ops sizes st
     in (rec @ rest, st))"

definition emulated_server_hello_message :: "CachedTlsData \<Rightarrow> bytes \<Rightarrow> bytes \<Rightarrow> ServerHelloKeyShare \<Rightarrow> bytes" where
  "emulated_server_hello_message cached session_id selected_cipher_suite ks =
    (let extensions = build_profiled_server_hello_extensions cached ks;
         body_len = 2 + 32 + 1 + length session_id + 2 + 1 + 2 + length extensions;
         template = server_hello_template cached;
         cipher = (if selected_cipher_suite \<noteq> [0, 0] then selected_cipher_suite
                   else if sh_cipher_suite template = [0, 0] then [0x13, 0x01] else sh_cipher_suite template)
     in [0x02] @ take 3 (drop 1 (nat_be 4 (body_len mod 2 ^ 32))) @ sh_version template @ replicate 32 0
        @ [of_nat (length session_id)] @ session_id @ cipher @ [sh_compression template]
        @ nat_be 2 (length extensions mod 65536) @ extensions)"

definition emulated_sizes where
  "emulated_sizes ops cached st =
    (let base_sizes = emulated_app_data_sizes cached
     in if raw_or_merged (behavior_profile cached) then (map clamp_size base_sizes, st)
        else jitter_and_clamp_sizes ops base_sizes st)"

definition build_emulated_server_hello where
  "build_emulated_server_hello hm crc ops secret client_digest session_id cached use_full_cert_payload serverhello_compact
      client_tls_version selected_cipher_suite server_key_share (alpn :: bytes option) new_session_tickets st =
    (let message = emulated_server_hello_message cached session_id selected_cipher_suite server_key_share;
         server_hello = [TLS_RECORD_HANDSHAKE] @ TLS_VERSION @ nat_be 2 (length message mod 65536) @ message;
         (sizes, st) = emulated_sizes ops cached st;
         selected_payload = select_payload crc cached use_full_cert_payload serverhello_compact client_tls_version;
         sizes = (case selected_payload of Some p \<Rightarrow> ensure_payload_capacity sizes (length p) | None \<Rightarrow> sizes);
         (app_data, st) = emit_app_data ops selected_payload sizes 0 st;
         (ticket_sizes, st) = emulated_ticket_record_sizes crc ops cached new_session_tickets st;
         (tickets, st) = emit_tickets ops ticket_sizes st;
         response = server_hello @ change_cipher_spec @ app_data @ tickets;
         digest = sha256_hmac hm secret (client_digest @ response)
     in (splice response TLS_DIGEST_POS digest, st))"

end
