(* ===== verification/Fragmented_Send.thy ===== *)
theory Fragmented_Send
  imports Async_Io
begin

text \<open>
  Sending the first response in small TCP segments (\<open>src/transport/socket/fragmented_send.rs\<close>): the
  segment size of the accepted socket is lowered, the data sent fragment by fragment, and the
  segment size put back.

  The system calls are parameters; all of them act on the one socket behind the descriptor.  \<open>try_io\<close>
  of the runtime with the \<open>send\<close> in it is one step, whose outcome is a byte count, an error, or that
  the socket was not writable after all.  A \<open>c_int\<close> is an integer.
\<close>

section \<open>Model\<close>

datatype send_outcome = Would_Block | Interrupted | Send_Err ErrorKind | Sent nat

record 'w sock_sys =
  sys_clone :: "'w \<Rightarrow> (ErrorKind + unit) \<times> 'w"
  sys_register :: "'w \<Rightarrow> (ErrorKind + unit) \<times> 'w"
  sys_get_maxseg :: "'w \<Rightarrow> (ErrorKind + int) \<times> 'w"
  sys_set_maxseg :: "int \<Rightarrow> 'w \<Rightarrow> (ErrorKind + unit) \<times> 'w"
  sys_nodelay :: "'w \<Rightarrow> (ErrorKind + unit) \<times> 'w"
  sys_writable :: "'w \<Rightarrow> (ErrorKind + unit) \<times> 'w"
  sys_send :: "bytes \<Rightarrow> 'w \<Rightarrow> send_outcome \<times> 'w"

definition C_INT_MAX :: nat where "C_INT_MAX = 2 ^ 31 - 1"
definition EBADF :: nat where "EBADF = 9"

record TcpMaxSegmentGuard =
  mss_original :: int
  mss_changed :: bool

definition guard_install :: "'w sock_sys \<Rightarrow> nat \<Rightarrow> 'w \<Rightarrow> (ErrorKind + TcpMaxSegmentGuard) \<times> 'w" where
  "guard_install sys requested w =
    (case try_from C_INT_MAX requested of
       None \<Rightarrow> (Inl InvalidInput, w)
     | Some requested \<Rightarrow>
         (case sys_get_maxseg sys w of
            (Inl e, w) \<Rightarrow> (Inl e, w)
          | (Inr original, w) \<Rightarrow>
              let changed = (int requested < original) in
              if changed then
                (case sys_set_maxseg sys (int requested) w of
                   (Inl e, w) \<Rightarrow> (Inl e, w)
                 | (Inr _, w) \<Rightarrow> (Inr \<lparr>mss_original = original, mss_changed = changed\<rparr>, w))
              else (Inr \<lparr>mss_original = original, mss_changed = changed\<rparr>, w)))"

text \<open>A guard that could not be restored tries once more when it is dropped.\<close>

definition guard_drop :: "'w sock_sys \<Rightarrow> TcpMaxSegmentGuard \<Rightarrow> 'w \<Rightarrow> 'w" where
  "guard_drop sys g w = (if mss_changed g then snd (sys_set_maxseg sys (mss_original g) w) else w)"

definition guard_restore :: "'w sock_sys \<Rightarrow> TcpMaxSegmentGuard \<Rightarrow> 'w \<Rightarrow> (ErrorKind + unit) \<times> 'w" where
  "guard_restore sys g w =
    (if mss_changed g then
       (case sys_set_maxseg sys (mss_original g) w of
          (Inl e, w) \<Rightarrow> (Inl e, guard_drop sys g w)
        | (Inr _, w) \<Rightarrow> (Inr (), guard_drop sys (g\<lparr>mss_changed := False\<rparr>) w))
     else (Inr (), guard_drop sys g w))"

partial_function (option) send_fragment :: "'w sock_sys \<Rightarrow> bytes \<Rightarrow> 'w \<Rightarrow> ((ErrorKind + unit) \<times> 'w) option" where
  "send_fragment sys remaining w =
    (if remaining = [] then Some (Inr (), w)
     else case sys_writable sys w of
         (Inl e, w) \<Rightarrow> Some (Inl e, w)
       | (Inr _, w) \<Rightarrow>
           (case sys_send sys remaining w of
              (Would_Block, w) \<Rightarrow> send_fragment sys remaining w
            | (Interrupted, w) \<Rightarrow> send_fragment sys remaining w
            | (Send_Err e, w) \<Rightarrow> Some (Inl e, w)
            | (Sent n, w) \<Rightarrow>
                if n = 0 then Some (Inl WriteZero, w)
                else case sys_nodelay sys w of
                    (Inl e, w) \<Rightarrow> Some (Inl e, w)
                  | (Inr _, w) \<Rightarrow> send_fragment sys (drop n remaining) w))"

function chunks :: "nat \<Rightarrow> bytes \<Rightarrow> bytes list" where
  "chunks n d = (if n = 0 \<or> d = [] then [] else take n d # chunks n (drop n d))"
  by pat_completeness auto
termination by (relation "measure (\<lambda>(n, d). length d)") auto

declare chunks.simps [simp del]

fun send_fragments :: "'w sock_sys \<Rightarrow> bytes list \<Rightarrow> 'w \<Rightarrow> ((ErrorKind + unit) \<times> 'w) option" where
  "send_fragments sys [] w = Some (Inr (), w)"
| "send_fragments sys (fragment # fragments) w = do {
     (r, w) \<leftarrow> send_fragment sys fragment w;
     case r of Inl e \<Rightarrow> Some (Inl e, w) | Inr _ \<Rightarrow> send_fragments sys fragments w }"

definition send_tcp_fragmented_fd ::
  "'w sock_sys \<Rightarrow> int \<Rightarrow> bytes \<Rightarrow> nat \<Rightarrow> 'w \<Rightarrow> ((ErrorKind + unit) \<times> 'w) option" where
  "send_tcp_fragmented_fd sys fd data fragment_size w =
    (if fragment_size = 0 then Some (Inl InvalidInput, w)
     else if data = [] then Some (Inr (), w)
     else if fd < 0 then Some (Inl (Os_error EBADF), w)
     else case sys_clone sys w of
         (Inl e, w) \<Rightarrow> Some (Inl e, w)
       | (Inr _, w) \<Rightarrow>
     case sys_register sys w of
         (Inl e, w) \<Rightarrow> Some (Inl e, w)
       | (Inr _, w) \<Rightarrow>
     case guard_install sys fragment_size w of
         (Inl e, w) \<Rightarrow> Some (Inl e, w)
       | (Inr mss_guard, w) \<Rightarrow> do {
           (send_result, w) \<leftarrow> send_fragments sys (chunks fragment_size data) w;
           let (restore_result, w) = guard_restore sys mss_guard w;
           Some (case send_result of Inl e \<Rightarrow> Inl e | Inr _ \<Rightarrow> restore_result, w) })"

section \<open>What a socket promises\<close>

text \<open>
  The pieces added to the wire under segment size \<open>m\<close>: what they carry together, and how long each
  may be.
\<close>

definition pieces_added :: "(int \<times> bytes) list \<Rightarrow> (int \<times> bytes) list \<Rightarrow> int \<Rightarrow> nat \<Rightarrow> bytes \<Rightarrow> bool" where
  "pieces_added old new m k d \<longleftrightarrow>
    (\<exists>ps. new = old @ map (Pair m) ps \<and> concat ps = d \<and> list_all (\<lambda>p. length p \<le> k) ps)"

text \<open>
  \<open>wire\<close> is what was handed to the network with the segment size in force for each piece,
  \<open>maxseg\<close> the segment size, \<open>patience\<close> a bound on how often a send is not possible yet, and
  \<open>settable\<close> says that the segment size can be set from here on.
\<close>

locale tcp_socket =
  fixes sys :: "'w sock_sys" and wire :: "'w \<Rightarrow> (int \<times> bytes) list" and maxseg :: "'w \<Rightarrow> int" and patience :: "'w \<Rightarrow> nat"
    and settable :: "'w \<Rightarrow> bool"
  assumes clone: "sys_clone sys w = (r, v) \<Longrightarrow> wire v = wire w \<and> maxseg v = maxseg w \<and> settable v = settable w"
    and register: "sys_register sys w = (r, v) \<Longrightarrow> wire v = wire w \<and> maxseg v = maxseg w \<and> settable v = settable w"
    and get_maxseg: "sys_get_maxseg sys w = (x, v) \<Longrightarrow>
      wire v = wire w \<and> maxseg v = maxseg w \<and> settable v = settable w \<and> (\<forall>m. x = Inr m \<longrightarrow> m = maxseg w)"
    and set_maxseg: "sys_set_maxseg sys m w = (r, v) \<Longrightarrow>
      wire v = wire w \<and> maxseg v = (if r = Inr () then m else maxseg w) \<and> (settable w \<longrightarrow> r = Inr () \<and> settable v)"
    and nodelay: "sys_nodelay sys w = (r, v) \<Longrightarrow>
      wire v = wire w \<and> maxseg v = maxseg w \<and> settable v = settable w \<and> patience v \<le> patience w"
    and writable: "sys_writable sys w = (r, v) \<Longrightarrow>
      wire v = wire w \<and> maxseg v = maxseg w \<and> settable v = settable w \<and> patience v \<le> patience w"
    and sent: "sys_send sys d w = (Sent n, v) \<Longrightarrow> d \<noteq> [] \<Longrightarrow>
      n \<le> length d \<and> wire v = (if n = 0 then wire w else wire w @ [(maxseg w, take n d)]) \<and>
      maxseg v = maxseg w \<and> settable v = settable w \<and> patience v \<le> patience w"
    and not_sent: "sys_send sys d w = (s, v) \<Longrightarrow> d \<noteq> [] \<Longrightarrow> (\<And>n. s \<noteq> Sent n) \<Longrightarrow>
      wire v = wire w \<and> maxseg v = maxseg w \<and> settable v = settable w \<and> patience v \<le> patience w \<and>
      ((\<forall>e. s \<noteq> Send_Err e) \<longrightarrow> patience v < patience w)"
begin

abbreviation pieces :: "'w \<Rightarrow> 'w \<Rightarrow> int \<Rightarrow> nat \<Rightarrow> bytes \<Rightarrow> bool" where
  "pieces w v \<equiv> pieces_added (wire w) (wire v)"

lemma pieces_refl: "wire v = wire w \<Longrightarrow> pieces w v m k []"
  unfolding pieces_added_def by (rule exI [of _ "[]"]) simp

lemma pieces_trans:
  assumes "pieces w u m k a" "pieces u v m k b"
  shows "pieces w v m k (a @ b)"
proof -
  obtain ps qs where "wire u = wire w @ map (Pair m) ps" "concat ps = a" "list_all (\<lambda>p. length p \<le> k) ps"
      "wire v = wire u @ map (Pair m) qs" "concat qs = b" "list_all (\<lambda>p. length p \<le> k) qs"
    using assms unfolding pieces_added_def by blast
  then show ?thesis unfolding pieces_added_def by (intro exI [of _ "ps @ qs"]) simp
qed

lemma pieces_one: "wire v = wire w @ [(m, d)] \<Longrightarrow> length d \<le> k \<Longrightarrow> pieces w v m k d"
  unfolding pieces_added_def by (rule exI [of _ "[d]"]) simp

lemma pieces_wire: "pieces u v m k a \<Longrightarrow> wire u = wire w \<Longrightarrow> pieces w v m k a"
  unfolding pieces_added_def by simp

text \<open>A state reached from \<open>w\<close> that has sent \<open>a\<close>, a part of \<open>d\<close> or all of it.\<close>

definition sent_part :: "'w \<Rightarrow> 'w \<Rightarrow> nat \<Rightarrow> bytes \<Rightarrow> (ErrorKind + unit) \<Rightarrow> bool" where
  "sent_part w v k d r \<longleftrightarrow> maxseg v = maxseg w \<and> settable v = settable w \<and> patience v \<le> patience w \<and>
    (\<exists>a. pieces w v (maxseg w) k a \<and> prefix a d \<and> (r = Inr () \<longrightarrow> a = d))"

lemma sent_nothing: "wire v = wire w \<Longrightarrow> maxseg v = maxseg w \<Longrightarrow> settable v = settable w \<Longrightarrow> patience v \<le> patience w \<Longrightarrow>
    sent_part w v k d (Inl e)"
  unfolding sent_part_def by (auto intro: exI [of _ "[]"] pieces_refl)

lemma sent_later:
  assumes "sent_part u v k d r" "wire u = wire w" "maxseg u = maxseg w" "settable u = settable w" "patience u \<le> patience w"
  shows "sent_part w v k d r"
  using assms pieces_wire unfolding sent_part_def by fastforce

lemma sent_more:
  assumes "pieces w u (maxseg w) k b" "maxseg u = maxseg w" "settable u = settable w" "patience u \<le> patience w" "sent_part u v k d r"
  shows "sent_part w v k (b @ d) r"
proof -
  obtain a where "pieces u v (maxseg u) k a" "prefix a d" "r = Inr () \<longrightarrow> a = d"
    using assms(5) unfolding sent_part_def by blast
  moreover from this(1) have "pieces w v (maxseg w) k (b @ a)" using pieces_trans assms(1,2) by metis
  ultimately show ?thesis using assms(2-5) unfolding sent_part_def by (auto intro: exI [of _ "b @ a"])
qed

lemma fragment_sends:
  assumes "length d \<le> k"
  shows "\<exists>r v. send_fragment sys d w = Some (r, v) \<and> sent_part w v k d r"
  using assms
proof (induction "length d + patience w" arbitrary: d w rule: less_induct)
  case less
  show ?case
  proof (cases "d = []")
    case True
    then show ?thesis by (subst send_fragment.simps) (auto simp: sent_part_def intro: pieces_refl)
  next
    case False
    obtain x u where x: "sys_writable sys w = (x, u)" by fastforce
    obtain y v where y: "sys_send sys d u = (y, v)" by fastforce
    note wr = writable [OF x] and ns = not_sent [OF y False]
    note step = send_fragment.simps [of sys d w]
    have again: ?thesis if "send_fragment sys d w = send_fragment sys d v" "y = Would_Block \<or> y = Interrupted"
    proof -
      have v: "wire v = wire w" "maxseg v = maxseg w" "settable v = settable w" "patience v < patience w" using ns wr that(2) by auto
      obtain r t where "send_fragment sys d v = Some (r, t)" "sent_part v t k d r"
        using less.hyps [of d v] less.prems v(4) by auto
      then show ?thesis using that(1) sent_later v by fastforce
    qed
    have stop: ?thesis if "send_fragment sys d w = Some (Inl e, t)" "sent_part w t k d (Inl e)" for e t
      using that by blast
    show ?thesis
    proof (cases x)
      case (Inl e)
      then show ?thesis using stop [of e u] sent_nothing [of u w] wr x False step by simp
    next
      case (Inr a)
      show ?thesis
      proof (cases y)
        case (Send_Err e)
        then show ?thesis using stop [of e v] sent_nothing [of v w] wr ns x y Inr False step by simp
      next
        case (Sent n)
        have s: "n \<le> length d" "wire v = (if n = 0 then wire w else wire w @ [(maxseg w, take n d)])"
            "maxseg v = maxseg w" "patience v \<le> patience w" "settable v = settable w"
          using sent [OF y [unfolded Sent] False] wr by auto
        obtain z t where z: "sys_nodelay sys v = (z, t)" by fastforce
        note nd = nodelay [OF z]
        show ?thesis
        proof (cases "n = 0")
          case True
          then show ?thesis using stop [of WriteZero v] sent_nothing [of v w] s Sent x y Inr False step by simp
        next
          case n: False
          have p: "pieces w t (maxseg w) k (take n d)" using nd s(2) n less.prems by (intro pieces_one) simp_all
          have sp: "sent_part w t k d (Inl e)" for e
            using p nd s(3-5) take_is_prefix [of n d] unfolding sent_part_def by auto
          show ?thesis
          proof (cases z)
            case (Inl e)
            then show ?thesis using stop [of e t] sp x y z Sent \<open>x = Inr a\<close> n False step by simp
          next
            case (Inr b)
            have "length (drop n d) + patience t < length d + patience w"
              using n False nd s(4) by (cases d) auto
            then obtain r o' where r: "send_fragment sys (drop n d) t = Some (r, o')" "sent_part t o' k (drop n d) r"
              using less.hyps [of "drop n d" t] less.prems le_trans [OF diff_le_self] by (metis length_drop)
            have "sent_part w o' k (take n d @ drop n d) r" using sent_more [OF p _ _ _ r(2)] nd s(3-5) by simp
            then show ?thesis using r(1) x y z Sent \<open>x = Inr a\<close> Inr n False step by simp
          qed
        qed
      next
        case Would_Block
        then show ?thesis using again x y Inr False step by simp
      next
        case Interrupted
        then show ?thesis using again x y Inr False step by simp
      qed
    qed
  qed
qed

lemma fragments_send:
  assumes "list_all (\<lambda>d. length d \<le> k) ds"
  shows "\<exists>r v. send_fragments sys ds w = Some (r, v) \<and> sent_part w v k (concat ds) r"
  using assms
proof (induction ds arbitrary: w)
  case Nil
  then show ?case by (auto simp: sent_part_def intro: pieces_refl)
next
  case (Cons d ds)
  obtain r u where r: "send_fragment sys d w = Some (r, u)" "sent_part w u k d r"
    using fragment_sends [of d k w] Cons.prems by auto
  show ?case
  proof (cases r)
    case (Inl e)
    then show ?thesis using r prefix_prefix [of _ d] unfolding sent_part_def by fastforce
  next
    case (Inr a)
    have p: "pieces w u (maxseg w) k d" "maxseg u = maxseg w" "settable u = settable w" "patience u \<le> patience w"
      using r(2) Inr unfolding sent_part_def by auto
    obtain r' v where "send_fragments sys ds u = Some (r', v)" "sent_part u v k (concat ds) r'"
      using Cons.IH [of u] Cons.prems by auto
    then show ?thesis using sent_more [OF p] r(1) Inr by fastforce
  qed
qed

text \<open>The whole call, and the segment size afterwards.\<close>

lemma restore_effect:
  assumes "guard_restore sys g w = (r, v)"
  shows "wire v = wire w" "\<not> mss_changed g \<Longrightarrow> r = Inr () \<and> maxseg v = maxseg w"
    "mss_changed g \<Longrightarrow> r = Inr () \<or> settable w \<longrightarrow> maxseg v = mss_original g"
proof -
  obtain x u where x: "sys_set_maxseg sys (mss_original g) w = (x, u)" by fastforce
  obtain y t where y: "sys_set_maxseg sys (mss_original g) u = (y, t)" by fastforce
  note l = set_maxseg [OF x] set_maxseg [OF y]
  show "wire v = wire w" "\<not> mss_changed g \<Longrightarrow> r = Inr () \<and> maxseg v = maxseg w"
    "mss_changed g \<Longrightarrow> r = Inr () \<or> settable w \<longrightarrow> maxseg v = mss_original g"
    using assms x y l by (auto simp: guard_restore_def guard_drop_def split: sum.splits if_splits)
qed

lemma install_effect:
  assumes "guard_install sys k w = (r, v)"
  shows "wire v = wire w"
    "settable w \<Longrightarrow> settable v" "r = Inl e \<Longrightarrow> maxseg v = maxseg w"
    "r = Inr g \<Longrightarrow> mss_original g = maxseg w \<and> maxseg v = min (int k) (maxseg w) \<and> (mss_changed g \<longleftrightarrow> int k < maxseg w)"
proof -
  obtain x u where x: "sys_get_maxseg sys w = (x, u)" by fastforce
  obtain y t where y: "sys_set_maxseg sys (int k) u = (y, t)" by fastforce
  note l = get_maxseg [OF x] set_maxseg [OF y]
  show "wire v = wire w" "settable w \<Longrightarrow> settable v" "r = Inl e \<Longrightarrow> maxseg v = maxseg w"
    "r = Inr g \<Longrightarrow> mss_original g = maxseg w \<and> maxseg v = min (int k) (maxseg w) \<and> (mss_changed g \<longleftrightarrow> int k < maxseg w)"
    using assms x y l by (auto simp: guard_install_def try_from_def Let_def split: sum.splits if_splits option.splits)
qed

lemma chunks_spec: "0 < k \<Longrightarrow> concat (chunks k d) = d \<and> list_all (\<lambda>c. length c \<le> k) (chunks k d)"
proof (induction k d rule: chunks.induct)
  case (1 k d)
  then show ?case by (subst (1 2) chunks.simps) auto
qed

lemma fragmented_send:
  "\<exists>r v a. send_tcp_fragmented_fd sys fd d k w = Some (r, v) \<and>
    pieces w v (min (int k) (maxseg w)) k a \<and> prefix a d \<and>
    (r = Inr () \<longrightarrow> a = d \<and> maxseg v = maxseg w) \<and>
    (settable w \<longrightarrow> maxseg v = maxseg w)"
proof -
  have stop: ?thesis if "send_tcp_fragmented_fd sys fd d k w = Some (r, v)" "wire v = wire w" "maxseg v = maxseg w"
      "r = Inr () \<longrightarrow> d = []" for r v
    using that by (intro exI [of _ r] exI [of _ v] exI [of _ "[]"]) (simp add: pieces_refl)
  obtain x1 w1 where 1: "sys_clone sys w = (x1, w1)" by fastforce
  obtain x2 w2 where 2: "sys_register sys w1 = (x2, w2)" by fastforce
  obtain x3 w3 where 3: "guard_install sys k w2 = (x3, w3)" by fastforce
  note l = clone [OF 1] register [OF 2] install_effect [OF 3]
  consider "k = 0 \<or> d = [] \<or> fd < 0" | e where "0 < k" "d \<noteq> []" "0 \<le> fd" "x1 = Inl e \<or> x2 = Inl e \<or> x3 = Inl e"
    | g where "0 < k" "d \<noteq> []" "0 \<le> fd" "x1 = Inr ()" "x2 = Inr ()" "x3 = Inr g"
    by (cases x1; cases x2; cases x3) force+
  then show ?thesis
  proof cases
    case 1
    then show ?thesis using stop [of _ w] by (auto simp: send_tcp_fragmented_fd_def)
  next
    case (2 e)
    then show ?thesis using stop l \<open>sys_clone sys w = _\<close> \<open>sys_register sys w1 = _\<close> 3
      by (cases x1; cases x2; cases x3) (simp_all add: send_tcp_fragmented_fd_def)
  next
    case c: (3 g)
    obtain r u where r: "send_fragments sys (chunks k d) w3 = Some (r, u)" "sent_part w3 u k d r"
      using fragments_send [of k "chunks k d" w3] chunks_spec [of k d] c(1) by auto
    obtain x v where x: "guard_restore sys g u = (x, v)" by fastforce
    note re = restore_effect [OF x]
    obtain a where a: "pieces w3 u (maxseg w3) k a" "prefix a d" "r = Inr () \<longrightarrow> a = d" and m: "maxseg u = maxseg w3" "settable u = settable w3"
      using r(2) unfolding sent_part_def by blast
    have "send_tcp_fragmented_fd sys fd d k w = Some (case r of Inl e \<Rightarrow> Inl e | Inr _ \<Rightarrow> x, v)"
      using c 1 2 3 r(1) x by (simp add: send_tcp_fragmented_fd_def)
    moreover have "pieces w v (min (int k) (maxseg w)) k a" using a(1) l re(1) c(6) by simp
    moreover have "maxseg v = maxseg w" if "x = Inr () \<or> settable w"
      using that re(2,3) l c(6) m by (cases "mss_changed g") (auto simp: min_def)
    ultimately show ?thesis using a(2,3) by (cases r) auto
  qed
qed

end

section \<open>A scripted socket\<close>

text \<open>
  A socket is given by the outcomes of its sends, of setting the segment size, and of all other calls.  A send takes at most the
  bytes it is offered; past the scripts everything succeeds.
\<close>

record tcp_sock =
  tk_wire :: "(int \<times> bytes) list"
  tk_maxseg :: int
  tk_sends :: "send_outcome list"
  tk_faults :: "ErrorKind option list"
  tk_set_faults :: "ErrorKind option list"

definition tk_call :: "'a \<Rightarrow> tcp_sock \<Rightarrow> (ErrorKind + 'a) \<times> tcp_sock" where
  "tk_call x t =
    (case tk_faults t of
       Some e # fs \<Rightarrow> (Inl e, t\<lparr>tk_faults := fs\<rparr>) | None # fs \<Rightarrow> (Inr x, t\<lparr>tk_faults := fs\<rparr>) | [] \<Rightarrow> (Inr x, t))"

definition tk_set :: "int \<Rightarrow> tcp_sock \<Rightarrow> (ErrorKind + unit) \<times> tcp_sock" where
  "tk_set m t =
    (case tk_set_faults t of
       Some e # fs \<Rightarrow> (Inl e, t\<lparr>tk_set_faults := fs\<rparr>)
     | None # fs \<Rightarrow> (Inr (), t\<lparr>tk_maxseg := m, tk_set_faults := fs\<rparr>)
     | [] \<Rightarrow> (Inr (), t\<lparr>tk_maxseg := m\<rparr>))"

definition tk_put :: "bytes \<Rightarrow> tcp_sock \<Rightarrow> tcp_sock" where
  "tk_put d t = (if d = [] then t else t\<lparr>tk_wire := tk_wire t @ [(tk_maxseg t, d)]\<rparr>)"

definition tk_send :: "bytes \<Rightarrow> tcp_sock \<Rightarrow> send_outcome \<times> tcp_sock" where
  "tk_send d t =
    (case tk_sends t of
       Sent n # ss \<Rightarrow> (Sent (min n (length d)), tk_put (take n d) (t\<lparr>tk_sends := ss\<rparr>))
     | s # ss \<Rightarrow> (s, t\<lparr>tk_sends := ss\<rparr>)
     | [] \<Rightarrow> (Sent (length d), tk_put d t))"

definition tcp_sys :: "tcp_sock sock_sys" where
  "tcp_sys = \<lparr>sys_clone = tk_call (), sys_register = tk_call (), sys_get_maxseg = (\<lambda>t. tk_call (tk_maxseg t) t),
     sys_set_maxseg = tk_set, sys_nodelay = tk_call (), sys_writable = tk_call (), sys_send = tk_send\<rparr>"

lemma tk_call_keeps:
  assumes "tk_call x t = (r, u)"
  shows "tk_wire u = tk_wire t" "tk_maxseg u = tk_maxseg t" "tk_sends u = tk_sends t" "tk_set_faults u = tk_set_faults t" "r = Inr y \<Longrightarrow> y = x"
  using assms by (auto simp: tk_call_def split: list.splits option.splits)

interpretation tcp: tcp_socket tcp_sys tk_wire tk_maxseg "\<lambda>t. length (tk_sends t)" "\<lambda>t. tk_set_faults t = []"
  by unfold_locales
    (auto simp: tcp_sys_def tk_set_def tk_send_def tk_put_def min_def dest: tk_call_keeps
      split: list.splits option.splits send_outcome.splits if_splits prod.splits sum.splits)

section \<open>Properties\<close>

text \<open>C31.
  Sending in fragments always returns, for every socket.  What reached the network is a prefix of the
  data, in pieces no longer than a fragment, each sent while the segment size was lowered to the
  fragment size.  If the call reports success the whole data was sent and the segment size is what it
  was before; and if setting it never fails it is put back on every path, errors included.
\<close>

theorem fragmented_send_delivers:
  "\<exists>r t' a. send_tcp_fragmented_fd tcp_sys fd data k t = Some (r, t') \<and>
    pieces_added (tk_wire t) (tk_wire t') (min (int k) (tk_maxseg t)) k a \<and> prefix a data \<and>
    (r = Inr () \<longrightarrow> a = data \<and> tk_maxseg t' = tk_maxseg t) \<and>
    (tk_set_faults t = [] \<longrightarrow> tk_maxseg t' = tk_maxseg t)"
  by (rule tcp.fragmented_send)

theorem fragmented_send_delivers_witness:
  "\<exists>t'. send_tcp_fragmented_fd tcp_sys 5 [1, 2, 3] 2
      \<lparr>tk_wire = [], tk_maxseg = 1400, tk_sends = [Would_Block, Sent 1], tk_faults = [], tk_set_faults = []\<rparr> = Some (Inr (), t') \<and>
    pieces_added [] (tk_wire t') 2 2 [1, 2, 3] \<and> tk_maxseg t' = 1400"
proof -
  define t where "t = \<lparr>tk_wire = [], tk_maxseg = 1400, tk_sends = [Would_Block, Sent 1], tk_faults = [], tk_set_faults = []\<rparr>"
  have c: "chunks 2 [1, 2, 3] = [[1, 2], [3 :: byte]]" by (simp add: chunks.simps)
  have "\<exists>t'. send_tcp_fragmented_fd tcp_sys 5 [1, 2, 3] 2 t = Some (Inr (), t')"
    by (simp add: send_tcp_fragmented_fd_def c t_def tcp_sys_def guard_install_def guard_restore_def guard_drop_def try_from_def
      C_INT_MAX_def tk_call_def tk_set_def tk_send_def tk_put_def send_fragment.simps Let_def)
  with fragmented_send_delivers [of 5 "[1, 2, 3]" 2 t] show ?thesis by (fastforce simp: t_def)
qed

end
