(* ===== verification/Tls_Handshake.thy ===== *)
theory Tls_Handshake
  imports Proxy_Config Tls_Emulator Tls_Validate Fragmented_Send
begin

text \<open>
  The FakeTLS handshake of a client (\<open>src/proxy/handshake/tls_handshake.rs\<close>, with the check of one
  secret from \<open>tls_auth.rs\<close> and the search for the user from \<open>tls_validation.rs\<close>): throttle, server
  name policy, authentication, replay check, choice of key share and suite, the response, and the
  record streams handed on.

  The handler is a step on the state it shares with other connections, the random source, the front
  cache and the socket; \<^term>\<open>None\<close> stands for a panic or a call below it that never returns.  It
  is split at the point where the code waits for the lock of the front cache: other connections may
  come between the two halves.  Waiting before an answer and logging leave no trace in the state
  and are left out.
\<close>

section \<open>One secret (\<open>tls_auth.rs\<close>)\<close>

definition TLS_DIGEST_HALF_LEN :: nat where "TLS_DIGEST_HALF_LEN = 16"

record ParsedTlsAuthMaterial =
  pa_digest :: bytes
  pa_session_id :: bytes
  pa_session_id_len :: nat
  pa_now :: int
  pa_ignore_time_skew :: bool
  pa_boot_time_cap_secs :: nat

record TlsCandidateValidation =
  cv_digest :: bytes
  cv_session_id :: bytes
  cv_session_id_len :: nat

definition parse_tls_auth_material :: "nat option \<Rightarrow> bytes \<Rightarrow> bool \<Rightarrow> nat \<Rightarrow> ParsedTlsAuthMaterial option" where
  "parse_tls_auth_material clock handshake ignore_skew window_secs =
    (if length handshake < TLS_DIGEST_POS + TLS_DIGEST_LEN + 1 then None
     else
       let digest = take TLS_DIGEST_LEN (drop TLS_DIGEST_POS handshake);
           session_id_len_pos = TLS_DIGEST_POS + TLS_DIGEST_LEN;
           session_id_len = unat (handshake ! session_id_len_pos)
       in if 32 < session_id_len then None
          else
            let session_id_start = session_id_len_pos + 1 in
            if length handshake < session_id_start + session_id_len then None
            else
              let session_id = take session_id_len (drop session_id_start handshake) @ replicate (32 - session_id_len) 0
              in case (if \<not> ignore_skew then system_time_to_unix_secs clock else Some 0) of
                   None \<Rightarrow> None
                 | Some now \<Rightarrow>
                     let replay_window_u32 = (case try_from U32_MAX window_secs of Some w \<Rightarrow> w | None \<Rightarrow> U32_MAX);
                         boot_time_cap_secs = (if ignore_skew then 0
                           else min (min BOOT_TIME_MAX_SECS replay_window_u32) BOOT_TIME_COMPAT_MAX_SECS)
                     in Some \<lparr>pa_digest = digest, pa_session_id = session_id, pa_session_id_len = session_id_len,
                          pa_now = now, pa_ignore_time_skew = ignore_skew, pa_boot_time_cap_secs = boot_time_cap_secs\<rparr>)"

definition compute_tls_hmac_zeroed_digest where
  "compute_tls_hmac_zeroed_digest hm secret handshake =
    sha256_hmac hm secret (take TLS_DIGEST_POS handshake @ replicate TLS_DIGEST_LEN 0
      @ drop (TLS_DIGEST_POS + TLS_DIGEST_LEN) handshake)"

definition validate_tls_secret_candidate where
  "validate_tls_secret_candidate hm parsed handshake secret =
    (let computed = compute_tls_hmac_zeroed_digest hm secret handshake in
     if take 28 (pa_digest parsed) \<noteq> take 28 computed then None
     else
       let timestamp = le_nat [pa_digest parsed ! 28 XOR computed ! 28, pa_digest parsed ! 29 XOR computed ! 29,
             pa_digest parsed ! 30 XOR computed ! 30, pa_digest parsed ! 31 XOR computed ! 31];
           ok = Some \<lparr>cv_digest = pa_digest parsed, cv_session_id = pa_session_id parsed,
                  cv_session_id_len = pa_session_id_len parsed\<rparr>
       in if \<not> pa_ignore_time_skew parsed then
            let is_boot_time = (0 < pa_boot_time_cap_secs parsed \<and> timestamp < pa_boot_time_cap_secs parsed) in
            if \<not> is_boot_time then
              let time_diff = pa_now parsed - int timestamp in
              if \<not> (TIME_SKEW_MIN \<le> time_diff \<and> time_diff \<le> TIME_SKEW_MAX) then None else ok
            else ok
          else ok)"

section \<open>The user (\<open>tls_validation.rs\<close>)\<close>

record TlsClientValidation =
  tc_digest :: bytes
  tc_session_id :: bytes
  tc_session_id_len :: nat
  tc_user :: bytes
  tc_secret :: bytes
  tc_user_id :: "nat option"

text \<open>The further clock readings of a FakeTLS handshake.\<close>

record tls_clock = hs_clock +
  log_now :: instant
  add_now :: instant
  cert_now :: instant
  wall_secs :: "nat option"
  epoch_secs :: "nat option"

text \<open>With the snapshot of the running configuration, and without one.\<close>

definition tls_client_with_snapshot where
  "tls_client_with_snapshot W hm ck handshake peer cfg preferred_user_hint client_sni snap sh =
    (case parse_tls_auth_material (wall_secs ck) handshake (ignore_time_skew cfg) (replay_window_secs cfg) of
       None \<Rightarrow> (None, auth_probe_record_failure (w_probe W) (fst peer) (failure_now ck) sh)
     | Some parsed \<Rightarrow>
         let sticky_ip = sticky_hint_get_by_ip sh (fst peer);
             preferred_id = Option.bind preferred_user_hint (user_id_by_name snap);
             sticky_sni = Option.bind client_sni (sticky_hint_get_by_sni (w_sip W) sh);
             sticky_prefix = sticky_hint_get_by_ip_prefix sh (fst peer);
             by_sni = Option.bind client_sni (sni_candidates (w_sip W) snap);
             by_initial = Option.bind client_sni (sni_initial_candidates snap);
             has_hint = (sticky_ip \<noteq> None \<or> preferred_id \<noteq> None \<or> sticky_sni \<noteq> None \<or> sticky_prefix \<noteq> None \<or>
               (case by_sni of Some ids \<Rightarrow> ids \<noteq> [] | None \<Rightarrow> False) \<or>
               (case by_initial of Some ids \<Rightarrow> ids \<noteq> [] | None \<Rightarrow> False));
             (overload, sh) = auth_probe_saturation_is_throttled (overload_now ck) sh;
             budget = budget_for_validation (length (ua_entries snap)) overload has_hint;
             (matched, sc) = tls_search snap (validate_tls_secret_candidate hm parsed handshake) budget
               sticky_ip preferred_id sticky_sni sticky_prefix by_sni by_initial sh;
             sh = sh\<lparr>auth_expensive_checks_total := (auth_expensive_checks_total sh + sc_checks sc) mod 2 ^ 64\<rparr>;
             sh = (if sc_exhausted sc
                   then sh\<lparr>auth_budget_exhausted_total := (auth_budget_exhausted_total sh + 1) mod 2 ^ 64\<rparr> else sh)
         in case matched of
              None \<Rightarrow>
                let sh = auth_probe_note_expensive_invalid_scan (failure_now ck) (sc_checks sc) overload sh
                in (None, auth_probe_record_failure (w_probe W) (fst peer) (failure_now ck) sh)
            | Some (user_id, entry, v) \<Rightarrow>
                (Some \<lparr>tc_digest = cv_digest v, tc_session_id = cv_session_id v, tc_session_id_len = cv_session_id_len v,
                   tc_user = ua_user entry, tc_secret = ua_secret entry, tc_user_id = Some user_id\<rparr>, sh))"

definition tls_client_without_snapshot where
  "tls_client_without_snapshot W hm ck handshake peer cfg preferred_user_hint sh =
    (let (secrets, sh) = decode_user_secrets (w_hexd W) (users cfg) preferred_user_hint sh
     in do {
       v \<leftarrow> validate_tls_handshake_with_replay_window hm (wall_secs ck) handshake secrets (ignore_time_skew cfg) (replay_window_secs cfg);
       case v of
         None \<Rightarrow> Some (None, auth_probe_record_failure (w_probe W) (fst peer) (failure_now ck) sh)
       | Some v \<Rightarrow>
           (case find (\<lambda>(name, _). name = tv_user v) secrets of
              None \<Rightarrow> Some (None, sh)
            | Some (_, s) \<Rightarrow>
                if length s \<noteq> ACCESS_SECRET_BYTES then Some (None, sh)
                else if 32 < length (tv_session_id v) then Some (None, sh)
                else Some (Some \<lparr>tc_digest = tv_digest v,
                       tc_session_id = tv_session_id v @ replicate (32 - length (tv_session_id v)) 0,
                       tc_session_id_len = length (tv_session_id v), tc_user = tv_user v, tc_secret = s,
                       tc_user_id = None\<rparr>, sh)) })"

definition validate_tls_client where
  "validate_tls_client W hm ck handshake peer cfg preferred_user_hint client_sni sh =
    do {
      (v, sh) \<leftarrow> (case runtime_user_auth cfg of
          Some snap \<Rightarrow> Some (tls_client_with_snapshot W hm ck handshake peer cfg preferred_user_hint client_sni snap sh)
        | None \<Rightarrow> tls_client_without_snapshot W hm ck handshake peer cfg preferred_user_hint sh);
      case v of
        None \<Rightarrow> Some (None, sh)
      | Some v \<Rightarrow>
          if is_user_source_ip_denied (w_contains W) cfg (tc_user v) (fst peer)
          then Some (None, auth_probe_record_failure (w_probe W) (fst peer) (failure_now ck) sh)
          else Some (Some v, sh) }"

section \<open>The policy on the hello\<close>

definition eq_ignore_ascii_case :: "bytes \<Rightarrow> bytes \<Rightarrow> bool" where
  "eq_ignore_ascii_case a b \<longleftrightarrow> map to_ascii_lowercase a = map to_ascii_lowercase b"

definition find_matching_tls_domain :: "'n ProxyConfig \<Rightarrow> bytes \<Rightarrow> bytes option" where
  "find_matching_tls_domain cfg sni =
    (if eq_ignore_ascii_case (tls_domain cfg) sni then Some (tls_domain cfg)
     else find (\<lambda>domain. eq_ignore_ascii_case domain sni) (tls_domains cfg))"

definition h2 :: bytes where "h2 = map of_char ''h2''"
definition http11 :: bytes where "http11 = map of_char ''http/1.1''"

text \<open>The protocol to answer with; \<^term>\<open>None\<close> if the client offers only unknown ones.\<close>

definition select_alpn :: "'n ProxyConfig \<Rightarrow> bytes list \<Rightarrow> bytes option option" where
  "select_alpn cfg alpn_list =
    (if alpn_enforce cfg then
       if h2 \<in> set alpn_list then Some (Some h2)
       else if http11 \<in> set alpn_list then Some (Some http11)
       else if alpn_list \<noteq> [] then None
       else Some None
     else Some None)"

definition TLS_ALERT_UNRECOGNIZED_NAME :: bytes where
  "TLS_ALERT_UNRECOGNIZED_NAME = [0x15, 0x03, 0x03, 0x00, 0x02, 0x02, 0x70]"

section \<open>The handler\<close>

record TlsResponseWriteOptions =
  socket_fd :: "int option"
  fragment_size :: "nat option"

definition TlsResponseWriteOptions_default :: TlsResponseWriteOptions where
  "TlsResponseWriteOptions_default = \<lparr>socket_fd = None, fragment_size = None\<rparr>"

definition TlsResponseWriteOptions_tcp :: "int \<Rightarrow> nat option \<Rightarrow> TlsResponseWriteOptions" where
  "TlsResponseWriteOptions_tcp fd fragment = \<lparr>socket_fd = map_option (\<lambda>_. fd) fragment, fragment_size = fragment\<rparr>"

text \<open>What the handler takes from outside on top of \<open>world\<close>, and the state it works on.\<close>

record ('k, 'e, 's, 'd, 'w) tls_env =
  te_hm :: "bytes \<Rightarrow> bytes \<Rightarrow> nat \<Rightarrow> byte"
  te_crc :: "bytes \<Rightarrow> 32 word"
  te_kx :: "('k, 'e) kx_ops"
  te_rand :: "('s, 'd) rand_ops"
  te_ip_hash :: "IpAddr \<Rightarrow> nat"
  te_wops :: "'w writer_ops"
  te_sys :: "'w sock_sys"

record ('c, 's, 'd) tls_state =
  ts_shared :: HandshakeSharedState
  ts_replay :: "'c ReplayChecker"
  ts_rng :: "('s, 'd) SecureRandomInner"
  ts_cache :: "TlsFrontCache option"

definition write_tls_response ::
  "'w writer_ops \<Rightarrow> 'w sock_sys \<Rightarrow> 'w \<Rightarrow> bytes \<Rightarrow> TlsResponseWriteOptions \<Rightarrow> ((ErrorKind + unit) \<times> 'w) option" where
  "write_tls_response wops sys writer response options =
    (case (socket_fd options, fragment_size options) of
       (Some fd, Some fragment) \<Rightarrow> send_tcp_fragmented_fd sys fd response fragment writer
     | _ \<Rightarrow> do {
         (r, writer) \<leftarrow> await_write_all wops writer response;
         case r of Inl e \<Rightarrow> Some (Inl e, writer) | Inr _ \<Rightarrow> await_flush wops writer })"

definition note_failure where
  "note_failure W ck peer st =
    st\<lparr>ts_shared := auth_probe_record_failure (w_probe W) (fst peer) (failure_now ck) (ts_shared st)\<rparr>"

text \<open>A hello for an unknown name, by any action but \<open>Accept\<close>.  The last component is the socket.\<close>

definition refuse_unknown_sni where
  "refuse_unknown_sni W E ck reader writer peer action st =
    (let st = note_failure W ck peer st;
         st = st\<lparr>ts_shared := snd (should_emit_unknown_sni_warn (log_now ck) (ts_shared st))\<rparr>
     in do {
       writer \<leftarrow> (if action = RejectHandshake then do {
            (r, writer) \<leftarrow> await_write_all (te_wops E) writer TLS_ALERT_UNRECOGNIZED_NAME;
            case r of Inl _ \<Rightarrow> Some writer | Inr _ \<Rightarrow> map_option snd (await_flush (te_wops E) writer) }
          else Some writer);
       Some (if action = Mask then BadClient reader writer else HandshakeError UnknownTlsSni, st, writer) })"

text \<open>What is known of a hello once it is accepted.\<close>

record admitted =
  ad_validation :: TlsClientValidation
  ad_domain :: "bytes option"
  ad_sni :: "bytes option"
  ad_alpn :: "bytes option"
  ad_version :: ClientHelloTlsVersion

text \<open>Up to the replay check: a result, or the accepted hello.\<close>

definition admit_tls where
  "admit_tls W E ck handshake reader writer peer cfg st =
    (let (throttled, sh) = auth_probe_should_apply_preauth_throttle (fst peer) (throttle_now ck) (ts_shared st);
         st = st\<lparr>ts_shared := sh\<rparr>
     in if throttled then Some (Inl (BadClient reader writer), st, writer)
     else if length handshake < TLS_DIGEST_POS + TLS_DIGEST_LEN + 1
     then Some (Inl (BadClient reader writer), note_failure W ck peer st, writer)
     else do {
       client_sni \<leftarrow> extract_sni_from_client_hello handshake;
       let preferred_user_hint = Option.bind client_sni (\<lambda>sni. if map_of (users cfg) sni \<noteq> None then Some sni else None);
       let matched_tls_domain = Option.bind client_sni (find_matching_tls_domain cfg);
       alpn_list \<leftarrow> (if alpn_enforce cfg then extract_alpn_from_client_hello handshake else Some []);
       case select_alpn cfg alpn_list of
         None \<Rightarrow> Some (Inl (BadClient reader writer), st, writer)
       | Some selected_alpn \<Rightarrow> do {
           version \<leftarrow> detect_client_hello_tls_version handshake;
           let client_tls_version = (case version of Some v \<Rightarrow> v | None \<Rightarrow> Tls13);
           if client_sni \<noteq> None \<and> matched_tls_domain = None \<and> preferred_user_hint = None \<and> unknown_sni_action cfg \<noteq> Accept
           then map_option (\<lambda>(r, st, writer). (Inl r, st, writer))
                  (refuse_unknown_sni W E ck reader writer peer (unknown_sni_action cfg) st)
           else do {
             (validation, sh) \<leftarrow> validate_tls_client W (te_hm E) ck handshake peer cfg preferred_user_hint client_sni (ts_shared st);
             let st = st\<lparr>ts_shared := sh\<rparr>;
             case validation of
               None \<Rightarrow> Some (Inl (BadClient reader writer), st, writer)
             | Some v \<Rightarrow> do {
                 (replayed, rc) \<leftarrow> check_tls_digest (w_lru W) (w_replay_hash W) (w_base W) (replay_now ck)
                    (take TLS_DIGEST_HALF_LEN (tc_digest v)) (ts_replay st);
                 let st = st\<lparr>ts_replay := rc\<rparr>;
                 if replayed then Some (Inl (BadClient reader writer), note_failure W ck peer st, writer)
                 else Some (Inr \<lparr>ad_validation = v, ad_domain = matched_tls_domain, ad_sni = client_sni,
                        ad_alpn = selected_alpn, ad_version = client_tls_version\<rparr>, st, writer) } } } })"

definition cached_entry_for where
  "cached_entry_for cfg matched_tls_domain front =
    (if tls_emulation cfg
     then map_option (\<lambda>c. cache_get c (case matched_tls_domain of Some d \<Rightarrow> d | None \<Rightarrow> tls_domain cfg)) front
     else None)"

definition preferred_suite :: "CachedTlsData option \<Rightarrow> bytes" where
  "preferred_suite cached =
    (case cached of
       Some e \<Rightarrow> if sh_cipher_suite (server_hello_template e) = [0, 0] then [0x13, 0x01]
                 else sh_cipher_suite (server_hello_template e)
     | None \<Rightarrow> [0x13, 0x01])"

text \<open>Whether the full certificate may be sent; asked only where a compact one could be.\<close>

definition take_full_cert where
  "take_full_cert E ck peer cfg version cached front =
    (case (cached, front) of
       (Some _, Some c) \<Rightarrow>
         if serverhello_compact cfg \<and> version = Tls12
         then let (full, c) = take_full_cert_budget_for_ip (te_ip_hash E) (cert_now ck)
                    (case epoch_secs ck of Some s \<Rightarrow> s | None \<Rightarrow> 0) (fst peer)
                    (from_secs (tls_full_cert_ttl_secs cfg)) c
              in (full, Some c)
         else (True, front)
     | _ \<Rightarrow> (True, front))"

definition build_tls_response where
  "build_tls_response E cfg v alpn version cached full suite ks rng =
    (case cached of
       Some e \<Rightarrow>
         build_emulated_server_hello (te_hm E) (te_crc E) (te_rand E) (tc_secret v) (tc_digest v)
           (take (tc_session_id_len v) (tc_session_id v)) e full (serverhello_compact cfg) version suite ks alpn
           (tls_new_session_tickets cfg) rng
     | None \<Rightarrow>
         build_server_hello_with_cipher (te_hm E) (tc_secret v) (tc_digest v)
           (take (tc_session_id_len v) (tc_session_id v)) (fake_cert_len cfg) (te_rand E) suite ks alpn
           (tls_new_session_tickets cfg) rng)"

fun record_profile_of :: "TlsFingerprintProfile \<Rightarrow> TlsRecordProfile" where
  "record_profile_of FP_Chrome = Chrome"
| "record_profile_of FP_Firefox = Firefox"
| "record_profile_of FP_Compat = Compat"
| "record_profile_of FP_Legacy = Legacy"

definition finish_tls where
  "finish_tls W E reader writer peer cfg ad st =
    (let v = ad_validation ad;
         sh = auth_probe_record_success (fst peer) (ts_shared st);
         sh = (case tc_user_id v of
                 None \<Rightarrow> sh
               | Some uid \<Rightarrow> record_recent_user_success uid (sticky_hint_record_success (w_sip W) (fst peer) uid (ad_sni ad) sh));
         profile = (case Option.bind (ad_domain ad) (map_of (tls_fingerprints cfg)) of
                      Some p \<Rightarrow> record_profile_of p | None \<Rightarrow> Chrome);
         (jitter_seed_bytes, rng) = fill (te_rand E) 8 (ts_rng st);
         jitter_seed = of_nat (le_nat jitter_seed_bytes)
     in (Success (FakeTlsReader_new reader, FakeTlsWriter_with_profile writer profile jitter_seed, tc_user v),
         st\<lparr>ts_shared := sh, ts_rng := rng\<rparr>, writer))"

text \<open>From the front cache to the end.\<close>

definition answer_tls where
  "answer_tls W E ck handshake reader writer peer cfg options ad st =
    (let v = ad_validation ad;
         cached = cached_entry_for cfg (ad_domain ad) (ts_cache st);
         (key_share, rng) = build_server_hello_key_share (te_kx E) handshake
           (Option.bind cached profiled_server_hello_key_share_group) (te_rand E) (ts_rng st);
         st = st\<lparr>ts_rng := rng\<rparr>
     in do {
       key_share \<leftarrow> key_share;
       case key_share of
         None \<Rightarrow> Some (BadClient reader writer, note_failure W ck peer st, writer)
       | Some ks \<Rightarrow> do {
           suite \<leftarrow> select_server_hello_cipher_suite handshake (preferred_suite cached);
           case suite of
             None \<Rightarrow> Some (BadClient reader writer, note_failure W ck peer st, writer)
           | Some suite \<Rightarrow> do {
               let (full, front) = take_full_cert E ck peer cfg (ad_version ad) cached (ts_cache st);
               let st = st\<lparr>ts_cache := front\<rparr>;
               rc \<leftarrow> add_tls_digest (w_lru W) (w_replay_hash W) (w_base W) (add_now ck)
                 (take TLS_DIGEST_HALF_LEN (tc_digest v)) (ts_replay st);
               let st = st\<lparr>ts_replay := rc\<rparr>;
               let (response, rng) = build_tls_response E cfg v (ad_alpn ad) (ad_version ad) cached full suite ks (ts_rng st);
               let st = st\<lparr>ts_rng := rng\<rparr>;
               response \<leftarrow> response;
               (written, writer) \<leftarrow> write_tls_response (te_wops E) (te_sys E) writer response options;
               case written of
                 Inl e \<Rightarrow> Some (HandshakeError (Io e), st, writer)
               | Inr _ \<Rightarrow> Some (finish_tls W E reader writer peer cfg ad st) } } })"

definition handle_tls_handshake_impl where
  "handle_tls_handshake_impl W E ck handshake reader writer peer cfg options st = do {
     (r, st, writer) \<leftarrow> admit_tls W E ck handshake reader writer peer cfg st;
     case r of
       Inl r \<Rightarrow> Some (r, st, writer)
     | Inr ad \<Rightarrow> answer_tls W E ck handshake reader writer peer cfg options ad st }"

definition handle_tls_handshake_with_shared where
  "handle_tls_handshake_with_shared W E ck handshake reader writer peer cfg st =
    handle_tls_handshake_impl W E ck handshake reader writer peer cfg TlsResponseWriteOptions_default st"

definition handle_tls_handshake_with_shared_and_options where
  "handle_tls_handshake_with_shared_and_options W E ck handshake reader writer peer cfg options st =
    handle_tls_handshake_impl W E ck handshake reader writer peer cfg options st"

end
