(* ===== verification/Tls_Emulator_Props.thy ===== *)
theory Tls_Emulator_Props
  imports Tls_Emulator
begin

text \<open>
  What the imitated response promises: it is a well-formed flight that the client can verify,
  whatever is remembered of the site, its records have sizes in range, and a certificate payload is
  carried whole.
\<close>

section \<open>Sizes\<close>

definition sizes_ok :: "nat list \<Rightarrow> bool" where
  "sizes_ok sizes \<longleftrightarrow> list_all (\<lambda>n. MIN_APP_DATA \<le> n \<and> n \<le> MAX_APP_DATA) sizes"

lemma sizes_ok_simps [simp]:
  "sizes_ok []" "sizes_ok (n # ns) = (MIN_APP_DATA \<le> n \<and> n \<le> MAX_APP_DATA \<and> sizes_ok ns)"
  "sizes_ok (a @ b) = (sizes_ok a \<and> sizes_ok b)"
  by (auto simp: sizes_ok_def)

lemma app_range: "MIN_APP_DATA \<le> MAX_APP_DATA" by (simp add: app_consts)

lemma clamp_size_range [simp]: "MIN_APP_DATA \<le> clamp_size n" "clamp_size n \<le> MAX_APP_DATA"
  using app_range by (auto simp: clamp_size_def)

lemma jitter_sizes_ok: "sizes_ok (fst (jitter_and_clamp_sizes ops sizes st))"
proof (induction sizes arbitrary: st)
  case (Cons n sizes)
  have "MIN_APP_DATA \<le> nat (max (int MIN_APP_DATA) (min (int MAX_APP_DATA) x)) \<and>
      nat (max (int MIN_APP_DATA) (min (int MAX_APP_DATA) x)) \<le> MAX_APP_DATA" for x
    using app_range by linarith
  then show ?case using Cons.IH by (simp add: Let_def split_def)
qed simp

lemma jitter_length [simp]: "length (fst (jitter_and_clamp_sizes ops sizes st)) = length sizes"
  by (induction sizes arbitrary: st) (simp_all add: Let_def split_def)

lemma emulated_sizes_ok:
  "sizes_ok (fst (emulated_sizes ops cached st))" "fst (emulated_sizes ops cached st) \<noteq> []"
proof -
  have c: "sizes_ok (map clamp_size ns)" for ns by (induction ns) simp_all
  have n: "length (emulated_app_data_sizes cached) = 1"
    by (auto simp: emulated_app_data_sizes_def fallback_family_app_data_sizes_def split: list.split)
  show "sizes_ok (fst (emulated_sizes ops cached st))"
    using c by (simp add: emulated_sizes_def Let_def jitter_sizes_ok)
  have "length (fst (emulated_sizes ops cached st)) = 1" using n by (simp add: emulated_sizes_def Let_def)
  then show "fst (emulated_sizes ops cached st) \<noteq> []" by auto
qed

lemma capacity_simps [simp]:
  "app_data_body_capacity [] = 0" "app_data_body_capacity (n # ns) = n - 17 + app_data_body_capacity ns"
  "app_data_body_capacity (a @ b) = app_data_body_capacity a + app_data_body_capacity b"
  by (simp_all add: app_data_body_capacity_def)

lemma push_chunks_spec:
  assumes "sizes_ok sizes" "app_data_body_capacity sizes = t"
  shows "sizes_ok (push_chunks n t sizes) \<and> n \<le> app_data_body_capacity (push_chunks n t sizes) \<and>
    (push_chunks n t sizes = [] \<longrightarrow> sizes = [])"
  using assms
proof (induction n t sizes rule: push_chunks.induct)
  case (1 n t sizes)
  show ?case
  proof (cases "t < n")
    case True
    then show ?thesis using "1.IH" [OF True refl refl] "1.prems" by (subst (1 2 3) push_chunks.simps) (simp add: Let_def)
  next
    case False
    then show ?thesis using "1.prems" by (subst (1 2 3) push_chunks.simps) simp
  qed
qed

lemma ensure_capacity_spec:
  assumes "sizes_ok sizes" "sizes \<noteq> []"
  shows "sizes_ok (ensure_payload_capacity sizes n)" "n \<le> app_data_body_capacity (ensure_payload_capacity sizes n)"
    "ensure_payload_capacity sizes n \<noteq> []"
proof -
  let ?b = "app_data_body_capacity sizes"
  let ?g = "min (MAX_APP_DATA - last sizes) (n - ?b)"
  let ?s = "butlast sizes @ [last sizes + ?g]"
  have s: "sizes = butlast sizes @ [last sizes]" using assms(2) by simp
  have l: "sizes_ok (butlast sizes)" "MIN_APP_DATA \<le> last sizes" "last sizes \<le> MAX_APP_DATA"
    using assms(1) by (subst (asm) s, simp)+
  have ok: "sizes_ok ?s" using l by auto
  have "?b = app_data_body_capacity (butlast sizes) + (last sizes - 17)" by (subst s) simp
  moreover have "last sizes + ?g - 17 = last sizes - 17 + ?g" using l(2) by (simp add: app_consts)
  ultimately have cap: "app_data_body_capacity ?s = ?b + ?g" by simp
  note p = push_chunks_spec [OF ok cap, of n]
  show "sizes_ok (ensure_payload_capacity sizes n)" "n \<le> app_data_body_capacity (ensure_payload_capacity sizes n)"
    "ensure_payload_capacity sizes n \<noteq> []"
    using p assms by (auto simp: ensure_payload_capacity_def Let_def)
qed

section \<open>Records\<close>

text \<open>The part of a record body before its type byte and tag.\<close>

definition inner_part :: "bytes \<Rightarrow> bytes" where
  "inner_part b = take (length b - 17) b"

lemma app_data_body_spec:
  assumes "app_data_body ops payload n off st = (body, off', st')" "17 < n"
  shows "length body = n"
    "payload = Some p \<Longrightarrow> off \<le> length p \<Longrightarrow> \<exists>pad. inner_part body = take (n - 17) (drop off p) @ pad \<and>
      off' = min (length p) (off + (n - 17)) \<and> (pad \<noteq> [] \<longrightarrow> off' = length p)"
proof -
  have len: "length (fst (rng_bytes ops k s)) = k" for k s by simp
  show "length body = n"
    using assms len by (auto simp: app_data_body_def Let_def split_def split: option.splits if_splits)
  assume p: "payload = Some p" "off \<le> length p"
  let ?c = "min (length p - off) (n - 17)"
  obtain pad st1 where pad: "(if ?c < n - 17 then rng_bytes ops (n - 17 - ?c) st else ([], st)) = (pad, st1)" by fastforce
  have lp: "length pad = n - 17 - ?c"
    using arg_cong [OF pad, of "\<lambda>r. length (fst r)"] len [of "n - 17 - ?c" st] by (simp split: if_splits)
  have b: "body = take ?c (drop off p) @ pad @ [0x16] @ fst (rng_bytes ops 16 st1)" "off' = off + ?c"
    using assms p pad by (auto simp: app_data_body_def Let_def split_def)
  have t: "take ?c (drop off p) = take (n - 17) (drop off p)" by (simp add: min_def)
  have "length body = n" by fact
  then have "inner_part body = take (n - 17) (drop off p) @ pad"
    using lp p(2) unfolding inner_part_def b(1) t by simp
  moreover have "pad \<noteq> [] \<longrightarrow> off' = length p"
    using lp b(2) p(2) assms(2) by (cases "length p - off \<le> n - 17") auto
  moreover have "off' = min (length p) (off + (n - 17))" using b(2) p(2) by simp
  ultimately show "\<exists>pad. inner_part body = take (n - 17) (drop off p) @ pad \<and>
      off' = min (length p) (off + (n - 17)) \<and> (pad \<noteq> [] \<longrightarrow> off' = length p)" by blast
qed

lemma emit_app_data_spec:
  assumes "sizes_ok sizes"
  shows "\<exists>bodies. fst (emit_app_data ops payload sizes off st) = concat (map app_record bodies) \<and> map length bodies = sizes \<and>
    (\<forall>p. payload = Some p \<longrightarrow> off \<le> length p \<longrightarrow>
      (\<exists>pad. concat (map inner_part bodies) = take (app_data_body_capacity sizes) (drop off p) @ pad))"
  using assms
proof (induction sizes arbitrary: off st)
  case (Cons n sizes)
  have n: "17 < n" using Cons.prems by (simp add: app_consts)
  obtain body off' st' where b: "app_data_body ops payload n off st = (body, off', st')" by (metis prod_cases3)
  note bs = app_data_body_spec [OF b n]
  obtain bodies where r: "fst (emit_app_data ops payload sizes off' st') = concat (map app_record bodies)" "map length bodies = sizes"
      "\<And>p. payload = Some p \<Longrightarrow> off' \<le> length p \<Longrightarrow>
        \<exists>pad. concat (map inner_part bodies) = take (app_data_body_capacity sizes) (drop off' p) @ pad"
    using Cons.IH [of off' st'] Cons.prems by auto
  have "\<exists>pad. concat (map inner_part (body # bodies)) = take (app_data_body_capacity (n # sizes)) (drop off p) @ pad"
    if p: "payload = Some p" "off \<le> length p" for p
  proof -
    obtain pad where pad: "inner_part body = take (n - 17) (drop off p) @ pad" "off' = min (length p) (off + (n - 17))"
        "pad \<noteq> [] \<longrightarrow> off' = length p"
      using bs(2) [OF p] by blast
    obtain pad' where rest: "concat (map inner_part bodies) = take (app_data_body_capacity sizes) (drop off' p) @ pad'"
      using r(3) [OF p(1)] pad(2) by auto
    show ?thesis
    proof (cases "pad = []")
      case True
      have "drop off' p = drop (off + (n - 17)) p" by (simp add: pad(2) min_def)
      then have "take (n - 17) (drop off p) @ take (app_data_body_capacity sizes) (drop off' p) =
          take (n - 17 + app_data_body_capacity sizes) (drop off p)"
        unfolding take_add drop_drop by (simp add: add.commute)
      then show ?thesis using pad(1) rest True by (metis append.right_neutral append_assoc capacity_simps(2) concat.simps(2) list.simps(9))
    next
      case False
      then have "off' = length p" using pad(3) by simp
      then have "take (n - 17 + k) (drop off p) = take (n - 17) (drop off p)" for k using pad(2) p(2) by simp
      then show ?thesis using pad(1) rest by simp
    qed
  qed
  then show ?case
    using r(1,2) bs(1) by (intro exI [of _ "body # bodies"]) (simp add: b Let_def split_def app_record_def [of body])
qed simp

lemma emit_tickets_spec:
  "\<exists>bodies. fst (emit_tickets ops sizes st) = concat (map app_record bodies) \<and> map length bodies = sizes"
proof (induction sizes arbitrary: st)
  case (Cons n sizes)
  obtain body st' where b: "rng_bytes ops n st = (body, st')" by fastforce
  obtain bodies where "fst (emit_tickets ops sizes st') = concat (map app_record bodies)" "map length bodies = sizes"
    using Cons.IH by blast
  moreover have "length body = n" using length_rng_bytes [of ops n st] b by simp
  ultimately show ?case
    by (intro exI [of _ "body # bodies"]) (simp add: b Let_def split_def app_record_def [of body])
qed simp

lemma fill_ticket_sizes_spec:
  assumes "range_ok ops"
  shows "length (fst (fill_ticket_sizes ops base n st)) = n \<and>
    list_all (\<lambda>k. base \<le> k \<and> k < base + 64) (fst (fill_ticket_sizes ops base n st))"
proof (induction n arbitrary: st)
  case (Suc n)
  then show ?case using rng_range_less [OF assms, of 64 st] by (simp add: Let_def split_def)
qed simp

lemma tls_records_app_records:
  "list_all (\<lambda>b. length b < 65536) bodies \<Longrightarrow>
   tls_records (concat (map app_record bodies) @ rest) = map_option ((@) (map (Pair 0x17) bodies)) (tls_records rest)"
proof (induction bodies)
  case Nil
  then show ?case by (cases "tls_records rest") simp_all
next
  case (Cons b bodies)
  then show ?case by (cases "tls_records rest") (simp_all add: tls_records_app_record)
qed

section \<open>The ServerHello\<close>

definition sv_bytes :: bytes where
  "sv_bytes = nat_be 2 0x002b @ nat_be 2 2 @ nat_be 2 0x0304"

definition ks_bytes :: "ServerHelloKeyShare \<Rightarrow> bytes" where
  "ks_bytes ks = nat_be 2 0x0033 @ nat_be 2 (length (key_exchange ks) + 4) @ nat_be 2 (ks_group ks)
    @ nat_be 2 (length (key_exchange ks)) @ key_exchange ks"

lemma push_extensions:
  "push_supported_versions_extension exts = exts @ sv_bytes"
  "length (key_exchange ks) \<le> 65000 \<Longrightarrow> push_key_share_extension ks exts = exts @ ks_bytes ks"
  by (simp_all add: push_supported_versions_extension_def push_key_share_extension_def push_key_share_entry_def
      sv_bytes_def ks_bytes_def try_from_def checked_add_def tls_consts)

definition replayed :: "ServerHelloKeyShare \<Rightarrow> bytes \<times> bool \<times> bool \<Rightarrow> bool" where
  "replayed ks = (\<lambda>(exts, sv, k).
    if sv then if k then exts \<in> {sv_bytes @ ks_bytes ks, ks_bytes ks @ sv_bytes} else exts = sv_bytes
    else if k then exts = ks_bytes ks else exts = [])"

lemma replayed_step:
  assumes "length (key_exchange ks) \<le> 65000" "replayed ks s"
  shows "replayed ks (replay_profiled_server_hello_extension ks e s)"
  using assms by (cases s) (auto simp: replayed_def replay_profiled_server_hello_extension_def push_extensions)

lemma replayed_fold:
  assumes "length (key_exchange ks) \<le> 65000" "replayed ks s"
  shows "replayed ks (foldl (\<lambda>s e. replay_profiled_server_hello_extension ks e s) s es)"
  using assms(2)
proof (induction es arbitrary: s)
  case (Cons e es)
  then show ?case using replayed_step [OF assms(1) Cons.prems, of e] by simp
qed simp

text \<open>Both extensions appear exactly once, in one order or the other.\<close>

lemma profiled_extensions:
  assumes "length (key_exchange ks) \<le> 65000"
  shows "build_profiled_server_hello_extensions cached ks \<in> {sv_bytes @ ks_bytes ks, ks_bytes ks @ sv_bytes}"
proof -
  have "replayed ks ([], False, False)" by (simp add: replayed_def)
  then show ?thesis
    using replayed_fold [OF assms, of "([], False, False)" "sh_extensions (server_hello_template cached)"] assms
    by (auto simp: build_profiled_server_hello_extensions_def Let_def split_def replayed_def push_extensions split: prod.splits if_splits)
qed

definition emulated_message :: "CachedTlsData \<Rightarrow> bytes \<Rightarrow> bytes \<Rightarrow> bytes \<Rightarrow> bytes \<Rightarrow> bytes" where
  "emulated_message cached rnd sid cs exts =
    (let body = sh_version (server_hello_template cached) @ rnd @ [of_nat (length sid)] @ sid @ cs
           @ [sh_compression (server_hello_template cached)] @ nat_be 2 (length exts) @ exts
     in [2] @ nat_be 3 (length body) @ body)"

definition emulated_suite :: "CachedTlsData \<Rightarrow> bytes \<Rightarrow> bytes" where
  "emulated_suite cached cs =
    (if cs \<noteq> [0, 0] then cs
     else if sh_cipher_suite (server_hello_template cached) = [0, 0] then [0x13, 0x01] else sh_cipher_suite (server_hello_template cached))"

lemma emulated_message_eq:
  assumes "length (key_exchange ks) \<le> 65000" "length sid \<le> 32" "length (sh_version (server_hello_template cached)) = 2"
    and "length (emulated_suite cached cs) = 2"
  shows "emulated_server_hello_message cached sid cs ks =
      emulated_message cached (replicate 32 0) sid (emulated_suite cached cs) (build_profiled_server_hello_extensions cached ks)"
    "length (emulated_message cached (replicate 32 0) sid (emulated_suite cached cs) (build_profiled_server_hello_extensions cached ks)) =
      58 + length sid + length (key_exchange ks)"
proof -
  let ?e = "build_profiled_server_hello_extensions cached ks"
  have le: "length ?e = 14 + length (key_exchange ks)"
    using profiled_extensions [OF assms(1), of cached] by (auto simp: sv_bytes_def ks_bytes_def)
  show "length (emulated_message cached (replicate 32 0) sid (emulated_suite cached cs) ?e) = 58 + length sid + length (key_exchange ks)"
    using le assms by (simp add: emulated_message_def Let_def)
  show "emulated_server_hello_message cached sid cs ks = emulated_message cached (replicate 32 0) sid (emulated_suite cached cs) ?e"
    using le assms by (simp add: emulated_server_hello_message_def emulated_message_def emulated_suite_def Let_def nat_be_3_of_4)
qed

section \<open>The flight\<close>

text \<open>A handshake record whose message has its random after six bytes, and what follows it.\<close>

definition flight :: "bytes \<Rightarrow> bytes \<Rightarrow> bytes \<Rightarrow> bytes \<Rightarrow> bytes" where
  "flight version rnd tail rest =
    (let body = version @ rnd @ tail; msg = [2] @ nat_be 3 (length body) @ body
     in [0x16, 3, 3] @ nat_be 2 (length msg) @ msg @ rest)"

lemma flight_parts:
  assumes "length v = 2" "length d = 32" "length e = 32"
  shows "splice (flight v e tail rest) 11 d = Some (flight v d tail rest)"
    "take 32 (drop 11 (flight v d tail rest)) = d"
proof -
  define pre where "pre = [0x16, 3, 3] @ nat_be 2 (38 + length tail) @ [2] @ nat_be 3 (34 + length tail) @ v"
  have f: "flight v r tail rest = pre @ r @ tail @ rest" if "length r = 32" for r
    using that assms(1) by (simp add: flight_def pre_def Let_def)
  have "length pre = 11" using assms(1) by (simp add: pre_def)
  then show "splice (flight v e tail rest) 11 d = Some (flight v d tail rest)" "take 32 (drop 11 (flight v d tail rest)) = d"
    using splice_mid [of pre 11 e d "tail @ rest"] take_drop_mid [of pre 11 d 32 "tail @ rest"] assms
    by (simp_all add: f del: take_append drop_append)
qed

lemma flight_structure:
  assumes "length v = 2" "length d = 32" "length tail < 65000"
  shows "validate_server_hello_structure (flight v d tail rest) = Some (Inr ())"
    "tls_records (flight v d tail rest) =
      map_option ((#) (0x16, [2] @ nat_be 3 (34 + length tail) @ v @ d @ tail)) (tls_records rest)"
proof -
  let ?n = "34 + length tail"
  obtain a b c where abc: "nat_be 3 ?n = [a, b, c]" by (simp add: nat_be_3)
  have "be_nat [0, a, b, c] = be_nat (nat_be 3 ?n)" by (simp add: abc be_nat_def)
  also have "\<dots> = ?n" using assms by simp
  finally have n: "be_nat [0, a, b, c] = ?n" .
  obtain l m where lm: "nat_be 2 (?n + 4) = [l, m]" by (simp add: nat_be_2)
  have lm': "be16 l m = ?n + 4"
    using be16_of_nat [of "?n + 4"] assms lm by (simp add: nat_be_2 del: of_nat_add be16_of_nat)
  have eq: "flight v d tail rest = [0x16, 3, 3, l, m, 2, a, b, c] @ (v @ d @ tail @ rest)"
    using assms lm abc by (simp add: flight_def Let_def add.commute)
  show "validate_server_hello_structure (flight v d tail rest) = Some (Inr ())"
    unfolding eq using assms n lm' by (simp add: validate_server_hello_structure_def idx_def slice_def tls_consts)
  show "tls_records (flight v d tail rest) =
      map_option ((#) (0x16, [2] @ nat_be 3 ?n @ v @ d @ tail)) (tls_records rest)"
    using tls_records_record [of "[2] @ nat_be 3 ?n @ v @ d @ tail" "0x16" rest] assms
    by (simp add: flight_def Let_def)
qed

text \<open>The widths of the arrays in the code, and a session id and key share as TLS has them.\<close>

definition emulation_fits :: "CachedTlsData \<Rightarrow> bytes \<Rightarrow> bytes \<Rightarrow> ServerHelloKeyShare \<Rightarrow> bool" where
  "emulation_fits cached sid cs ks \<longleftrightarrow> length sid \<le> 32 \<and> length cs = 2 \<and> length (key_exchange ks) \<le> 64000 \<and>
    length (sh_version (server_hello_template cached)) = 2 \<and> length (sh_cipher_suite (server_hello_template cached)) = 2"

text \<open>The sizes of the tickets: the remembered ones first, then drawn ones.\<close>

definition remembered_tickets :: "CachedTlsData \<Rightarrow> nat list" where
  "remembered_tickets cached = (if raw_or_merged (behavior_profile cached) then bp_ticket_record_sizes (behavior_profile cached) else [])"

definition ticket_sizes :: "CachedTlsData \<Rightarrow> nat \<Rightarrow> nat list \<Rightarrow> bool" where
  "ticket_sizes cached n sizes \<longleftrightarrow> length sizes = min n 4 \<and>
    (\<exists>drawn. sizes = take (min n 4) (remembered_tickets cached) @ drawn \<and> list_all (\<lambda>k. 80 \<le> k \<and> k < 176) drawn)"

lemma ticket_sizes_ok:
  assumes "range_ok ops"
  shows "ticket_sizes cached n (fst (emulated_ticket_record_sizes crc ops cached n st))"
proof -
  define base :: nat where "base = (case fallback_shape_family crc cached of NginxLike \<Rightarrow> 96 | BoringSslLike \<Rightarrow> 80 | RustlsLike \<Rightarrow> 112)"
  have b: "80 \<le> base" "base \<le> 112" by (simp_all add: base_def split: FallbackShapeFamily.split)
  have more: "length (fst (fill_ticket_sizes ops base m s)) = m" "list_all (\<lambda>k. 80 \<le> k \<and> k < 176) (fst (fill_ticket_sizes ops base m s))" for m s
    using fill_ticket_sizes_spec [OF assms, of base m s] b by (auto simp: list_all_iff)
  show ?thesis
    using more unfolding emulated_ticket_record_sizes_def base_def [symmetric] remembered_tickets_def [symmetric]
    by (auto simp: ticket_sizes_def Let_def split_def app_consts)
qed

lemma emulated_shape:
  assumes "range_ok ops" "emulation_fits cached sid cs ks"
  defines "tail \<equiv> [of_nat (length sid)] @ sid @ emulated_suite cached cs @ [sh_compression (server_hello_template cached)]
      @ nat_be 2 (length (build_profiled_server_hello_extensions cached ks)) @ build_profiled_server_hello_extensions cached ks"
  obtains bodies tickets st' where
    "build_emulated_server_hello hm crc ops secret cd sid cached full compact ver cs ks alpn n st =
      (let resp = flight (sh_version (server_hello_template cached)) (replicate 32 0) tail
             (change_cipher_spec @ concat (map app_record bodies) @ concat (map app_record tickets))
       in (splice resp 11 (sha256_hmac hm secret (cd @ resp)), st'))"
    "bodies \<noteq> []" "list_all (\<lambda>b. MIN_APP_DATA \<le> length b \<and> length b \<le> MAX_APP_DATA) bodies"
    "ticket_sizes cached n (map length tickets)"
    "\<And>p. select_payload crc cached full compact ver = Some p \<Longrightarrow> take (length p) (concat (map inner_part bodies)) = p"
proof -
  have fits: "length (key_exchange ks) \<le> 65000" "length sid \<le> 32" "length (sh_version (server_hello_template cached)) = 2"
      "length (emulated_suite cached cs) = 2"
    using assms(2) by (auto simp: emulation_fits_def emulated_suite_def)
  note msg = emulated_message_eq [OF fits]
  define pay where "pay = select_payload crc cached full compact ver"
  obtain sz st1 where sz: "emulated_sizes ops cached st = (sz, st1)" by fastforce
  have ok: "sizes_ok sz" "sz \<noteq> []" using emulated_sizes_ok [of ops cached st] sz by auto
  define sz' where "sz' = (case pay of Some p \<Rightarrow> ensure_payload_capacity sz (length p) | None \<Rightarrow> sz)"
  have ok': "sizes_ok sz'" "sz' \<noteq> []" "\<And>p. pay = Some p \<Longrightarrow> length p \<le> app_data_body_capacity sz'"
    using ensure_capacity_spec [OF ok] ok by (auto simp: sz'_def split: option.split)
  obtain app st2 where app: "emit_app_data ops pay sz' 0 st1 = (app, st2)" by fastforce
  obtain bodies where b: "app = concat (map app_record bodies)" "map length bodies = sz'"
      "\<And>p. pay = Some p \<Longrightarrow> \<exists>pad. concat (map inner_part bodies) = take (app_data_body_capacity sz') p @ pad"
    using emit_app_data_spec [OF ok'(1), of ops pay 0 st1] app by auto
  obtain tsz st3 where tsz: "emulated_ticket_record_sizes crc ops cached n st2 = (tsz, st3)" by fastforce
  have tok: "ticket_sizes cached n tsz" using ticket_sizes_ok [OF assms(1), of cached n crc st2] tsz by simp
  obtain tks st4 where tks: "emit_tickets ops tsz st3 = (tks, st4)" by fastforce
  obtain tickets where t: "tks = concat (map app_record tickets)" "map length tickets = tsz"
    using emit_tickets_spec [of ops tsz st3] tks by auto
  show thesis
  proof (rule that)
    have "[TLS_RECORD_HANDSHAKE] @ TLS_VERSION @ nat_be 2 (length (emulated_server_hello_message cached sid cs ks) mod 65536)
        @ emulated_server_hello_message cached sid cs ks @ r = flight (sh_version (server_hello_template cached)) (replicate 32 0) tail r" for r
      using msg fits by (simp add: flight_def emulated_message_def tail_def Let_def tls_consts)
    then have h: "([TLS_RECORD_HANDSHAKE] @ TLS_VERSION @ nat_be 2 (length (emulated_server_hello_message cached sid cs ks) mod 65536)
        @ emulated_server_hello_message cached sid cs ks) @ r = flight (sh_version (server_hello_template cached)) (replicate 32 0) tail r" for r
      by simp
    show "build_emulated_server_hello hm crc ops secret cd sid cached full compact ver cs ks alpn n st =
      (let resp = flight (sh_version (server_hello_template cached)) (replicate 32 0) tail
             (change_cipher_spec @ concat (map app_record bodies) @ concat (map app_record tickets))
       in (splice resp 11 (sha256_hmac hm secret (cd @ resp)), st4))"
      unfolding build_emulated_server_hello_def Let_def sz prod.case pay_def [symmetric] sz'_def [symmetric] app tsz tks h
        b(1) t(1) TLS_DIGEST_POS_def ..
    show "bodies \<noteq> []" using ok'(2) b(2) by auto
    show "list_all (\<lambda>b. MIN_APP_DATA \<le> length b \<and> length b \<le> MAX_APP_DATA) bodies"
      using ok'(1) b(2) by (auto simp: sizes_ok_def list_all_iff)
    show "ticket_sizes cached n (map length tickets)" using tok t(2) by simp
    show "take (length p) (concat (map inner_part bodies)) = p" if "select_payload crc cached full compact ver = Some p" for p
      using b(3) ok'(3) that by (fastforce simp: pay_def)
  qed
qed

lemma emulated_response:
  assumes "range_ok ops" "emulation_fits cached sid cs ks"
  shows "\<exists>resp st' early digest exts bodies tickets.
    build_emulated_server_hello hm crc ops secret cd sid cached full compact ver cs ks alpn n st = (Some resp, st') \<and>
    exts \<in> {sv_bytes @ ks_bytes ks, ks_bytes ks @ sv_bytes} \<and>
    resp = early @ concat (map app_record tickets) \<and>
    tls_records early = Some ((0x16, emulated_message cached digest sid (emulated_suite cached cs) exts) # (0x14, [1])
      # map (Pair 0x17) bodies) \<and>
    (list_all (\<lambda>b. length b < 65536) tickets \<longrightarrow>
      tls_records resp = map_option (\<lambda>records. records @ map (Pair 0x17) tickets) (tls_records early)) \<and>
    bodies \<noteq> [] \<and> list_all (\<lambda>b. 64 \<le> length b \<and> length b \<le> 16640) bodies \<and> ticket_sizes cached n (map length tickets) \<and>
    (\<forall>p. select_payload crc cached full compact ver = Some p \<longrightarrow> take (length p) (concat (map inner_part bodies)) = p) \<and>
    server_digest_ok hm secret cd resp \<and> validate_server_hello_structure resp = Some (Inr ())"
proof -
  define exts where "exts = build_profiled_server_hello_extensions cached ks"
  define v where "v = sh_version (server_hello_template cached)"
  define tail where "tail = [of_nat (length sid)] @ sid @ emulated_suite cached cs @ [sh_compression (server_hello_template cached)]
      @ nat_be 2 (length exts) @ exts"
  obtain bodies tickets st' where r:
    "build_emulated_server_hello hm crc ops secret cd sid cached full compact ver cs ks alpn n st =
      (let resp = flight v (replicate 32 0) tail (change_cipher_spec @ concat (map app_record bodies) @ concat (map app_record tickets))
       in (splice resp 11 (sha256_hmac hm secret (cd @ resp)), st'))"
    "bodies \<noteq> []" "list_all (\<lambda>b. MIN_APP_DATA \<le> length b \<and> length b \<le> MAX_APP_DATA) bodies"
    "ticket_sizes cached n (map length tickets)"
    "\<And>p. select_payload crc cached full compact ver = Some p \<Longrightarrow> take (length p) (concat (map inner_part bodies)) = p"
    by (rule emulated_shape [OF assms, of hm crc secret cd full compact ver alpn n st]) (simp add: v_def tail_def exts_def)
  define rest where "rest = change_cipher_spec @ concat (map app_record bodies) @ concat (map app_record tickets)"
  define d where "d = sha256_hmac hm secret (cd @ flight v (replicate 32 0) tail rest)"
  have e: "exts \<in> {sv_bytes @ ks_bytes ks, ks_bytes ks @ sv_bytes}"
    using profiled_extensions [of ks cached] assms(2) by (simp add: exts_def emulation_fits_def)
  have len: "length v = 2" "length d = 32" "length tail < 65000"
    using assms(2) e by (auto simp: v_def d_def tail_def emulation_fits_def emulated_suite_def sv_bytes_def ks_bytes_def)
  note p = flight_parts [OF len(1)] and f = flight_structure [OF len]
  define front where "front = change_cipher_spec @ concat (map app_record bodies)"
  have rest: "rest = front @ concat (map app_record tickets)" by (simp add: rest_def front_def)
  have small: "list_all (\<lambda>b. length b < 65536) bodies" using r(3) by (auto simp: list_all_iff app_consts)
  have rec: "tls_records front = Some ((0x14, [1]) # map (Pair 0x17) bodies)"
    using tls_records_app_records [OF small, of "[]"] by (simp add: front_def tls_records_ccs)
  have recs: "tls_records rest = Some ((0x14, [1]) # map (Pair 0x17) bodies @ map (Pair 0x17) tickets)"
    if "list_all (\<lambda>b. length b < 65536) tickets"
    using tls_records_app_records [OF small, of "concat (map app_record tickets)"] tls_records_app_records [OF that, of "[]"]
    by (simp add: rest_def tls_records_ccs)
  have m: "[2] @ nat_be 3 (34 + length tail) @ v @ d @ tail = emulated_message cached d sid (emulated_suite cached cs) exts"
    using len by (simp add: emulated_message_def Let_def tail_def v_def [symmetric])
  have "build_emulated_server_hello hm crc ops secret cd sid cached full compact ver cs ks alpn n st = (Some (flight v d tail rest), st')"
    using r(1) p(1) [of d "replicate 32 0" tail rest] len by (simp add: Let_def rest_def d_def)
  moreover have "flight v d tail rest = flight v d tail front @ concat (map app_record tickets)" by (simp add: flight_def rest)
  moreover have early: "tls_records (flight v d tail front) =
      Some ((0x16, emulated_message cached d sid (emulated_suite cached cs) exts) # (0x14, [1]) # map (Pair 0x17) bodies)"
    using f(2) [of front] rec m by simp
  moreover have "list_all (\<lambda>b. length b < 65536) tickets \<longrightarrow> tls_records (flight v d tail rest) =
      map_option (\<lambda>records. records @ map (Pair 0x17) tickets) (tls_records (flight v d tail front))"
    using f(2) [of rest] recs m early by simp
  moreover have "server_digest_ok hm secret cd (flight v d tail rest)"
    using p(1) [of "replicate 32 0" d tail rest] p(2) [of d d tail rest] len
    by (simp add: server_digest_ok_def TLS_DIGEST_POS_def TLS_DIGEST_LEN_def) (simp add: d_def)
  moreover have "list_all (\<lambda>b. 64 \<le> length b \<and> length b \<le> 16640) bodies" using r(3) by (simp add: app_consts)
  ultimately show ?thesis using e r(2,4,5) f(1) [of rest] by blast
qed

section \<open>Properties\<close>

text \<open>C20.
  The response that imitates a site can be verified by the client, whatever is remembered of the
  site, for a session id of at most 32 bytes, a key share of at most 64000 and the two-byte versions and
  suites of the code.  It begins with exactly these records: a handshake
  record with a ServerHello that echoes the session id and carries the key share and the TLS 1.3
  version once each, in one order or the other; a ChangeCipherSpec record; and encrypted records of
  64 to 16640 bytes, at least one.  The tickets follow, as many as were asked for and at most four:
  the remembered sizes first, then sizes from 80 to 175; if none of the remembered ones exceeds the 16 bits
  of a record header, the tickets are records as well and the whole response is well formed.  A
  selected certificate payload is contained whole in the encrypted records.  The digest field is the HMAC
  under the user's secret of the client digest and the response with that field zeroed, and the
  structure check accepts the response.
\<close>

theorem emulated_response_verifiable:
  assumes "range_ok ops" "emulation_fits cached sid cs ks"
  shows "\<exists>resp st' early digest exts bodies tickets.
    build_emulated_server_hello hm crc ops secret cd sid cached full compact ver cs ks alpn n st = (Some resp, st') \<and>
    exts \<in> {sv_bytes @ ks_bytes ks, ks_bytes ks @ sv_bytes} \<and>
    resp = early @ concat (map app_record tickets) \<and>
    tls_records early = Some ((0x16, emulated_message cached digest sid (emulated_suite cached cs) exts) # (0x14, [1])
      # map (Pair 0x17) bodies) \<and>
    (list_all (\<lambda>b. length b < 65536) tickets \<longrightarrow>
      tls_records resp = map_option (\<lambda>records. records @ map (Pair 0x17) tickets) (tls_records early)) \<and>
    bodies \<noteq> [] \<and> list_all (\<lambda>b. 64 \<le> length b \<and> length b \<le> 16640) bodies \<and> ticket_sizes cached n (map length tickets) \<and>
    (\<forall>p. select_payload crc cached full compact ver = Some p \<longrightarrow> take (length p) (concat (map inner_part bodies)) = p) \<and>
    server_digest_ok hm secret cd resp \<and> validate_server_hello_structure resp = Some (Inr ())"
  using assms by (rule emulated_response)

theorem emulated_response_verifiable_witness:
  "\<exists>resp st'. build_emulated_server_hello (\<lambda>k d i. of_nat (i + length d)) (\<lambda>_. 3) demo_ops [1] (replicate 32 2) [7, 8]
      (default_cached 2000) True False Tls13 [0x13, 0x03] \<lparr>ks_group = 0x1d, key_exchange = replicate 32 5\<rparr> None 2 demo_rng = (Some resp, st') \<and>
    server_digest_ok (\<lambda>k d i. of_nat (i + length d)) [1] (replicate 32 2) resp \<and>
    validate_server_hello_structure resp = Some (Inr ())"
proof -
  have "emulation_fits (default_cached 2000) [7, 8] [0x13, 0x03] \<lparr>ks_group = 0x1d, key_exchange = replicate 32 5\<rparr>"
    by (simp add: emulation_fits_def default_cached_def TlsBehaviorProfile_default_def)
  from emulated_response_verifiable [OF demo_ops_range_ok this, of "\<lambda>k d i. of_nat (i + length d)" "\<lambda>_. 3" "[1]" "replicate 32 2" True False Tls13
      None 2 demo_rng]
  show ?thesis by blast
qed

end
