(* ===== verification/Tls_Handshake_Props.thy ===== *)
theory Tls_Handshake_Props
  imports Tls_Handshake Mtproto_Claims Tls_Emulator_Props Tls_Grammar
begin

text \<open>
  What the FakeTLS handshake guarantees: only an authentic and fresh hello of a configured user gets
  in, the response is one the client can verify, a refused client gets its connection back without a
  byte written, a genuine client does get in, and a recorded hello gets in once unless two copies
  overtake each other.
\<close>

section \<open>One secret\<close>

text \<open>A hello that a secret authenticates at a reading of the clock.\<close>

definition hello_accepted where
  "hello_accepted hm cfg wall h secret \<longleftrightarrow> hello_long_enough h \<and> authentic hm h secret \<and>
    (ignore_time_skew cfg \<or>
     (\<exists>n. wall = Some n \<and> int n \<le> I64_MAX \<and>
       fresh False (int n) (min (replay_window_secs cfg) 120) (hidden_timestamp hm h secret)))"

text \<open>What validation reports of it.\<close>

definition validated :: "bytes \<Rightarrow> bytes \<Rightarrow> bytes \<Rightarrow> nat option \<Rightarrow> TlsClientValidation" where
  "validated h user secret uid =
    \<lparr>tc_digest = client_digest h, tc_session_id = session_id_of h @ replicate (32 - unat (h ! 43)) 0,
     tc_session_id_len = unat (h ! 43), tc_user = user, tc_secret = secret, tc_user_id = uid\<rparr>"

definition candidate_result :: "bytes \<Rightarrow> TlsCandidateValidation" where
  "candidate_result h =
    \<lparr>cv_digest = client_digest h, cv_session_id = session_id_of h @ replicate (32 - unat (h ! 43)) 0,
     cv_session_id_len = unat (h ! 43)\<rparr>"

abbreviation auth_material where
  "auth_material wall cfg h \<equiv> parse_tls_auth_material wall h (ignore_time_skew cfg) (replay_window_secs cfg)"

lemma length_session_id [simp]: "hello_long_enough h \<Longrightarrow> length (session_id_of h) = unat (h ! 43)"
  by (auto simp: hello_long_enough_def session_id_of_def)

lemma client_digest_length: "hello_long_enough h \<Longrightarrow> length (client_digest h) = 32"
  by (auto simp: hello_long_enough_def client_digest_def)

lemma auth_material_spec:
  "auth_material wall cfg h =
    (if hello_long_enough h
     then map_option (\<lambda>now. \<lparr>pa_digest = client_digest h,
            pa_session_id = session_id_of h @ replicate (32 - unat (h ! 43)) 0, pa_session_id_len = unat (h ! 43), pa_now = now,
            pa_ignore_time_skew = ignore_time_skew cfg,
            pa_boot_time_cap_secs = (if ignore_time_skew cfg then 0 else min (replay_window_secs cfg) 120)\<rparr>)
          (if ignore_time_skew cfg then Some 0 else system_time_to_unix_secs wall)
     else None)"
  using boot_cap [of "replay_window_secs cfg"]
  by (auto simp: parse_tls_auth_material_def hello_long_enough_def client_digest_def session_id_of_def Let_def
      TLS_DIGEST_POS_def TLS_DIGEST_LEN_def split: option.split)

lemma zeroed_mac: "compute_tls_hmac_zeroed_digest hm secret h = sha256_hmac hm secret (zeroed h)"
  by (simp add: compute_tls_hmac_zeroed_digest_def zeroed_def TLS_DIGEST_POS_def TLS_DIGEST_LEN_def)

lemma candidate_spec:
  assumes "auth_material wall cfg h = Some parsed"
  shows "validate_tls_secret_candidate hm parsed h secret =
    (if hello_accepted hm cfg wall h secret then Some (candidate_result h) else None)"
proof -
  have long: "hello_long_enough h" using assms by (simp add: auth_material_spec split: if_splits)
  note len = client_digest_length [OF long]
  let ?c = "sha256_hmac hm secret (zeroed h)" and ?d = "client_digest h"
  have ts: "le_nat [?d ! 28 XOR ?c ! 28, ?d ! 29 XOR ?c ! 29, ?d ! 30 XOR ?c ! 30, ?d ! 31 XOR ?c ! 31] = hidden_timestamp hm h secret"
    by (simp add: hidden_timestamp_def drop28_32 [OF len] drop28_32)
  obtain now where p: "parsed = \<lparr>pa_digest = ?d, pa_session_id = session_id_of h @ replicate (32 - unat (h ! 43)) 0,
      pa_session_id_len = unat (h ! 43), pa_now = now, pa_ignore_time_skew = ignore_time_skew cfg,
      pa_boot_time_cap_secs = (if ignore_time_skew cfg then 0 else min (replay_window_secs cfg) 120)\<rparr>"
    and now: "ignore_time_skew cfg \<or> (\<exists>n. wall = Some n \<and> int n \<le> I64_MAX \<and> now = int n)"
    using assms long by (auto simp: auth_material_spec system_time_to_unix_secs_def split: if_splits option.splits)
  have eq: "validate_tls_secret_candidate hm parsed h secret =
      (if authentic hm h secret \<and>
          (ignore_time_skew cfg \<or> fresh False now (min (replay_window_secs cfg) 120) (hidden_timestamp hm h secret))
       then Some (candidate_result h) else None)"
    unfolding validate_tls_secret_candidate_def zeroed_mac Let_def p ParsedTlsAuthMaterial.simps ts authentic_def fresh_def
      TIME_SKEW_MIN_def TIME_SKEW_MAX_def candidate_result_def abs_le_iff
    by (auto split: if_splits)
  have "hello_accepted hm cfg wall h secret \<longleftrightarrow> authentic hm h secret \<and>
      (ignore_time_skew cfg \<or> fresh False now (min (replay_window_secs cfg) 120) (hidden_timestamp hm h secret))"
    using now long by (auto simp: hello_accepted_def)
  then show ?thesis by (simp add: eq)
qed

section \<open>The user\<close>

text \<open>The search behind the snapshot, with the hints it is given.\<close>

definition hinted_search where
  "hinted_search W snap val overload peer preferred sni sh sh1 =
    (let hip = sticky_hint_get_by_ip sh (fst peer); pid = Option.bind preferred (user_id_by_name snap);
         hsni = Option.bind sni (sticky_hint_get_by_sni (w_sip W) sh); hpre = sticky_hint_get_by_ip_prefix sh (fst peer);
         l1 = Option.bind sni (sni_candidates (w_sip W) snap); l2 = Option.bind sni (sni_initial_candidates snap);
         hint = (hip \<noteq> None \<or> pid \<noteq> None \<or> hsni \<noteq> None \<or> hpre \<noteq> None \<or>
           (case l1 of Some ids \<Rightarrow> ids \<noteq> [] | None \<Rightarrow> False) \<or> (case l2 of Some ids \<Rightarrow> ids \<noteq> [] | None \<Rightarrow> False))
     in tls_search snap val (budget_for_validation (length (ua_entries snap)) overload hint) hip pid hsni hpre l1 l2 sh1)"

lemma snapshot_search:
  assumes p: "auth_material (wall_secs ck) cfg h = Some parsed"
    and o: "auth_probe_saturation_is_throttled (overload_now ck) sh = (overload, sh1)"
    and s: "hinted_search W snap (validate_tls_secret_candidate hm parsed h) overload peer preferred sni sh sh1 = (m, sc)"
  shows "\<exists>sh2. tls_client_with_snapshot W hm ck h peer cfg preferred sni snap sh =
    (map_option (\<lambda>(uid, e, c). \<lparr>tc_digest = cv_digest c, tc_session_id = cv_session_id c, tc_session_id_len = cv_session_id_len c,
       tc_user = ua_user e, tc_secret = ua_secret e, tc_user_id = Some uid\<rparr>) m, sh2)"
  using s unfolding hinted_search_def tls_client_with_snapshot_def p o Let_def prod.case option.case
  by (cases m) (auto simp: split_def)

lemma hinted_search_sound:
  assumes "hinted_search W snap val overload peer preferred sni sh sh1 = (Some (uid, e, c), sc)"
  shows "e \<in> set (ua_entries snap)" "val (ua_secret e) = Some c"
proof -
  have "match_ok snap val (fst (hinted_search W snap val overload peer preferred sni sh sh1))"
    unfolding hinted_search_def Let_def by (rule tls_search_sound [unfolded sound_def, THEN conjunct1])
  then show "e \<in> set (ua_entries snap)" "val (ua_secret e) = Some c"
    using assms by (auto simp: match_ok_def entry_by_id_def idx_Some)
qed

lemma snapshot_validation:
  assumes "tls_client_with_snapshot W hm ck h peer cfg preferred sni snap sh = (Some v, sh')"
  shows "\<exists>e uid. e \<in> set (ua_entries snap) \<and> hello_accepted hm cfg (wall_secs ck) h (ua_secret e) \<and>
    v = validated h (ua_user e) (ua_secret e) (Some uid)"
proof -
  obtain parsed where p: "auth_material (wall_secs ck) cfg h = Some parsed"
    using assms by (cases "auth_material (wall_secs ck) cfg h") (auto simp: tls_client_with_snapshot_def)
  obtain overload sh1 where o: "auth_probe_saturation_is_throttled (overload_now ck) sh = (overload, sh1)" by fastforce
  obtain m sc where s: "hinted_search W snap (validate_tls_secret_candidate hm parsed h) overload peer preferred sni sh sh1 = (m, sc)"
    by fastforce
  obtain uid e c where m: "m = Some (uid, e, c)"
    and v: "v = \<lparr>tc_digest = cv_digest c, tc_session_id = cv_session_id c, tc_session_id_len = cv_session_id_len c,
              tc_user = ua_user e, tc_secret = ua_secret e, tc_user_id = Some uid\<rparr>"
    using snapshot_search [OF p o s] assms by (cases m) auto
  note h = hinted_search_sound [OF s [unfolded m]]
  show ?thesis
    using h v candidate_spec [OF p, of hm "ua_secret e"]
    by (intro exI [of _ e] exI [of _ uid]) (auto simp: validated_def candidate_result_def split: if_splits)
qed

lemma decode_loop_distinct:
  assumes "distinct (map fst us)" "distinct (map fst secrets)" "fst ` set secrets \<inter> fst ` set us \<subseteq> set_option preferred"
  shows "distinct (map fst (fst (decode_user_secrets_loop hexd preferred us secrets sh)))"
  using assms
proof (induction us arbitrary: secrets sh)
  case (Cons u us)
  obtain name hex where u: "u = (name, hex)" by (cases u)
  obtain d sh1 where d: "decode_user_secret hexd name hex sh = (d, sh1)" by fastforce
  have loop: "distinct (map fst (fst (decode_user_secrets_loop hexd preferred us secs s)))"
    if "distinct (map fst secs)" "fst ` set secs \<inter> fst ` set us \<subseteq> set_option preferred" for secs s
    using Cons.IH [OF _ that] Cons.prems(1) by simp
  have rest: "fst ` set secrets \<inter> fst ` set us \<subseteq> set_option preferred" using Cons.prems(3) by auto
  show ?case
  proof (cases "preferred = Some name \<or> d = None")
    case True
    then show ?thesis using loop [OF Cons.prems(2) rest] by (auto simp: u d)
  next
    case False
    then obtain x where x: "d = Some x" by blast
    have "name \<notin> fst ` set secrets" using Cons.prems(3) False by (auto simp: u)
    then have "distinct (map fst (secrets @ [(name, x)]))" using Cons.prems(2) by simp
    moreover have "fst ` set (secrets @ [(name, x)]) \<inter> fst ` set us \<subseteq> set_option preferred"
      using rest Cons.prems(1) by (auto simp: u)
    ultimately show ?thesis using loop False x by (simp add: u d)
  qed
qed simp

lemma decode_users_distinct:
  assumes "distinct (map fst us)"
  shows "distinct (map fst (fst (decode_user_secrets hexd us preferred sh)))"
proof (cases "Option.bind preferred (map_of us)")
  case None
  then show ?thesis
    using decode_loop_distinct [OF assms, of "[]" preferred hexd sh]
    by (auto simp: decode_user_secrets_def split: option.splits)
next
  case (Some hex)
  then obtain q where q: "preferred = Some q" "map_of us q = Some hex" by (cases preferred) auto
  obtain d s where d: "decode_user_secret hexd q hex sh = (d, s)" by fastforce
  show ?thesis
    using decode_loop_distinct [OF assms, of "case d of Some x \<Rightarrow> [(q, x)] | None \<Rightarrow> []" preferred hexd s] q d
    by (auto simp: decode_user_secrets_def split: option.splits)
qed

lemma window_validation:
  "validate_tls_handshake_with_replay_window hm wall h secrets (ignore_time_skew cfg) (replay_window_secs cfg) =
    Some (map_option (\<lambda>(user, secret). \<lparr>tv_user = user, tv_session_id = session_id_of h, tv_digest = client_digest h,
      tv_timestamp = hidden_timestamp hm h secret\<rparr>) (find (\<lambda>(user, secret). hello_accepted hm cfg wall h secret) secrets))"
proof -
  have none: "find (\<lambda>(user, secret). False) secrets = None" by (induction secrets) auto
  show ?thesis
    unfolding validate_window_spec
    by (cases "hello_long_enough h"; cases wall)
       (auto simp: validation_spec_def accepted_user_def hello_accepted_def fresh_def none)
qed

lemma find_key: "distinct (map fst ds) \<Longrightarrow> (u, s) \<in> set ds \<Longrightarrow> find (\<lambda>(name, _). name = u) ds = Some (u, s)"
  by (induction ds) (auto simp: rev_image_eqI)

lemma legacy_validation:
  assumes "tls_client_without_snapshot W hm ck h peer cfg preferred sh = Some (Some v, sh')" "distinct (map fst (users cfg))"
  shows "\<exists>user secret. decodable (w_hexd W) (users cfg) (user, secret) \<and> hello_accepted hm cfg (wall_secs ck) h secret \<and>
    v = validated h user secret None"
proof -
  obtain ds sh1 where ds: "decode_user_secrets (w_hexd W) (users cfg) preferred sh = (ds, sh1)" by fastforce
  have dec: "\<forall>e\<in>set ds. decodable (w_hexd W) (users cfg) e" and dist: "distinct (map fst ds)"
    using decode_users_sound [of "w_hexd W" "users cfg" preferred sh] decode_users_distinct [OF assms(2), of "w_hexd W" preferred sh] ds
    by simp_all
  obtain user secret where f: "find (\<lambda>(user, secret). hello_accepted hm cfg (wall_secs ck) h secret) ds = Some (user, secret)"
    using assms(1) by (auto simp: tls_client_without_snapshot_def ds window_validation split: option.splits)
  then have u: "(user, secret) \<in> set ds" "hello_accepted hm cfg (wall_secs ck) h secret"
    by (auto simp: find_Some_iff) (metis nth_mem)
  then have long: "hello_long_enough h" by (simp add: hello_accepted_def)
  have g: "find (\<lambda>(name, _). name = user) ds = Some (user, secret)"
    by (rule find_key [OF dist u(1)])
  have "v = validated h user secret None"
    using assms(1) f g long
    by (auto simp: tls_client_without_snapshot_def ds window_validation validated_def split: if_splits)
  then show ?thesis using u dec by blast
qed

lemma client_validation:
  assumes "validate_tls_client W hm ck h peer cfg preferred sni sh = Some (Some v, sh')" "distinct (map fst (users cfg))"
  shows "\<exists>user secret uid. v = validated h user secret uid \<and> configured (w_hexd W) cfg user secret \<and>
    hello_accepted hm cfg (wall_secs ck) h secret \<and> \<not> is_user_source_ip_denied (w_contains W) cfg user (fst peer)"
proof -
  define r where "r = (case runtime_user_auth cfg of
      Some snap \<Rightarrow> Some (tls_client_with_snapshot W hm ck h peer cfg preferred sni snap sh)
    | None \<Rightarrow> tls_client_without_snapshot W hm ck h peer cfg preferred sh)"
  obtain sh1 where r: "r = Some (Some v, sh1)" "\<not> is_user_source_ip_denied (w_contains W) cfg (tc_user v) (fst peer)"
    using assms(1) unfolding validate_tls_client_def r_def [symmetric]
    by (auto simp: bind_eq_Some_conv split: option.splits if_splits)
  have "\<exists>user secret uid. v = validated h user secret uid \<and> configured (w_hexd W) cfg user secret \<and>
      hello_accepted hm cfg (wall_secs ck) h secret"
  proof (cases "runtime_user_auth cfg")
    case (Some snap)
    then have "tls_client_with_snapshot W hm ck h peer cfg preferred sni snap sh = (Some v, sh1)" using r(1) by (simp add: r_def)
    from snapshot_validation [OF this] show ?thesis using Some by (auto simp: configured_def)
  next
    case None
    then have "tls_client_without_snapshot W hm ck h peer cfg preferred sh = Some (Some v, sh1)" using r(1) by (simp add: r_def)
    from legacy_validation [OF this assms(2)] show ?thesis using None by (auto simp: configured_def decodable_def)
  qed
  then show ?thesis using r(2) by (auto simp: validated_def)
qed

section \<open>The response\<close>

text \<open>Fields with a fixed width in the code.\<close>

definition entry_fits :: "CachedTlsData \<Rightarrow> bool" where
  "entry_fits e \<longleftrightarrow> length (sh_version (server_hello_template e)) = 2 \<and> length (sh_cipher_suite (server_hello_template e)) = 2"

definition front_fits :: "TlsFrontCache option \<Rightarrow> bool" where
  "front_fits front \<longleftrightarrow> (\<forall>c\<in>set_option front. entry_fits (fc_default c) \<and> list_all (entry_fits \<circ> snd) (fc_memory c))"

lemma cache_get_fits:
  assumes "entry_fits (fc_default c)" "list_all (entry_fits \<circ> snd) (fc_memory c)"
  shows "entry_fits (cache_get c d)"
  using assms map_of_SomeD [of "fc_memory c" d] by (force simp: cache_get_def list_all_iff split: option.split)

lemma cached_fits: "front_fits front \<Longrightarrow> cached_entry_for cfg d front = Some e \<Longrightarrow> entry_fits e"
  by (cases front) (auto simp: front_fits_def cached_entry_for_def cache_get_fits split: if_splits)

lemma suite_length:
  assumes "select_server_hello_cipher_suite h preferred = Some (Some cs)"
  shows "length cs = 2"
proof -
  have f: "first_offered h rg l = Some (Some cs) \<Longrightarrow> cs \<in> set l" for rg l
    by (induction l) (auto simp: bind_eq_Some_conv split: if_splits)
  have "is_tls13_cipher_suite cs"
    using assms f
    by (fastforce simp: select_server_hello_cipher_suite_def Let_def bind_eq_Some_conv split: option.splits if_splits)
  then show ?thesis by (rule suite_len)
qed

lemma key_share_length:
  assumes "build_server_hello_key_share kx h pref ops st = (Some (Some ks), st')"
  shows "length (key_exchange ks) \<le> 1120"
proof -
  have "\<forall>g\<in>set (server_hello_key_share_candidate_order pref). client_hello_key_share_group_len g \<noteq> None"
    by (auto simp: server_hello_key_share_candidate_order_def client_hello_key_share_group_len_def)
  from build_loop_select [OF this, of kx h ops st] show ?thesis
    using assms unfolding build_server_hello_key_share_def by auto
qed

lemma response_verifiable:
  assumes "range_ok (te_rand E)" "front_fits front" "cached = cached_entry_for cfg d front" "hello_long_enough h"
    and "length cs = 2" "length (key_exchange ks) \<le> 1120"
  shows "\<exists>resp rng'. build_tls_response E cfg (validated h user secret uid) alpn ver cached full cs ks rng = (Some resp, rng') \<and>
    server_digest_ok (te_hm E) secret (client_digest h) resp \<and> validate_server_hello_structure resp = Some (Inr ())"
proof -
  let ?v = "validated h user secret uid"
  have sid: "take (tc_session_id_len ?v) (tc_session_id ?v) = session_id_of h" "length (session_id_of h) \<le> 32"
    using assms(4) by (simp_all add: validated_def) (simp add: hello_long_enough_def)
  have v: "tc_secret ?v = secret" "tc_digest ?v = client_digest h" by (simp_all add: validated_def)
  show ?thesis
  proof (cases cached)
    case None
    have "hello_fits (session_id_of h) cs ks" using sid(2) assms(5,6) by (simp add: hello_fits_def)
    from with_cipher_response [OF assms(1) this, of "te_hm E" secret "client_digest h" "fake_cert_len cfg" alpn "tls_new_session_tickets cfg" rng]
    show ?thesis unfolding build_tls_response_def None option.case sid(1) v by blast
  next
    case (Some e)
    have "emulation_fits e (session_id_of h) cs ks"
      using cached_fits [OF assms(2), of cfg d e] assms(3,5,6) sid(2) Some by (simp add: emulation_fits_def entry_fits_def)
    from emulated_response [OF assms(1) this, of "te_hm E" "te_crc E" secret "client_digest h" full "serverhello_compact cfg" ver alpn
        "tls_new_session_tickets cfg" rng]
    show ?thesis unfolding build_tls_response_def Some option.case sid(1) v by blast
  qed
qed

section \<open>Admission\<close>

text \<open>The name in the hello, if any, is one of the proxy's domains or a user's name.\<close>

definition name_known where
  "name_known cfg h \<longleftrightarrow> (\<forall>sni. extract_sni_from_client_hello h = Some (Some sni) \<longrightarrow>
    find_matching_tls_domain cfg sni \<noteq> None \<or> map_of (users cfg) sni \<noteq> None)"

text \<open>What was put on the socket for an unknown name.\<close>

definition alert_sent where
  "alert_sent wops writer w \<longleftrightarrow> (\<exists>r u. await_write_all wops writer TLS_ALERT_UNRECOGNIZED_NAME = Some (r, u) \<and>
    (w = u \<or> (\<exists>q. await_flush wops u = Some (q, w))))"

abbreviation digest_half where
  "digest_half h \<equiv> take 16 (client_digest h)"

lemma refuse_cases:
  assumes "refuse_unknown_sni W E ck reader writer peer action st = Some (res, st1, w1)"
  shows "ts_replay st1 = ts_replay st"
    "action = Mask \<Longrightarrow> res = BadClient reader writer \<and> w1 = writer"
    "action \<noteq> Mask \<Longrightarrow> res = HandshakeError UnknownTlsSni"
    "action \<noteq> RejectHandshake \<Longrightarrow> w1 = writer" "action = RejectHandshake \<Longrightarrow> alert_sent (te_wops E) writer w1"
  using assms
  by (auto simp: refuse_unknown_sni_def note_failure_def alert_sent_def Let_def bind_eq_Some_conv split: if_splits sum.splits)
     (metis old.sum.exhaust old.unit.exhaust)

text \<open>The first reasons to refuse, and the course of an admission past them.\<close>

definition policy_refused where
  "policy_refused ck h peer cfg st \<longleftrightarrow>
    fst (auth_probe_should_apply_preauth_throttle (fst peer) (throttle_now ck) (ts_shared st)) \<or> length h < 44 \<or>
    (\<exists>alpns. (if alpn_enforce cfg then extract_alpn_from_client_hello h else Some []) = Some alpns \<and> select_alpn cfg alpns = None)"

definition hello_sni :: "bytes \<Rightarrow> bytes option" where
  "hello_sni h = (case extract_sni_from_client_hello h of Some sni \<Rightarrow> sni | None \<Rightarrow> None)"

definition user_hint where
  "user_hint cfg h = Option.bind (hello_sni h) (\<lambda>n. if map_of (users cfg) n \<noteq> None then Some n else None)"

definition domain_hint where
  "domain_hint cfg h = Option.bind (hello_sni h) (find_matching_tls_domain cfg)"

lemma name_known_hints: "name_known cfg h \<longleftrightarrow> \<not> (hello_sni h \<noteq> None \<and> domain_hint cfg h = None \<and> user_hint cfg h = None)"
  using extract_sni_total [of h]
  by (cases "hello_sni h") (auto simp: name_known_def hello_sni_def domain_hint_def user_hint_def split: option.splits)

lemma admit_refused:
  assumes "policy_refused ck h peer cfg st" "admit_tls W E ck h reader writer peer cfg st = x"
  shows "\<exists>st1. x = Some (Inl (BadClient reader writer), st1, writer)"
proof -
  obtain sni where n: "extract_sni_from_client_hello h = Some sni" using extract_sni_total by fastforce
  show ?thesis
    using assms by (auto simp: policy_refused_def admit_tls_def n TLS_DIGEST_POS_def TLS_DIGEST_LEN_def Let_def split_def)
qed

definition admission where
  "admission W E ck h reader writer peer cfg alpn ver sh0 st =
      (if \<not> name_known cfg h \<and> unknown_sni_action cfg \<noteq> Accept
       then map_option (\<lambda>(r, st, writer). (Inl r, st, writer))
              (refuse_unknown_sni W E ck reader writer peer (unknown_sni_action cfg) (st\<lparr>ts_shared := sh0\<rparr>))
       else do {
         (validation, sh) \<leftarrow> validate_tls_client W (te_hm E) ck h peer cfg (user_hint cfg h) (hello_sni h) sh0;
         case validation of
           None \<Rightarrow> Some (Inl (BadClient reader writer), st\<lparr>ts_shared := sh\<rparr>, writer)
         | Some v \<Rightarrow> do {
             (replayed, rc) \<leftarrow> check_tls_digest (w_lru W) (w_replay_hash W) (w_base W) (replay_now ck)
                (take TLS_DIGEST_HALF_LEN (tc_digest v)) (ts_replay st);
             let st = st\<lparr>ts_shared := sh, ts_replay := rc\<rparr>;
             if replayed then Some (Inl (BadClient reader writer), note_failure W ck peer st, writer)
             else Some (Inr \<lparr>ad_validation = v, ad_domain = domain_hint cfg h, ad_sni = hello_sni h,
                    ad_alpn = alpn, ad_version = ver\<rparr>, st, writer) } })"

lemma admit_step:
  assumes "\<not> policy_refused ck h peer cfg st" "admit_tls W E ck h reader writer peer cfg st = x"
  obtains sh0 alpn ver where
    "auth_probe_should_apply_preauth_throttle (fst peer) (throttle_now ck) (ts_shared st) = (False, sh0)"
    "x = admission W E ck h reader writer peer cfg alpn ver sh0 st"
proof -
  obtain thr sh0 where "auth_probe_should_apply_preauth_throttle (fst peer) (throttle_now ck) (ts_shared st) = (thr, sh0)"
    by fastforce
  then have t: "auth_probe_should_apply_preauth_throttle (fst peer) (throttle_now ck) (ts_shared st) = (False, sh0)"
    using assms by (simp add: policy_refused_def)
  obtain sni where n: "extract_sni_from_client_hello h = Some sni" using extract_sni_total by fastforce
  obtain alpns where a: "(if alpn_enforce cfg then extract_alpn_from_client_hello h else Some []) = Some alpns"
    using extract_alpn_total [of h] by (cases "alpn_enforce cfg") auto
  obtain ver where d: "detect_client_hello_tls_version h = Some ver" using detect_version_total by fastforce
  obtain alpn where alpn: "select_alpn cfg alpns = Some alpn" using assms a by (auto simp: policy_refused_def)
  have long: "\<not> length h < TLS_DIGEST_POS + TLS_DIGEST_LEN + 1"
    using assms by (simp add: policy_refused_def TLS_DIGEST_POS_def TLS_DIGEST_LEN_def)
  have s: "hello_sni h = sni" by (simp add: hello_sni_def n)
  have k: "(\<not> name_known cfg h \<and> unknown_sni_action cfg \<noteq> Accept) =
      (sni \<noteq> None \<and> domain_hint cfg h = None \<and> user_hint cfg h = None \<and> unknown_sni_action cfg \<noteq> Accept)"
    unfolding name_known_hints s by blast
  have rec: "st\<lparr>ts_shared := x, ts_shared := y\<rparr> = st\<lparr>ts_shared := y\<rparr>" "ts_replay (st\<lparr>ts_shared := y\<rparr>) = ts_replay st"
      "ts_shared (st\<lparr>ts_shared := y\<rparr>) = y" for x y
    by simp_all
  show thesis
    by (rule that [OF t], unfold assms(2) [symmetric] admission_def k, unfold admit_tls_def t n a d alpn s domain_hint_def user_hint_def Let_def
        prod.case option.case Option.bind.simps if_not_P [OF long] if_False rec, rule refl)
qed

text \<open>What stands behind an admitted hello.\<close>

definition vouched where
  "vouched W E ck h peer cfg user secret \<longleftrightarrow>
    configured (w_hexd W) cfg user secret \<and> hello_accepted (te_hm E) cfg (wall_secs ck) h secret \<and>
    \<not> is_user_source_ip_denied (w_contains W) cfg user (fst peer) \<and> (name_known cfg h \<or> unknown_sni_action cfg = Accept)"

lemma admit_cases:
  assumes "admit_tls W E ck h reader writer peer cfg st = Some (res, st1, w1)" "distinct (map fst (users cfg))"
  obtains (refused) "res = Inl (BadClient reader writer)" "w1 = writer"
  | (dropped) "res = Inl (HandshakeError UnknownTlsSni)" "\<not> name_known cfg h" "unknown_sni_action cfg = Drop_connection" "w1 = writer"
  | (rejected) "res = Inl (HandshakeError UnknownTlsSni)" "\<not> name_known cfg h" "unknown_sni_action cfg = RejectHandshake"
      "alert_sent (te_wops E) writer w1"
  | (admitted) ad user secret uid where "res = Inr ad" "w1 = writer" "ts_rng st1 = ts_rng st" "ts_cache st1 = ts_cache st"
      "ad_validation ad = validated h user secret uid" "vouched W E ck h peer cfg user secret"
      "check_tls_digest (w_lru W) (w_replay_hash W) (w_base W) (replay_now ck) (digest_half h) (ts_replay st) = Some (False, ts_replay st1)"
proof (cases "policy_refused ck h peer cfg st")
  case True
  from admit_refused [OF this assms(1)] show thesis by (intro refused) auto
next
  case False
  from admit_step [OF this assms(1)] obtain sh0 alpn ver where
    eq: "admission W E ck h reader writer peer cfg alpn ver sh0 st = Some (res, st1, w1)" by metis
  show thesis
  proof (cases "\<not> name_known cfg h \<and> unknown_sni_action cfg \<noteq> Accept")
    case True
    then obtain r where r: "res = Inl r"
        "refuse_unknown_sni W E ck reader writer peer (unknown_sni_action cfg) (st\<lparr>ts_shared := sh0\<rparr>) = Some (r, st1, w1)"
      using eq unfolding admission_def if_P [OF True] by auto
    note c = refuse_cases(2-5) [OF r(2)]
    show thesis using c True r(1) refused dropped rejected by (cases "unknown_sni_action cfg") simp_all
  next
    case False
    note eq = eq [unfolded admission_def if_not_P [OF False]]
    then obtain v sh where v: "validate_tls_client W (te_hm E) ck h peer cfg (user_hint cfg h) (hello_sni h) sh0 = Some (v, sh)"
      by (auto simp: bind_eq_Some_conv)
    note eq = eq [unfolded v Option.bind.simps prod.case]
    show thesis
    proof (cases v)
      case None
      then show thesis using eq by (intro refused) auto
    next
      case (Some x)
      obtain user secret uid where x: "x = validated h user secret uid" and vouch: "vouched W E ck h peer cfg user secret"
        using client_validation [OF v [unfolded Some] assms(2)] False unfolding vouched_def by blast
      have half: "take TLS_DIGEST_HALF_LEN (tc_digest x) = digest_half h"
        by (simp add: x validated_def TLS_DIGEST_HALF_LEN_def)
      from eq obtain b rc where
        c: "check_tls_digest (w_lru W) (w_replay_hash W) (w_base W) (replay_now ck) (digest_half h) (ts_replay st) = Some (b, rc)"
        by (auto simp: Some half bind_eq_Some_conv)
      note eq = eq [unfolded Some option.case half c Option.bind.simps prod.case Let_def]
      show thesis
      proof (cases b)
        case True
        then show thesis using eq by (intro refused) auto
      next
        case b: False
        then obtain ad where "res = Inr ad" "ad_validation ad = x" "st1 = st\<lparr>ts_shared := sh, ts_replay := rc\<rparr>" "w1 = writer"
          using eq by auto
        then show thesis using admitted [OF _ _ _ _ _ vouch] c x b by simp
      qed
    qed
  qed
qed

section \<open>The answer\<close>

text \<open>The course of an answer whose hello offers a usable key share and suite.\<close>

lemma answer_cases:
  assumes "answer_tls W E ck h reader writer peer cfg options ad st = Some (res, st1, w1)"
    and "ad_validation ad = validated h user secret uid" "hello_long_enough h" "range_ok (te_rand E)" "front_fits (ts_cache st)"
  shows "(res = BadClient reader writer \<and> w1 = writer \<and> ts_replay st1 = ts_replay st) \<or>
    (\<exists>resp written. server_digest_ok (te_hm E) secret (client_digest h) resp \<and> validate_server_hello_structure resp = Some (Inr ()) \<and>
      add_tls_digest (w_lru W) (w_replay_hash W) (w_base W) (add_now ck) (digest_half h) (ts_replay st) = Some (ts_replay st1) \<and>
      write_tls_response (te_wops E) (te_sys E) writer resp options = Some (written, w1) \<and>
      (case written of
         Inl e \<Rightarrow> res = HandshakeError (Io e)
       | Inr _ \<Rightarrow> \<exists>profile seed. res = Success (FakeTlsReader_new reader, FakeTlsWriter_with_profile w1 profile seed, user)))"
proof -
  define cached where "cached = cached_entry_for cfg (ad_domain ad) (ts_cache st)"
  obtain key rng where k: "build_server_hello_key_share (te_kx E) h (Option.bind cached profiled_server_hello_key_share_group)
      (te_rand E) (ts_rng st) = (key, rng)" by fastforce
  note eq = assms(1) [unfolded answer_tls_def cached_def [symmetric] Let_def k prod.case]
  obtain mks where key: "key = Some mks" using eq by (cases key) auto
  show ?thesis
  proof (cases mks)
    case None
    then show ?thesis using eq by (intro disjI1) (auto simp: key note_failure_def)
  next
    case (Some ks)
    note eq = eq [unfolded key Some Option.bind.simps option.case]
    obtain ms where ms: "select_server_hello_cipher_suite h (preferred_suite cached) = Some ms"
      using select_suite_total by blast
    note eq = eq [unfolded ms Option.bind.simps]
    show ?thesis
    proof (cases ms)
      case None
      then show ?thesis using eq by (intro disjI1) (auto simp: note_failure_def)
    next
      case s: (Some cs)
      obtain full front where f: "take_full_cert E ck peer cfg (ad_version ad) cached (ts_cache st) = (full, front)" by fastforce
      have half: "take TLS_DIGEST_HALF_LEN (tc_digest (ad_validation ad)) = digest_half h"
        by (simp add: assms(2) validated_def TLS_DIGEST_HALF_LEN_def)
      obtain resp rng' where r: "build_tls_response E cfg (ad_validation ad) (ad_alpn ad) (ad_version ad) cached full cs ks rng = (Some resp, rng')"
        and ok: "server_digest_ok (te_hm E) secret (client_digest h) resp" "validate_server_hello_structure resp = Some (Inr ())"
        using response_verifiable [OF assms(4,5) cached_def assms(3) suite_length [OF ms [unfolded s]] key_share_length [OF k [unfolded key Some]],
            of user secret uid "ad_alpn ad" "ad_version ad" full rng] assms(2) by auto
      have st: "ts_cache (st\<lparr>ts_rng := a\<rparr>) = ts_cache st" "ts_replay (st\<lparr>ts_rng := a, ts_cache := b\<rparr>) = ts_replay st"
          "ts_rng (st\<lparr>ts_rng := a, ts_cache := b, ts_replay := c\<rparr>) = a" for a b c
        by simp_all
      note eq = eq [unfolded s option.case f prod.case half st r Option.bind.simps]
      obtain rc where rc: "add_tls_digest (w_lru W) (w_replay_hash W) (w_base W) (add_now ck) (digest_half h) (ts_replay st) = Some rc"
        using eq by (auto simp: bind_eq_Some_conv)
      note eq = eq [unfolded rc st r Option.bind.simps prod.case]
      obtain written w2 where w: "write_tls_response (te_wops E) (te_sys E) writer resp options = Some (written, w2)"
        using eq by (auto simp: bind_eq_Some_conv)
      note eq = eq [unfolded w Option.bind.simps prod.case]
      show ?thesis
      proof (cases written)
        case (Inl e)
        then show ?thesis using eq ok rc w by (intro disjI2 exI [of _ resp] exI [of _ written]) auto
      next
        case (Inr x)
        then show ?thesis
          using eq ok rc w assms(2) by (intro disjI2 exI [of _ resp] exI [of _ written]) (auto simp: finish_tls_def Let_def split_def validated_def)
      qed
    qed
  qed
qed

section \<open>The replay checker\<close>

abbreviation tls_seen where
  "tls_seen hasher w now k r \<equiv> spec_find (max w MIN_TLS_REPLAY_WINDOW) now k (hasher k AND 63) (tls_logs r)"

lemma tls_check:
  assumes "lru_laws ops" "refines_spec ops hasher cap w rc r" "0 < w" "base \<le> now - int (max w MIN_TLS_REPLAY_WINDOW)"
  shows "\<exists>rc'. check_tls_digest ops hasher base now k rc = Some (tls_seen hasher w now k r, rc') \<and>
    refines_spec ops hasher cap w rc' (snd (spec_step hasher cap w (max w MIN_TLS_REPLAY_WINDOW) now (Op_check_tls k) r))"
  using replay_step_refines [OF assms, of "Op_check_tls k"] by simp

lemma tls_add:
  assumes "lru_laws ops" "refines_spec ops hasher cap w rc r" "0 < w" "base \<le> now - int (max w MIN_TLS_REPLAY_WINDOW)"
  shows "\<exists>rc'. add_tls_digest ops hasher base now k rc = Some rc' \<and>
    refines_spec ops hasher cap w rc' (snd (spec_step hasher cap w (max w MIN_TLS_REPLAY_WINDOW) now (Op_add_tls k) r))"
  using replay_step_refines [OF assms, of "Op_add_tls k"] by auto

lemma log_live_has: "log_has k (log_live c l) \<Longrightarrow> log_has k l"
  by (auto simp: log_has_def log_live_def dest: set_dropWhileD)

text \<open>A key that is added while it is not in the log is found from then on, for the window.\<close>

lemma added_key_seen:
  fixes r :: replay_spec
  assumes "\<not> log_has k (tls_logs r (hasher k AND 63))" "now \<le> t + int (max w MIN_TLS_REPLAY_WINDOW)"
  shows "tls_seen hasher w now k (snd (spec_step hasher cap w (max w MIN_TLS_REPLAY_WINDOW) t (Op_add_tls k) r))"
proof -
  let ?tw = "max w MIN_TLS_REPLAY_WINDOW"
  have "held {} t k (log_after_add cap ?tw t k (tls_logs r (hasher k AND 63)))"
    unfolding log_after_add_def by (rule held_new) (use assms(1) log_live_has in blast)
  from held_live [OF this, of "now - int ?tw"] show ?thesis
    using assms(2) by (simp add: spec_find_def spec_insert_def held_has)
qed

lemma checked_then_added:
  fixes r :: replay_spec
  assumes "lru_laws ops" "refines_spec ops hasher cap w rc r" "0 < w"
    and "base \<le> t - int (max w MIN_TLS_REPLAY_WINDOW)" "base \<le> t' - int (max w MIN_TLS_REPLAY_WINDOW)"
    and "check_tls_digest ops hasher base t k rc = Some (False, rc1)" "add_tls_digest ops hasher base t' k rc1 = Some rc2"
  shows "\<not> tls_seen hasher w t k r \<and>
    (\<exists>r' :: replay_spec. refines_spec ops hasher cap w rc2 r' \<and> (\<forall>now. now \<le> t' + int (max w MIN_TLS_REPLAY_WINDOW) \<longrightarrow> tls_seen hasher w now k r'))"
proof -
  let ?tw = "max w MIN_TLS_REPLAY_WINDOW"
  let ?r1 = "snd (spec_step hasher cap w ?tw t (Op_check_tls k) r)"
  have c: "\<not> tls_seen hasher w t k r" "refines_spec ops hasher cap w rc1 ?r1"
    using tls_check [OF assms(1-4), of k] assms(6) by auto
  have n: "\<not> log_has k (tls_logs ?r1 (hasher k AND 63))" using c(1) by (simp add: spec_find_def)
  have a: "refines_spec ops hasher cap w rc2 (snd (spec_step hasher cap w ?tw t' (Op_add_tls k) ?r1))"
    using tls_add [OF assms(1) c(2) assms(3,5), of k] assms(7) by (elim exE) simp
  show ?thesis
    by (intro conjI c(1) exI [of _ "snd (spec_step hasher cap w ?tw t' (Op_add_tls k) ?r1)"] a allI impI)
       (rule added_key_seen, rule n, assumption)
qed

text \<open>A digest that was new and has been added is found by every later check, until its window passes or its shard is full.\<close>

lemma added_digest_found:
  fixes r :: replay_spec
  assumes "lru_laws ops" "refines_spec ops hasher cap w rc r" "0 < w"
    and "\<forall>now\<in>{t, t', t''} \<union> fst ` set mid. base \<le> now - int (max w MIN_TLS_REPLAY_WINDOW)"
    and "check_tls_digest ops hasher base t k rc = Some (False, rc1)" "add_tls_digest ops hasher base t' k rc1 = Some rc2"
    and "replay_run ops hasher base mid rc2 = Some (answers, rc3)" "card (rivals hasher Tls_digests k mid) < cap"
    and "\<forall>now\<in>{t''} \<union> fst ` set mid. now \<le> t' + int (max w MIN_TLS_REPLAY_WINDOW)"
  shows "\<exists>rc4. check_tls_digest ops hasher base t'' k rc3 = Some (True, rc4)"
proof -
  let ?tw = "max w MIN_TLS_REPLAY_WINDOW"
  let ?r1 = "snd (spec_step hasher cap w ?tw t (Op_check_tls k) r)"
  let ?r2 = "snd (spec_step hasher cap w ?tw t' (Op_add_tls k) ?r1)"
  let ?r3 = "snd (spec_run hasher cap w ?tw mid ?r2)"
  have b: "base \<le> t - int ?tw" "base \<le> t' - int ?tw" "base \<le> t'' - int ?tw" "\<forall>(now, op)\<in>set mid. base \<le> now - int ?tw"
    using assms(4) by (auto simp: split_def)
  have c: "\<not> tls_seen hasher w t k r" "refines_spec ops hasher cap w rc1 ?r1"
    using tls_check [OF assms(1-3) b(1), of k] assms(5) by auto
  have r2: "refines_spec ops hasher cap w rc2 ?r2"
    using tls_add [OF assms(1) c(2) assms(3) b(2), of k] assms(6) by (elim exE) simp
  have r3: "refines_spec ops hasher cap w rc3 ?r3"
    using replay_run_refines [OF assms(1) r2 assms(3) b(4)] assms(7) by auto
  have new: "\<not> known_key hasher w Tls_digests t' k ?r1" using c(1) log_live_has by (auto simp: spec_find_def)
  have "known_key hasher w Tls_digests t'' k ?r3"
    by (rule spec_added_known [where hasher = hasher, OF _ new assms(8)]) (use assms(9) in \<open>auto simp: split_def\<close>)
  then show ?thesis using tls_check [OF assms(1) r3 assms(3) b(3), of k] by auto
qed

text \<open>
  The check and the addition are separate steps of the handler.  A second copy of a hello whose check
  comes between those of the first copy passes it as well, at any time.
\<close>

lemma second_copy_passes_check:
  fixes r :: replay_spec
  assumes "lru_laws ops" "refines_spec ops hasher cap w rc r" "0 < w"
    and "base \<le> t - int (max w MIN_TLS_REPLAY_WINDOW)" "base \<le> t' - int (max w MIN_TLS_REPLAY_WINDOW)"
    and "check_tls_digest ops hasher base t k rc = Some (False, rc1)"
  shows "\<exists>rc2. check_tls_digest ops hasher base t' k rc1 = Some (False, rc2)"
proof -
  let ?tw = "max w MIN_TLS_REPLAY_WINDOW"
  let ?r1 = "snd (spec_step hasher cap w ?tw t (Op_check_tls k) r)"
  have c: "\<not> tls_seen hasher w t k r" "refines_spec ops hasher cap w rc1 ?r1"
    using tls_check [OF assms(1-4), of k] assms(6) by auto
  have "\<not> tls_seen hasher w t' k ?r1" using c(1) log_live_has by (auto simp: spec_find_def)
  then show ?thesis using tls_check [OF assms(1) c(2) assms(3,5), of k] by auto
qed

section \<open>Soundness\<close>

text \<open>
  That a hello is known from now on, and the response with the outcome of writing it.
\<close>

definition seen_from_now :: "('c, 'n, 'x) world_scheme \<Rightarrow> nat \<Rightarrow> nat \<Rightarrow> ('y tls_clock_scheme) \<Rightarrow> bytes \<Rightarrow> 'c ReplayChecker \<Rightarrow> bool" where
  "seen_from_now W cap w ck h rc \<longleftrightarrow> (\<exists>r :: replay_spec. refines_spec (w_lru W) (w_replay_hash W) cap w rc r \<and>
    (\<forall>now. now \<le> add_now ck + int (max w MIN_TLS_REPLAY_WINDOW) \<longrightarrow> tls_seen (w_replay_hash W) w now (digest_half h) r))"

definition answered where
  "answered E h secret writer options written w \<longleftrightarrow>
    (\<exists>resp. server_digest_ok (te_hm E) secret (client_digest h) resp \<and> validate_server_hello_structure resp = Some (Inr ()) \<and>
      write_tls_response (te_wops E) (te_sys E) writer resp options = Some (written, w))"

lemma answer_sound:
  assumes "answer_tls W E ck h reader writer peer cfg options ad st = Some (res, st', w')"
    and "ad_validation ad = validated h user secret uid" "hello_long_enough h" "range_ok (te_rand E)" "front_fits (ts_cache st)"
  obtains (refused) "res = BadClient reader writer" "w' = writer"
  | (failed) e where "res = HandshakeError (Io e)" "answered E h secret writer options (Inl e) w'"
      "add_tls_digest (w_lru W) (w_replay_hash W) (w_base W) (add_now ck) (digest_half h) (ts_replay st) = Some (ts_replay st')"
  | (succeeded) profile seed where
      "res = Success (FakeTlsReader_new reader, FakeTlsWriter_with_profile w' profile seed, user)"
      "answered E h secret writer options (Inr ()) w'"
      "add_tls_digest (w_lru W) (w_replay_hash W) (w_base W) (add_now ck) (digest_half h) (ts_replay st) = Some (ts_replay st')"
proof -
  from answer_cases [OF assms] show thesis
  proof (elim disjE exE conjE)
    fix resp written
    assume c: "case written of Inl e \<Rightarrow> res = HandshakeError (Io e)
        | Inr _ \<Rightarrow> \<exists>profile seed. res = Success (FakeTlsReader_new reader, FakeTlsWriter_with_profile w' profile seed, user)"
      and "server_digest_ok (te_hm E) secret (client_digest h) resp" "validate_server_hello_structure resp = Some (Inr ())"
        "write_tls_response (te_wops E) (te_sys E) writer resp options = Some (written, w')"
      and add: "add_tls_digest (w_lru W) (w_replay_hash W) (w_base W) (add_now ck) (digest_half h) (ts_replay st) = Some (ts_replay st')"
    then have ok: "answered E h secret writer options written w'" unfolding answered_def by blast
    show thesis
    proof (cases written)
      case (Inl e)
      then show thesis using failed c ok add by simp
    next
      case (Inr u)
      then show thesis using succeeded c ok add by auto
    qed
  qed (rule refused)
qed

section \<open>A genuine client\<close>

text \<open>The ids the server name points to; the search is exhaustive while they are few.\<close>

definition few_candidates where
  "few_candidates W snap sni \<longleftrightarrow>
    length (case Option.bind sni (sni_candidates (w_sip W) snap) of Some ids \<Rightarrow> ids | None \<Rightarrow> []) +
    length (case Option.bind sni (sni_initial_candidates snap) of Some ids \<Rightarrow> ids | None \<Rightarrow> []) \<le> 28"

lemma hinted_search_finds:
  assumes "length (ua_entries snap) \<le> 2 ^ 32" "few_candidates W snap sni" "e \<in> set (ua_entries snap)" "val (ua_secret e) = Some c"
    and "\<forall>e'\<in>set (ua_entries snap). val (ua_secret e') \<noteq> None \<longrightarrow> e' = e"
  shows "\<exists>uid sc. hinted_search W snap val False peer preferred sni sh sh1 = (Some (uid, e, c), sc)"
proof -
  let ?n = "length (ua_entries snap)"
  obtain m sc where ms: "hinted_search W snap val False peer preferred sni sh sh1 = (m, sc)" by fastforce
  have b: "budget_for_validation ?n False hint = ?n" for hint by (simp add: budget_for_validation_def)
  obtain i where "i < ?n" "ua_entries snap ! i = e" using assms(3) by (auto simp: in_set_conv_nth)
  then have "\<not> failing snap val {..<?n}" using assms(4) by (auto simp: failing_def)
  moreover have "failing snap val {..<?n}" if "m = None"
    by (rule tls_search_complete [OF assms(1) assms(2) [unfolded few_candidates_def]
          trans [OF arg_cong [OF ms [unfolded hinted_search_def Let_def b], of fst]]]) (simp add: that)
  ultimately have "m \<noteq> None" by blast
  then obtain uid e' c' where m: "m = Some (uid, e', c')" by (cases m) auto
  note h = hinted_search_sound [OF ms [unfolded m]]
  then have "e' = e" "c' = c" using assms(4,5) by auto
  then show ?thesis using ms m by blast
qed

lemma client_accepts:
  assumes "runtime_user_auth cfg = Some snap" "length (ua_entries snap) \<le> 2 ^ 32" "e \<in> set (ua_entries snap)" "few_candidates W snap sni"
    and "hello_accepted hm cfg (wall_secs ck) h (ua_secret e)"
    and "\<forall>e'\<in>set (ua_entries snap). hello_accepted hm cfg (wall_secs ck) h (ua_secret e') \<longrightarrow> e' = e"
    and "\<not> fst (auth_probe_saturation_is_throttled (overload_now ck) sh)"
    and "\<not> is_user_source_ip_denied (w_contains W) cfg (ua_user e) (fst peer)"
  shows "\<exists>uid sh'. validate_tls_client W hm ck h peer cfg preferred sni sh = Some (Some (validated h (ua_user e) (ua_secret e) uid), sh')"
proof -
  obtain parsed where p: "auth_material (wall_secs ck) cfg h = Some parsed"
    using assms(5) by (cases "auth_material (wall_secs ck) cfg h")
      (auto simp: auth_material_spec hello_accepted_def system_time_to_unix_secs_def split: if_splits)
  obtain sh1 where o: "auth_probe_saturation_is_throttled (overload_now ck) sh = (False, sh1)"
    using assms(7) by (metis prod.collapse)
  let ?val = "validate_tls_secret_candidate hm parsed h"
  have val: "?val (ua_secret e) = Some (candidate_result h)" "\<forall>e'\<in>set (ua_entries snap). ?val (ua_secret e') \<noteq> None \<longrightarrow> e' = e"
    using assms(5,6) unfolding candidate_spec [OF p] by (auto split: if_splits)
  obtain uid sc where s: "hinted_search W snap ?val False peer preferred sni sh sh1 = (Some (uid, e, candidate_result h), sc)"
    using hinted_search_finds [OF assms(2,4,3) val] by blast
  obtain sh2 where "tls_client_with_snapshot W hm ck h peer cfg preferred sni snap sh = (Some (validated h (ua_user e) (ua_secret e) (Some uid)), sh2)"
    using snapshot_search [OF p o s] by (auto simp: validated_def candidate_result_def)
  then show ?thesis using assms(1,8) by (auto simp: validate_tls_client_def validated_def)
qed

lemma admit_accepts:
  assumes "runtime_user_auth cfg = Some snap" "length (ua_entries snap) \<le> 2 ^ 32" "e \<in> set (ua_entries snap)"
    and "few_candidates W snap (hello_sni h)" "hello_accepted (te_hm E) cfg (wall_secs ck) h (ua_secret e)"
    and "\<forall>e'\<in>set (ua_entries snap). hello_accepted (te_hm E) cfg (wall_secs ck) h (ua_secret e') \<longrightarrow> e' = e"
    and "\<not> fst (auth_probe_saturation_is_throttled (overload_now ck) (ts_shared st))"
    and "\<not> is_user_source_ip_denied (w_contains W) cfg (ua_user e) (fst peer)"
    and pol: "\<not> policy_refused ck h peer cfg st" "name_known cfg h \<or> unknown_sni_action cfg = Accept"
    and chk: "check_tls_digest (w_lru W) (w_replay_hash W) (w_base W) (replay_now ck) (digest_half h) (ts_replay st) = Some (False, rc)"
    and x: "admit_tls W E ck h reader writer peer cfg st = x"
  shows "\<exists>ad st1 uid. x = Some (Inr ad, st1, writer) \<and> ad_validation ad = validated h (ua_user e) (ua_secret e) uid \<and>
    ts_cache st1 = ts_cache st \<and> ts_rng st1 = ts_rng st \<and> ts_replay st1 = rc"
proof -
  obtain sh0 alpn ver where t: "auth_probe_should_apply_preauth_throttle (fst peer) (throttle_now ck) (ts_shared st) = (False, sh0)"
    and eq: "x = admission W E ck h reader writer peer cfg alpn ver sh0 st"
    by (rule admit_step [OF pol(1) x])
  note sat = not_overloaded_after_throttle [OF t assms(7)]
  obtain uid sh' where v: "validate_tls_client W (te_hm E) ck h peer cfg (user_hint cfg h) (hello_sni h) sh0 =
      Some (Some (validated h (ua_user e) (ua_secret e) uid), sh')"
    using client_accepts [OF assms(1-6) sat assms(8)] by blast
  have half: "take TLS_DIGEST_HALF_LEN (tc_digest (validated h u s i)) = digest_half h" for u s i
    by (simp add: validated_def TLS_DIGEST_HALF_LEN_def)
  have n: "\<not> (\<not> name_known cfg h \<and> unknown_sni_action cfg \<noteq> Accept)" using pol(2) by blast
  show ?thesis
    unfolding eq admission_def if_not_P [OF n] v by (simp add: half chk) blast
qed

lemma key_share_built:
  assumes "select_server_hello_key_share_group_with_preference h p \<noteq> Some None"
  shows "\<exists>ks st'. build_server_hello_key_share kx h p ops st = (Some (Some ks), st')"
proof -
  have "\<forall>g\<in>set (server_hello_key_share_candidate_order p). client_hello_key_share_group_len g \<noteq> None"
    by (auto simp: server_hello_key_share_candidate_order_def client_hello_key_share_group_len_def)
  note b = build_loop_select [OF this, of kx h ops st, THEN conjunct1]
  obtain key st' where k: "build_key_share_loop kx h (server_hello_key_share_candidate_order p) ops st = (key, st')" by fastforce
  show ?thesis
    using b k assms select_group_total [of h "server_hello_key_share_candidate_order p"]
    unfolding select_server_hello_key_share_group_with_preference_def build_server_hello_key_share_def
    by (cases key; cases "the key") auto
qed

lemma answer_accepts:
  assumes "ad_validation ad = validated h user secret uid" "hello_long_enough h" "range_ok (te_rand E)" "front_fits (ts_cache st)"
    and "\<And>p. select_server_hello_cipher_suite h p \<noteq> Some None"
    and "\<And>p. select_server_hello_key_share_group_with_preference h p \<noteq> Some None"
    and "add_tls_digest (w_lru W) (w_replay_hash W) (w_base W) (add_now ck) (digest_half h) (ts_replay st) = Some rc"
    and "\<And>resp. \<exists>w'. write_tls_response (te_wops E) (te_sys E) writer resp options = Some (Inr (), w')"
    and x: "answer_tls W E ck h reader writer peer cfg options ad st = x"
  shows "\<exists>st' w' profile seed. x = Some (Success (FakeTlsReader_new reader, FakeTlsWriter_with_profile w' profile seed, user), st', w') \<and>
    answered E h secret writer options (Inr ()) w' \<and> ts_replay st' = rc"
proof -
  define cached where "cached = cached_entry_for cfg (ad_domain ad) (ts_cache st)"
  obtain ks rng where k: "build_server_hello_key_share (te_kx E) h (Option.bind cached profiled_server_hello_key_share_group)
      (te_rand E) (ts_rng st) = (Some (Some ks), rng)"
    using key_share_built [OF assms(6)] by blast
  obtain cs where cs: "select_server_hello_cipher_suite h (preferred_suite cached) = Some (Some cs)"
    using select_suite_total [of h "preferred_suite cached"] assms(5) [of "preferred_suite cached"] by auto
  obtain full front where f: "take_full_cert E ck peer cfg (ad_version ad) cached (ts_cache st) = (full, front)" by fastforce
  have half: "take TLS_DIGEST_HALF_LEN (tc_digest (ad_validation ad)) = digest_half h"
    by (simp add: assms(1) validated_def TLS_DIGEST_HALF_LEN_def)
  obtain resp rng' where r: "build_tls_response E cfg (ad_validation ad) (ad_alpn ad) (ad_version ad) cached full cs ks rng = (Some resp, rng')"
    and ok: "server_digest_ok (te_hm E) secret (client_digest h) resp" "validate_server_hello_structure resp = Some (Inr ())"
    using response_verifiable [OF assms(3,4) cached_def assms(2) suite_length [OF cs] key_share_length [OF k],
        of user secret uid "ad_alpn ad" "ad_version ad" full rng] assms(1) by auto
  obtain w' where w: "write_tls_response (te_wops E) (te_sys E) writer resp options = Some (Inr (), w')" using assms(8) by blast
  have st: "ts_cache (st\<lparr>ts_rng := a\<rparr>) = ts_cache st" "ts_replay (st\<lparr>ts_rng := a, ts_cache := b\<rparr>) = ts_replay st"
      "ts_rng (st\<lparr>ts_rng := a, ts_cache := b, ts_replay := c\<rparr>) = a" for a b c
    by simp_all
  have "x = Some (finish_tls W E reader w' peer cfg ad (st\<lparr>ts_rng := rng, ts_cache := front, ts_replay := rc, ts_rng := rng'\<rparr>))"
    unfolding x [symmetric] answer_tls_def cached_def [symmetric] Let_def k prod.case Option.bind.simps option.case st cs f half
      assms(7) r w sum.case ..
  moreover have "answered E h secret writer options (Inr ()) w'" unfolding answered_def using ok w by blast
  ultimately show ?thesis by (auto simp: finish_tls_def Let_def split_def assms(1) validated_def)
qed

text \<open>A hello of the grammar stays one under the digest that the client writes into it.\<close>

definition answerable :: "hello \<Rightarrow> bool" where
  "answerable c \<longleftrightarrow>
    list_ex (\<lambda>s. suite_pair s \<in> set (hello_suites_offered c))
      [TLS_AES_128_GCM_SHA256, TLS_CHACHA20_POLY1305_SHA256, TLS_AES_256_GCM_SHA384] \<and>
    (\<exists>pre ks post. hello_exts c = pre @ (KEY_SHARE, shares_data ks) # post \<and> (\<forall>e\<in>set pre. fst e \<noteq> KEY_SHARE) \<and>
      list_all ext_fits ks \<and>
      (the_share TLS_NAMED_GROUP_X25519 32 None ks \<noteq> None \<or> the_share TLS_NAMED_GROUP_X25519MLKEM768 1216 None ks \<noteq> None))"

lemma client_hello_long:
  assumes "wf_hello c" "length (hello_sid c) \<le> 32"
  shows "hello_long_enough (client_hello c)"
proof -
  have "idx (client_hello c) 43 = Some (of_nat (length (hello_sid c)))"
    using hello_body_layout(2) [OF assms(1), of "client_hello c" "[]"] by simp
  moreover have "44 + length (hello_sid c) \<le> length (client_hello c)"
    using assms(1) by (simp add: client_hello_def hello_body_def wf_hello_def)
  ultimately show ?thesis using assms(2) by (auto simp: hello_long_enough_def idx_Some)
qed

lemma stamped_client_hello:
  assumes "wf_hello c"
  shows "\<exists>d. length d = 32 \<and> stamp_hello hm s ts (client_hello c) = client_hello (c\<lparr>hello_rnd := d\<rparr>)"
proof -
  have l: "length (hello_rnd c) = 32" using assms by (simp add: wf_hello_def)
  define d where "d = take 28 (sha256_hmac hm s (zeroed (client_hello c))) @
      map2 (XOR) (drop 28 (sha256_hmac hm s (zeroed (client_hello c)))) (nat_le 4 ts)"
  have b: "client_hello (c\<lparr>hello_rnd := x\<rparr>) = take 11 (client_hello c) @ x @ drop 43 (client_hello c)" if "length x = 32" for x
    using l that by (simp add: client_hello_def hello_body_def)
  have "length d = 32" by (simp add: d_def)
  then show ?thesis using b [of d] by (intro exI [of _ d]) (simp add: stamp_hello_def d_def Let_def)
qed

lemma stamped_choice:
  assumes "wf_hello c" "answerable c"
  shows "select_server_hello_cipher_suite (stamp_hello hm s ts (client_hello c)) p \<noteq> Some None"
    "select_server_hello_key_share_group_with_preference (stamp_hello hm s ts (client_hello c)) g \<noteq> Some None"
proof -
  obtain d where d: "length d = 32" "stamp_hello hm s ts (client_hello c) = client_hello (c\<lparr>hello_rnd := d\<rparr>)"
    using stamped_client_hello [OF assms(1)] by blast
  let ?c = "c\<lparr>hello_rnd := d\<rparr>"
  have wf: "wf_hello ?c" using assms(1) d(1) by (simp add: wf_hello_def hello_body_def)
  obtain pre ks post where k: "hello_exts ?c = pre @ (KEY_SHARE, shares_data ks) # post" "\<forall>e\<in>set pre. fst e \<noteq> KEY_SHARE"
      "list_all ext_fits ks" "the_share TLS_NAMED_GROUP_X25519 32 None ks \<noteq> None \<or> the_share TLS_NAMED_GROUP_X25519MLKEM768 1216 None ks \<noteq> None"
    using assms(2) by (auto simp: answerable_def)
  note c = server_choice [OF wf k(1-3), of "[]", unfolded append_Nil2, folded d(2)]
  show "select_server_hello_cipher_suite (stamp_hello hm s ts (client_hello c)) p \<noteq> Some None"
    using c [THEN conjunct1, of p] assms(2) by (auto simp: answerable_def find_None_iff)
  show "select_server_hello_key_share_group_with_preference (stamp_hello hm s ts (client_hello c)) g \<noteq> Some None"
    unfolding c [THEN conjunct2, of g] using k(4)
    by (auto simp: server_hello_key_share_candidate_order_def TLS_NAMED_GROUP_X25519_def TLS_NAMED_GROUP_X25519MLKEM768_def)
qed

lemma hello_handler_accepts:
  fixes r :: replay_spec
  assumes "runtime_user_auth cfg = Some snap" "length (ua_entries snap) \<le> 2 ^ 32" "e \<in> set (ua_entries snap)"
    and "few_candidates W snap (hello_sni h)" "hello_accepted (te_hm E) cfg (wall_secs ck) h (ua_secret e)"
    and "\<forall>e'\<in>set (ua_entries snap). hello_accepted (te_hm E) cfg (wall_secs ck) h (ua_secret e') \<longrightarrow> e' = e"
    and "\<not> fst (auth_probe_saturation_is_throttled (overload_now ck) (ts_shared st))"
    and "\<not> is_user_source_ip_denied (w_contains W) cfg (ua_user e) (fst peer)"
    and "\<not> policy_refused ck h peer cfg st" "name_known cfg h \<or> unknown_sni_action cfg = Accept"
    and rep: "lru_laws (w_lru W)" "refines_spec (w_lru W) (w_replay_hash W) cap w (ts_replay st) r" "0 < w"
      "w_base W \<le> replay_now ck - int (max w MIN_TLS_REPLAY_WINDOW)" "w_base W \<le> add_now ck - int (max w MIN_TLS_REPLAY_WINDOW)"
    and new: "\<not> tls_seen (w_replay_hash W) w (replay_now ck) (digest_half h) r"
    and rng: "range_ok (te_rand E)" and front: "front_fits (ts_cache st)"
    and choice: "\<And>p. select_server_hello_cipher_suite h p \<noteq> Some None"
      "\<And>p. select_server_hello_key_share_group_with_preference h p \<noteq> Some None"
    and written: "\<And>resp. \<exists>w'. write_tls_response (te_wops E) (te_sys E) writer resp options = Some (Inr (), w')"
  shows "\<exists>st' w' profile seed.
    handle_tls_handshake_impl W E ck h reader writer peer cfg options st =
      Some (Success (FakeTlsReader_new reader, FakeTlsWriter_with_profile w' profile seed, ua_user e), st', w') \<and>
    answered E h (ua_secret e) writer options (Inr ()) w' \<and> seen_from_now W cap w ck h (ts_replay st')"
proof -
  have l: "hello_long_enough h" using assms(5) by (simp add: hello_accepted_def)
  obtain rc1 where c: "check_tls_digest (w_lru W) (w_replay_hash W) (w_base W) (replay_now ck) (digest_half h) (ts_replay st) = Some (False, rc1)"
      "\<exists>r1 :: replay_spec. refines_spec (w_lru W) (w_replay_hash W) cap w rc1 r1"
    using tls_check [OF rep(1-4), of "digest_half h"] new by auto
  then obtain rc2 where add: "add_tls_digest (w_lru W) (w_replay_hash W) (w_base W) (add_now ck) (digest_half h) rc1 = Some rc2"
    using tls_add [OF rep(1) _ rep(3,5), of "w_replay_hash W" cap rc1 _ "digest_half h"] by blast
  obtain x where x: "admit_tls W E ck h reader writer peer cfg st = x"
    and hx: "handle_tls_handshake_impl W E ck h reader writer peer cfg options st =
      Option.bind x (\<lambda>(r, st, w). case r of Inl r \<Rightarrow> Some (r, st, w) | Inr ad \<Rightarrow> answer_tls W E ck h reader w peer cfg options ad st)"
    by (simp add: handle_tls_handshake_impl_def)
  obtain ad st1 uid where ad: "x = Some (Inr ad, st1, writer)"
      "ad_validation ad = validated h (ua_user e) (ua_secret e) uid" "ts_cache st1 = ts_cache st" "ts_replay st1 = rc1"
    using admit_accepts [OF assms(1-10) c(1) x] by blast
  have "front_fits (ts_cache st1)" using front ad(3) by simp
  note ans = answer_accepts [OF ad(2) l rng this choice add [folded ad(4)] written refl,
      where reader = reader and peer = peer and cfg = cfg]
  have "seen_from_now W cap w ck h rc2"
    using checked_then_added [OF rep c(1) add, folded seen_from_now_def] by blast
  then show ?thesis using ans unfolding hx ad(1) Option.bind.simps prod.case sum.case by blast
qed

lemma stamped_accepted:
  assumes "wf_hello c" "length (hello_sid c) \<le> 32" "wall = Some n" "int n \<le> I64_MAX" "ts \<le> U32_MAX"
    "fresh False (int n) (min (replay_window_secs cfg) 120) ts"
  shows "hello_accepted hm cfg wall (stamp_hello hm s ts (client_hello c)) s"
proof -
  note long = client_hello_long [OF assms(1,2)]
  have "43 \<le> length (client_hello c)" using long by (simp add: hello_long_enough_def)
  then show ?thesis
    using stamp_hello_authentic [OF _ assms(5)] stamp_hello_session(1) [OF long] assms by (simp add: hello_accepted_def)
qed

section \<open>A concrete handshake\<close>

text \<open>A socket that takes everything, one user, and a client that asks for the proxy's domain.\<close>

definition open_wops :: "tcp_sock writer_ops" where
  "open_wops = \<lparr>op_write = (\<lambda>t d. (Ready_Ok (length d), tk_put d t)), op_flush = (\<lambda>t. (Ready_Ok (), t)),
     op_shutdown = (\<lambda>t. (Ready_Ok (), t))\<rparr>"

definition open_sock :: tcp_sock where
  "open_sock = \<lparr>tk_wire = [], tk_maxseg = 1400, tk_sends = [], tk_faults = [], tk_set_faults = []\<rparr>"

definition demo_tls_env :: "(unit, unit, unit, unit, tcp_sock) tls_env" where
  "demo_tls_env = \<lparr>te_hm = (\<lambda>_ _ _. 3), te_crc = (\<lambda>_. 0),
     te_kx = \<lparr>kx_x25519 = (\<lambda>_ _ _. 4), kx_basepoint = [9], kx_key_try_from = (\<lambda>_. None), kx_key_new = (\<lambda>_. None),
       kx_b32_try_from = (\<lambda>_. None), kx_encapsulate = (\<lambda>_ _. [])\<rparr>,
     te_rand = demo_ops, te_ip_hash = (\<lambda>_. 0), te_wops = open_wops, te_sys = tcp_sys\<rparr>"

definition demo_tls_clock :: tls_clock where
  "demo_tls_clock = hs_clock.extend (demo_clock 200000000000)
     \<lparr>log_now = 200000000000, add_now = 200000000000, cert_now = 200000000000, wall_secs = Some 1000, epoch_secs = Some 1000\<rparr>"

definition demo_tls_config :: "nat ProxyConfig" where
  "demo_tls_config = demo_config\<lparr>tls_domain := [65, 46, 98]\<rparr>"

definition demo_tls_hello :: bytes where
  "demo_tls_hello = stamp_hello (te_hm demo_tls_env) (ua_secret demo_entry) 1007 (client_hello demo_hello)"

definition demo_tls_state :: "(nat \<times> (bytes \<times> nat) list, unit, unit) tls_state" where
  "demo_tls_state = \<lparr>ts_shared = HandshakeSharedState_new, ts_replay = ReplayChecker_new (w_lru demo_world) 256 3,
     ts_rng = demo_rng, ts_cache = None\<rparr>"

definition demo_peer :: "IpAddr \<times> nat" where
  "demo_peer = (V4 [10, 0, 0, 1], 99)"

lemma open_writes: "\<exists>w'. write_tls_response open_wops sys writer resp TlsResponseWriteOptions_default = Some (Inr (), w')"
proof -
  have "await_write_all open_wops writer resp = Some (Inr (), if resp = [] then writer else tk_put resp writer)"
    by (simp add: await_write_all.simps open_wops_def)
  then show ?thesis
    by (simp add: write_tls_response_def TlsResponseWriteOptions_default_def await_flush.simps) (simp add: open_wops_def)
qed

lemma demo_clock_facts:
  "wall_secs demo_tls_clock = Some 1000" "throttle_now demo_tls_clock = 200000000000" "overload_now demo_tls_clock = 200000000000"
  "replay_now demo_tls_clock = 200000000000" "add_now demo_tls_clock = 200000000000"
  by (simp_all add: demo_tls_clock_def hs_clock.defs demo_clock_def)

lemma demo_answerable: "answerable demo_hello" "length (hello_sid demo_hello) \<le> 32"
proof -
  have "\<exists>pre ks post. hello_exts demo_hello = pre @ (KEY_SHARE, shares_data ks) # post \<and> (\<forall>e\<in>set pre. fst e \<noteq> KEY_SHARE) \<and>
      list_all ext_fits ks \<and>
      (the_share TLS_NAMED_GROUP_X25519 32 None ks \<noteq> None \<or> the_share TLS_NAMED_GROUP_X25519MLKEM768 1216 None ks \<noteq> None)"
    by (intro exI [of _ "take 3 (hello_exts demo_hello)"] exI [of _ "[(29, replicate 32 7)]"] exI [of _ "[]"])
       (simp add: demo_hello_def KEY_SHARE_def ext_fits_def the_share_def TLS_NAMED_GROUP_X25519_def)
  then show "answerable demo_hello"
    by (simp add: answerable_def) (simp add: demo_hello_def suite_pair_def TLS_CHACHA20_POLY1305_SHA256_def)
  show "length (hello_sid demo_hello) \<le> 32" by (simp add: demo_hello_def)
qed

lemma demo_tls_name: "extract_sni_from_client_hello demo_tls_hello = Some (Some [97, 46, 98])"
proof -
  obtain d where d: "length d = 32" "demo_tls_hello = client_hello (demo_hello\<lparr>hello_rnd := d\<rparr>)"
    using stamped_client_hello [OF demo_hello_wf] unfolding demo_tls_hello_def by blast
  have wf: "wf_hello (demo_hello\<lparr>hello_rnd := d\<rparr>)" using demo_hello_wf d(1) by (simp add: wf_hello_def hello_body_def)
  have e: "hello_exts (demo_hello\<lparr>hello_rnd := d\<rparr>) = [(16, alpn_data [[104, 50]])] @ (0, sni_data [(1, [97]), (0, [97, 46, 98])])
      # [(43, versions_data [0x0303, 0x0304]), (51, shares_data [(29, replicate 32 7)])]"
    by (simp add: demo_hello_def)
  show ?thesis using server_name_enc [OF wf e, of "[]"] demo_host by (simp add: d(2) is_host_name_def)
qed

lemma demo_tls_facts:
  "runtime_user_auth demo_tls_config = Some demo_users" "few_candidates demo_world demo_users (hello_sni demo_tls_hello)"
  "\<not> is_user_source_ip_denied (w_contains demo_world) demo_tls_config (ua_user demo_entry) p" "name_known demo_tls_config demo_tls_hello"
  "distinct (map fst (users demo_tls_config))" "fresh False (int 1000) (min (replay_window_secs demo_tls_config) 120) 1007"
  by (simp_all add: demo_tls_config_def demo_config_def demo_users_def few_candidates_def is_user_source_ip_denied_def
      sni_candidates_def sni_initial_candidates_def name_known_def demo_tls_name hello_sni_def find_matching_tls_domain_def
      eq_ignore_ascii_case_def to_ascii_lowercase_def fresh_def)

lemma demo_tls_state_facts:
  "refines_spec (w_lru demo_world) (w_replay_hash demo_world) 4 3 (ts_replay demo_tls_state) spec_empty"
  "front_fits (ts_cache demo_tls_state)" "range_ok (te_rand demo_tls_env)"
  "\<not> fst (auth_probe_saturation_is_throttled t (ts_shared demo_tls_state))"
  "w_base demo_world \<le> replay_now demo_tls_clock - int (max 3 MIN_TLS_REPLAY_WINDOW)"
  "w_base demo_world \<le> add_now demo_tls_clock - int (max 3 MIN_TLS_REPLAY_WINDOW)"
  "\<not> tls_seen (w_replay_hash demo_world) 3 t k spec_empty"
  "\<exists>w'. write_tls_response (te_wops demo_tls_env) (te_sys demo_tls_env) writer resp TlsResponseWriteOptions_default = Some (Inr (), w')"
  using demo_checker demo_quiet(2) open_writes
  by (simp_all add: demo_tls_state_def demo_tls_env_def front_fits_def demo_world_def demo_clock_facts MIN_TLS_REPLAY_WINDOW_def
      spec_find_def spec_empty_def log_has_def log_live_def)

lemma demo_tls_admitted:
  "hello_accepted (te_hm demo_tls_env) demo_tls_config (wall_secs demo_tls_clock) demo_tls_hello (ua_secret demo_entry)"
  "\<forall>e'\<in>set (ua_entries demo_users). hello_accepted (te_hm demo_tls_env) demo_tls_config (wall_secs demo_tls_clock) demo_tls_hello (ua_secret e') \<longrightarrow>
     e' = demo_entry"
  "\<not> policy_refused demo_tls_clock demo_tls_hello p demo_tls_config demo_tls_state"
proof -
  show a: "hello_accepted (te_hm demo_tls_env) demo_tls_config (wall_secs demo_tls_clock) demo_tls_hello (ua_secret demo_entry)"
    unfolding demo_tls_hello_def
    by (rule stamped_accepted [OF demo_hello_wf demo_answerable(2) demo_clock_facts(1) _ _ demo_tls_facts(6)])
       simp_all
  show "\<forall>e'\<in>set (ua_entries demo_users). hello_accepted (te_hm demo_tls_env) demo_tls_config (wall_secs demo_tls_clock) demo_tls_hello (ua_secret e') \<longrightarrow>
     e' = demo_entry"
    by (simp add: demo_users_def)
  have "44 \<le> length demo_tls_hello" using a by (simp add: hello_accepted_def hello_long_enough_def)
  then show "\<not> policy_refused demo_tls_clock demo_tls_hello p demo_tls_config demo_tls_state"
    using demo_quiet(1) by (simp add: policy_refused_def demo_tls_state_def demo_tls_config_def demo_config_def select_alpn_def)
qed

lemma demo_tls_accepted:
  "\<exists>st' w' profile seed. handle_tls_handshake_impl demo_world demo_tls_env demo_tls_clock demo_tls_hello (1::nat) open_sock
      demo_peer demo_tls_config TlsResponseWriteOptions_default demo_tls_state =
    Some (Success (FakeTlsReader_new 1, FakeTlsWriter_with_profile w' profile seed, ua_user demo_entry), st', w')"
  using hello_handler_accepts [OF demo_tls_facts(1) demo_config_facts(2,3) demo_tls_facts(2) demo_tls_admitted(1,2)
      demo_tls_state_facts(4) demo_tls_facts(3) demo_tls_admitted(3) disjI1 [OF demo_tls_facts(4)] demo_world_facts(1)
      demo_tls_state_facts(1) _ demo_tls_state_facts(5,6,7,3,2)
      stamped_choice [OF demo_hello_wf demo_answerable(1), of "te_hm demo_tls_env" "ua_secret demo_entry" 1007, folded demo_tls_hello_def]
      demo_tls_state_facts(8), where reader = "1::nat" and writer = open_sock and peer = demo_peer]
  by fastforce

section \<open>Properties\<close>

lemma accepted_digest_added:
  assumes "handle_tls_handshake_impl W E ck h reader writer peer cfg options st = Some (Success x, st1, w1)"
    and "distinct (map fst (users cfg))" "range_ok (te_rand E)" "front_fits (ts_cache st)"
  shows "\<exists>rc. check_tls_digest (w_lru W) (w_replay_hash W) (w_base W) (replay_now ck) (digest_half h) (ts_replay st) = Some (False, rc) \<and>
    add_tls_digest (w_lru W) (w_replay_hash W) (w_base W) (add_now ck) (digest_half h) rc = Some (ts_replay st1)"
proof -
  obtain res1 st' w' where a: "admit_tls W E ck h reader writer peer cfg st = Some (res1, st', w')"
    and step: "(case res1 of Inl r \<Rightarrow> Some (r, st', w') | Inr ad \<Rightarrow> answer_tls W E ck h reader w' peer cfg options ad st') = Some (Success x, st1, w1)"
    using assms(1) by (auto simp: handle_tls_handshake_impl_def bind_eq_Some_conv)
  from a assms(2) show ?thesis
  proof (cases rule: admit_cases)
    case (admitted ad user secret uid)
    have ans: "answer_tls W E ck h reader writer peer cfg options ad st' = Some (Success x, st1, w1)" using step admitted by simp
    have pre: "hello_long_enough h" "front_fits (ts_cache st')"
      using admitted assms(4) by (simp_all add: vouched_def hello_accepted_def)
    show ?thesis by (rule answer_sound [OF ans admitted(5) pre(1) assms(3) pre(2)]) (use admitted(7) in auto)
  qed (use step in auto)
qed

lemma known_digest_refused:
  assumes "handle_tls_handshake_impl W E ck h reader writer peer cfg options st = Some (res, st1, w1)"
    and "distinct (map fst (users cfg))"
    and "\<exists>rc. check_tls_digest (w_lru W) (w_replay_hash W) (w_base W) (replay_now ck) (digest_half h) (ts_replay st) = Some (True, rc)"
  shows "res = BadClient reader writer \<and> w1 = writer \<or> res = HandshakeError UnknownTlsSni \<and> \<not> name_known cfg h"
proof -
  obtain res1 st' w' where a: "admit_tls W E ck h reader writer peer cfg st = Some (res1, st', w')"
    and step: "(case res1 of Inl r \<Rightarrow> Some (r, st', w') | Inr ad \<Rightarrow> answer_tls W E ck h reader w' peer cfg options ad st') = Some (res, st1, w1)"
    using assms(1) by (auto simp: handle_tls_handshake_impl_def bind_eq_Some_conv)
  from a assms(2) show ?thesis by (cases rule: admit_cases) (use step assms(3) in auto)
qed

text \<open>C6.
  What the FakeTLS handshake guarantees, whatever the client sends.  On success the reported user has
  a configured secret that authenticates the hello with a fresh timestamp, the address is not denied
  to the user, the name is a domain of the proxy or a user's name unless unknown names are
  accepted, and the digest was not in the replay window and is from now on.  A response was
  written in full that is structurally valid and that the client can verify, and the connection is handed on
  with fresh record streams over it.  A refused client gets back reader and writer with nothing written.
  The only errors are an unknown name under a policy to drop (nothing written) or to reject (the
  alert written), and a failed write of the response to an authenticated user, whose digest counts as
  seen.
\<close>

theorem tls_handshake_sound:
  fixes r :: replay_spec
  assumes "lru_laws (w_lru W)" "refines_spec (w_lru W) (w_replay_hash W) cap w (ts_replay st) r" "0 < w"
    and "w_base W \<le> replay_now ck - int (max w MIN_TLS_REPLAY_WINDOW)" "w_base W \<le> add_now ck - int (max w MIN_TLS_REPLAY_WINDOW)"
    and "distinct (map fst (users cfg))" "range_ok (te_rand E)" "front_fits (ts_cache st)"
    and "handle_tls_handshake_impl W E ck h reader writer peer cfg options st = Some (res, st', w')"
  shows "case res of
      Success (rd, wr, user) \<Rightarrow>
        (\<exists>secret. vouched W E ck h peer cfg user secret \<and> answered E h secret writer options (Inr ()) w') \<and>
        \<not> tls_seen (w_replay_hash W) w (replay_now ck) (digest_half h) r \<and> seen_from_now W cap w ck h (ts_replay st') \<and>
        rd = FakeTlsReader_new reader \<and> (\<exists>profile seed. wr = FakeTlsWriter_with_profile w' profile seed)
    | BadClient rd wr \<Rightarrow> rd = reader \<and> wr = writer \<and> w' = writer
    | HandshakeError UnknownTlsSni \<Rightarrow> \<not> name_known cfg h \<and>
        (unknown_sni_action cfg = Drop_connection \<and> w' = writer \<or>
         unknown_sni_action cfg = RejectHandshake \<and> alert_sent (te_wops E) writer w')
    | HandshakeError (Io e) \<Rightarrow>
        (\<exists>user secret. vouched W E ck h peer cfg user secret \<and> answered E h secret writer options (Inl e) w') \<and>
        \<not> tls_seen (w_replay_hash W) w (replay_now ck) (digest_half h) r \<and> seen_from_now W cap w ck h (ts_replay st')"
proof -
  obtain res1 st1 w1 where a: "admit_tls W E ck h reader writer peer cfg st = Some (res1, st1, w1)"
    and step: "(case res1 of Inl r \<Rightarrow> Some (r, st1, w1) | Inr ad \<Rightarrow> answer_tls W E ck h reader w1 peer cfg options ad st1) = Some (res, st', w')"
    using assms(9) by (auto simp: handle_tls_handshake_impl_def bind_eq_Some_conv)
  from a assms(6) show ?thesis
  proof (cases rule: admit_cases)
    case (admitted ad user secret uid)
    have ans: "answer_tls W E ck h reader writer peer cfg options ad st1 = Some (res, st', w')" using step admitted by simp
    have pre: "hello_long_enough h" "front_fits (ts_cache st1)"
      using admitted assms(8) by (simp_all add: vouched_def hello_accepted_def)
    note seen = checked_then_added [OF assms(1-5) admitted(7), folded seen_from_now_def]
    show ?thesis
      by (rule answer_sound [OF ans admitted(5) pre(1) assms(7) pre(2)]) (use admitted(6) seen in auto)
  qed (use step in auto)
qed

theorem tls_handshake_sound_witness:
  "\<exists>rd wr st' w'. handle_tls_handshake_impl demo_world demo_tls_env demo_tls_clock demo_tls_hello (1::nat) open_sock
      demo_peer demo_tls_config TlsResponseWriteOptions_default demo_tls_state =
      Some (Success (rd, wr, [97]), st', w') \<and>
    (\<exists>secret. vouched demo_world demo_tls_env demo_tls_clock demo_tls_hello demo_peer demo_tls_config [97] secret \<and>
      answered demo_tls_env demo_tls_hello secret open_sock TlsResponseWriteOptions_default (Inr ()) w') \<and>
    seen_from_now demo_world 4 3 demo_tls_clock demo_tls_hello (ts_replay st')"
proof -
  obtain st' w' profile seed where s: "handle_tls_handshake_impl demo_world demo_tls_env demo_tls_clock demo_tls_hello (1::nat) open_sock
      demo_peer demo_tls_config TlsResponseWriteOptions_default demo_tls_state =
      Some (Success (FakeTlsReader_new 1, FakeTlsWriter_with_profile w' profile seed, ua_user demo_entry), st', w')"
    using demo_tls_accepted by blast
  from tls_handshake_sound [OF demo_world_facts(1) demo_tls_state_facts(1) _ demo_tls_state_facts(5,6) demo_tls_facts(5)
      demo_tls_state_facts(3,2) s] s show ?thesis
    by (auto simp: demo_entry_def)
qed

text \<open>C7.
  A recorded hello is of no use.  After a hello has been accepted, let any operations run on
  the replay checker, adding fewer different other digests to the shard of its digest than the shard
  holds.  Until the window for digests has passed since it was added, no hello with the same
  digest is accepted, from any client, under any configuration and at any reading of the clock: the client is
  refused with nothing written, or turned away because the name is unknown.
\<close>

theorem accepted_hello_not_replayable:
  fixes r :: replay_spec
  assumes "lru_laws (w_lru W)" "refines_spec (w_lru W) (w_replay_hash W) cap w (ts_replay st) r" "0 < w"
    and "\<forall>now\<in>{replay_now ck, add_now ck, replay_now ck'} \<union> fst ` set mid. w_base W \<le> now - int (max w MIN_TLS_REPLAY_WINDOW)"
    and "distinct (map fst (users cfg))" "range_ok (te_rand E)" "front_fits (ts_cache st)"
    and "handle_tls_handshake_impl W E ck h reader writer peer cfg options st = Some (Success x, st1, w1)"
    and "replay_run (w_lru W) (w_replay_hash W) (w_base W) mid (ts_replay st1) = Some (answers, ts_replay st2)"
    and "card (rivals (w_replay_hash W) Tls_digests (digest_half h) mid) < cap"
    and "\<forall>now\<in>{replay_now ck'} \<union> fst ` set mid. now \<le> add_now ck + int (max w MIN_TLS_REPLAY_WINDOW)"
    and "digest_half h' = digest_half h" "distinct (map fst (users cfg'))"
    and "handle_tls_handshake_impl W E ck' h' reader' writer' peer' cfg' options' st2 = Some (res, st3, w2)"
  shows "res = BadClient reader' writer' \<and> w2 = writer' \<or> res = HandshakeError UnknownTlsSni \<and> \<not> name_known cfg' h'"
proof -
  note a = accepted_digest_added [OF assms(8,5-7)]
  obtain rc1 where "check_tls_digest (w_lru W) (w_replay_hash W) (w_base W) (replay_now ck) (digest_half h) (ts_replay st) = Some (False, rc1)"
    "add_tls_digest (w_lru W) (w_replay_hash W) (w_base W) (add_now ck) (digest_half h) rc1 = Some (ts_replay st1)"
    using a by blast
  from added_digest_found [OF assms(1-4) this assms(9-11)]
  have found: "\<exists>rc. check_tls_digest (w_lru W) (w_replay_hash W) (w_base W) (replay_now ck') (digest_half h') (ts_replay st2) = Some (True, rc)"
    unfolding assms(12) .
  show ?thesis by (rule known_digest_refused [OF assms(14,13) found])
qed

theorem accepted_hello_not_replayable_witness:
  "\<exists>x st1 w1. handle_tls_handshake_impl demo_world demo_tls_env demo_tls_clock demo_tls_hello (1::nat) open_sock
      demo_peer demo_tls_config TlsResponseWriteOptions_default demo_tls_state = Some (Success x, st1, w1) \<and>
    (\<forall>res st3 w2. handle_tls_handshake_impl demo_world demo_tls_env demo_tls_clock demo_tls_hello (1::nat) open_sock
      demo_peer demo_tls_config TlsResponseWriteOptions_default st1 = Some (res, st3, w2) \<longrightarrow> (\<forall>y. res \<noteq> Success y))"
proof -
  obtain st1 w1 x where s: "handle_tls_handshake_impl demo_world demo_tls_env demo_tls_clock demo_tls_hello (1::nat) open_sock
      demo_peer demo_tls_config TlsResponseWriteOptions_default demo_tls_state = Some (Success x, st1, w1)"
    using demo_tls_accepted by blast
  have "\<forall>y. res \<noteq> Success y"
    if "handle_tls_handshake_impl demo_world demo_tls_env demo_tls_clock demo_tls_hello (1::nat) open_sock
      demo_peer demo_tls_config TlsResponseWriteOptions_default st1 = Some (res, st3, w2)" for res st3 w2
    using accepted_hello_not_replayable [OF demo_world_facts(1) demo_tls_state_facts(1) _ _ demo_tls_facts(5)
        demo_tls_state_facts(3,2) s replay_run.simps(1) _ _ refl demo_tls_facts(5) that] demo_tls_state_facts(5,6)
    by (auto simp: rivals_def keys_added_def demo_tls_clock_def demo_clock_def hs_clock.defs MIN_TLS_REPLAY_WINDOW_def)
  then show ?thesis using s by blast
qed

text \<open>C8.
  A genuine client gets in.  Let a client write any well-formed ClientHello with a usable cipher suite and key share
  and stamp it with the secret of a configured user and a time that is fresh for the proxy's clock, and
  let the other secrets not happen to accept it.  If the policy on rates, protocols and names does not refuse
  the client, the proxy is not overloaded, the name points to few users, the address is not denied to
  that user, the digest is not in the replay window and the socket takes what is written, then the
  handshake succeeds for this user: a response that the client can verify is written, and the digest is
  known from then on.
\<close>

theorem genuine_hello_accepted:
  fixes r :: replay_spec
  assumes h_def: "h = stamp_hello (te_hm E) (ua_secret e) ts (client_hello c)"
    and "runtime_user_auth cfg = Some snap" "length (ua_entries snap) \<le> 2 ^ 32" "e \<in> set (ua_entries snap)"
    and "few_candidates W snap (hello_sni h)" "wf_hello c" "length (hello_sid c) \<le> 32" "answerable c"
    and "wall_secs ck = Some n" "int n \<le> I64_MAX" "ts \<le> U32_MAX" "fresh False (int n) (min (replay_window_secs cfg) 120) ts"
    and "\<forall>e'\<in>set (ua_entries snap). hello_accepted (te_hm E) cfg (wall_secs ck) h (ua_secret e') \<longrightarrow> e' = e"
    and "\<not> policy_refused ck h peer cfg st" "name_known cfg h \<or> unknown_sni_action cfg = Accept"
    and "\<not> fst (auth_probe_saturation_is_throttled (overload_now ck) (ts_shared st))"
    and "\<not> is_user_source_ip_denied (w_contains W) cfg (ua_user e) (fst peer)"
    and "lru_laws (w_lru W)" "refines_spec (w_lru W) (w_replay_hash W) cap w (ts_replay st) r" "0 < w"
    and "w_base W \<le> replay_now ck - int (max w MIN_TLS_REPLAY_WINDOW)" "w_base W \<le> add_now ck - int (max w MIN_TLS_REPLAY_WINDOW)"
    and "\<not> tls_seen (w_replay_hash W) w (replay_now ck) (digest_half h) r"
    and "range_ok (te_rand E)" "front_fits (ts_cache st)"
    and "\<And>resp. \<exists>w'. write_tls_response (te_wops E) (te_sys E) writer resp options = Some (Inr (), w')"
  shows "\<exists>st' w' profile seed.
    handle_tls_handshake_impl W E ck h reader writer peer cfg options st =
      Some (Success (FakeTlsReader_new reader, FakeTlsWriter_with_profile w' profile seed, ua_user e), st', w') \<and>
    answered E h (ua_secret e) writer options (Inr ()) w' \<and> seen_from_now W cap w ck h (ts_replay st')"
proof -
  have "hello_accepted (te_hm E) cfg (wall_secs ck) h (ua_secret e)"
    unfolding h_def by (rule stamped_accepted [OF assms(6,7,9-12)])
  then show ?thesis
    by (rule hello_handler_accepts [OF assms(2-5) _ assms(13,16,17,14,15,18-25)
          stamped_choice [OF assms(6,8), of "te_hm E" "ua_secret e" ts, folded h_def] assms(26)])
qed

theorem genuine_hello_accepted_witness:
  "\<exists>rd wr st' w'. handle_tls_handshake_impl demo_world demo_tls_env demo_tls_clock demo_tls_hello (1::nat) open_sock
      demo_peer demo_tls_config TlsResponseWriteOptions_default demo_tls_state =
      Some (Success (rd, wr, [97]), st', w')"
  using genuine_hello_accepted [OF demo_tls_hello_def demo_tls_facts(1) demo_config_facts(2,3) demo_tls_facts(2) demo_hello_wf
      demo_answerable(2,1) demo_clock_facts(1) _ _ demo_tls_facts(6) demo_tls_admitted(2,3) disjI1 [OF demo_tls_facts(4)]
      demo_tls_state_facts(4) demo_tls_facts(3) demo_world_facts(1) demo_tls_state_facts(1) _ demo_tls_state_facts(5,6,7,3,2,8),
      where reader = "1::nat" and writer = open_sock and peer = demo_peer]
  by (fastforce simp: demo_entry_def)

end
