(* ===== verification/Spec2Isabelle.thy ===== *)
theory Spec2Isabelle
  imports Frame_Transport Tls_Validate Tls_Grammar Fairness_Live Stream_Claims Nonce_Props Tls_Handshake_Props
begin

text \<open>
  A verification of the MTProto proxy under \<open>src/\<close> (paths below are relative to \<open>src/src\<close>).

  \<^bold>\<open>The program.\<close>  A client connects over TCP, either with the obfuscated MTProto transport or with
  FakeTLS, an imitation of TLS 1.3 whose ClientHello is authenticated by a MAC under the user's
  secret.  The handshake finds the user, the connection is then a stack of stream wrappers
  (AES-CTR over FakeTLS records over the socket) carrying MTProto frames, and the traffic goes to a
  Telegram data centre, directly or through a middle proxy whose replies are multiplexed over
  workers with a fair scheduler.

  \<^bold>\<open>Theories, by part.\<close>
  \<^item> \<open>Prelude\<close>, \<open>Std_Net\<close>, \<open>Assoc_Sum\<close>: Rust's integers at their widths, checked indexing, byte
    orders; UTF-8 and address parsing of the standard library; hash maps as association lists.
  \<^item> \<open>Secure_Random\<close>: the buffered random source (\<open>crypto/random.rs\<close>).
  \<^item> \<open>Framing\<close>, \<open>Frame_Codec\<close>, \<open>Frame_Transport\<close>: protocol tags, length headers, the three codecs and
    the unified one (\<open>protocol/constants.rs\<close>, \<open>frame.rs\<close>, \<open>framing.rs\<close>, \<open>stream/frame.rs\<close>,
    \<open>stream/frame_codec.rs\<close>).  The locale \<open>frame_transport\<close> is the codec contract: its clients get
    delivery under any chunking once, all codecs are shown to keep it.
  \<^item> \<open>Tls_Base\<close>, \<open>Tls_Parse\<close>, \<open>Tls_Server\<close>, \<open>Tls_Validate\<close>, \<open>Tls_Hello\<close>, \<open>Tls_Grammar\<close>: \<open>protocol/tls.rs\<close>.
    The ClientHello parsers against an abstract hello, authentication of the hello, the choice of
    suite and key share, and the response flight.
  \<^item> \<open>Tls_Front\<close>, \<open>Tls_Emulator\<close>, \<open>Tls_Emulator_Props\<close>: the profiles of real sites and their cache
    (\<open>tls_front/types.rs\<close>, \<open>tls_front/cache.rs\<close>), and the response that imitates one
    (\<open>tls_front/emulator.rs\<close>).
  \<^item> \<open>Fragmented_Send\<close>: sending in fragments under a lowered segment size
    (\<open>transport/socket/fragmented_send.rs\<close>).  The locale \<open>tcp_socket\<close> is what the system calls do to
    the wire; a socket with scripted outcomes is its interpretation.
  \<^item> \<open>Tls_Handshake\<close>, \<open>Tls_Handshake_Props\<close>: the FakeTLS handshake (\<open>proxy/handshake/tls_handshake.rs\<close>,
    \<open>tls_auth.rs\<close>, \<open>tls_validation.rs\<close>), from the throttle to the record streams.  \<open>admit_tls\<close> is the
    handler up to the replay check and \<open>answer_tls\<close> the rest.
  \<^item> \<open>Async_Io\<close>, \<open>Tls_Stream\<close>, \<open>Tls_Stream_Read\<close>, \<open>Tls_Stream_Write\<close>, \<open>Crypto_Stream\<close>, \<open>Stream_Stack\<close>,
    \<open>Stream_Claims\<close>: the polled readers and writers (\<open>stream/tls_stream.rs\<close>,
    \<open>stream/crypto_stream.rs\<close>).  The locales \<open>async_read\<close> and \<open>async_write\<close> are the contract of
    a stream under a wrapper; a scripted socket, FakeTLS over it and the cipher over that are
    interpretations, so that the properties of the whole stack follow by composition.
  \<^item> \<open>Fairness_Pressure\<close>, \<open>Fairness_Scheduler\<close>, \<open>Fairness_Inv\<close>, \<open>Flow_Fifo\<close>, \<open>Fairness_Run\<close>,
    \<open>Fairness_Live\<close>: the deficit-round-robin scheduler of a middle-proxy worker
    (\<open>transport/middle_proxy/fairness\<close>), its invariant, and runs of it as a step relation.  The
    locale \<open>flow_queues\<close> carries the order argument.
  \<^item> \<open>Replay_Checker\<close>: the sharded replay cache (\<open>stats/replay.rs\<close>) against a window log per shard.
  \<^item> \<open>Auth_Probe\<close>, \<open>Auth_Probe_Props\<close>: throttling of failing clients
    (\<open>proxy/handshake/auth_probe.rs\<close>, the handshake part of \<open>proxy/shared_state.rs\<close>).
  \<^item> \<open>User_Auth\<close>, \<open>User_Auth_Props\<close>: the snapshot of the users (\<open>config/load/runtime_auth.rs\<close>), hints
    and the budgeted search (\<open>proxy/handshake/auth_candidates.rs\<close>).
  \<^item> \<open>Obfuscation\<close>, \<open>Proxy_Config\<close>, \<open>Mtproto_Handshake\<close>, \<open>Mtproto_Props\<close>, \<open>Mtproto_Claims\<close>, \<open>Nonce_Props\<close>:
    key derivation (\<open>protocol/obfuscation.rs\<close>), the configuration the handshakes read, the MTProto
    handshake (\<open>proxy/handshake/mtproto.rs\<close>) and the nonce for Telegram (\<open>proxy/handshake/nonce.rs\<close>).

  \<^bold>\<open>How code and model correspond.\<close>  Structs are records, enums datatypes, with the names of the
  source where they do not clash.  A function of the source is a definition of the same name; a
  method that mutates its object returns the new one.  A panic is \<^term>\<open>None\<close> of the type \<open>'a rs\<close>,
  an error is \<^term>\<open>Inl\<close>.  Unsigned integers are naturals with the saturation, wrap-around or check
  of the source written out; bytes are \<open>8 word\<close>.  Instants are integers and durations naturals, in
  nanoseconds.  Loops are structural recursion or have a termination proof; the loops of
  \<open>generate_nonce\<close>, \<open>generate_tg_nonce\<close>, \<open>tls_poll_read\<close>, \<open>read_exact_loop\<close>, \<open>write_all_tls\<close> and
  \<open>send_fragment\<close>, and waiting for a stream (\<open>await_read\<close>, \<open>await_write_all\<close>, \<open>await_flush\<close>), are
  partial functions whose results are shown to exist under the stated conditions.
  No model uses fuel.  Concurrency appears as sequences of operations: each shared structure is
  guarded by its own lock or atomics in the source, so its operations are the steps, in any order.

  \<^bold>\<open>Parameters.\<close>  Code outside the repository is an argument: the random generator and its cipher,
  HMAC, SHA-256, AES as a key stream, X25519 and ML-KEM, the LRU cache, hash functions and the order
  in which a concurrent map is walked, hex decoding, network membership, the system calls on a
  socket, and the streams below.
  What is assumed of them is named (\<open>range_ok\<close>, \<open>lru_laws\<close>, \<open>env_ok\<close>, the locales of streams and sockets) and
  shown to hold for a concrete instance.

  \<^bold>\<open>What is shown.\<close>  Codecs: round trip under any chunking, decoding of exactly the frames of the
  format, overhead, agreement of the two implementations.  FakeTLS: the parsers agree with the grammar and never panic, a hello is
  accepted exactly if it is authentic and fresh, the response is well formed and verifiable, also
  where it imitates a site.  The handler as a whole lets in only an authentic, fresh and unseen hello of
  a configured user, lets in a genuine one, lets no copy in after it, and gives a refused connection back untouched.
  Streams: the reader implements a record-level reference for every arrival pattern, the full stack
  delivers what was written, buffers are bounded.  Scheduler: order, balanced counters, progress,
  caps, hysteresis, no panic.  Authentication: the replay cache implements a window log and finds
  what was added until its window or the capacity of its shard is used up, failing clients are held to
  one guess per second beyond ten for each time the table starts an entry for them, the search finds a user and only a right one, an MTProto handshake
  succeeds exactly as it should and only once, and the nonce for Telegram opens there.  Where the
  code does not do what it means to, the theorem that shows it says so: an empty secure frame that
  cannot be decoded, a poisoned writer revived by shutdown, users the FakeTLS search can miss, and a
  second copy of a hello that passes the replay check between the check and the addition of the first.

  \<^bold>\<open>Not modelled.\<close>  Operating-system and network glue (sockets, SOCKS and Shadowsocks connectors,
  packet-filter control, STUN, DNS, daemon and service management, CLI, logging), the HTTP API and
  metrics rendering, loading, defaulting, validation and hot reload of the configuration file,
  start-up and reload orchestration, the certificate fetcher of the FakeTLS front and the copies of
  its cache on disk, the middle-proxy pool with its health and refill logic, and the relay loops with their
  limiters.  They are tasks around sockets, timers and shared counters whose behaviour lies in
  their interleaving with the runtime and the network rather than in functions of their
  arguments.  Waiting before a rejection, logging, and erasing of key material leave no trace in
  the modelled state.
\<close>

end
